(* ===== verification/Prelude.thy ===== *)
theory Prelude
  imports Main "HOL-Library.Word"
begin

text \<open>
  Shared vocabulary of the development: Go's \<^verbatim>\<open>int64\<close> arithmetic with its
  wrap-around, errors as values, loops with an early return, the string functions the
  sources call, decimal printing, and the generic interface locales for loops that may
  fail. Components import this theory and add their simplification rules to the
  collections \<open>int64_simps\<close> and \<open>res_simps\<close>.
\<close>

section \<open>Collections\<close>

named_theorems int64_simps "unfolding of 64-bit operations"
named_theorems res_simps "unfolding of operations on results"

section \<open>64-bit signed integers\<close>

text \<open>
  A Go \<^verbatim>\<open>int64\<close> is an \<open>int\<close> in the range of \<open>in64\<close>; every addition or
  subtraction of the source goes through \<open>wrap64\<close>, the two's complement wrap-around.
\<close>

type_synonym i64 = int

abbreviation MaxInt64 :: i64 where
  "MaxInt64 \<equiv> 9223372036854775807"

definition in64 :: "int \<Rightarrow> bool" where
  "in64 x \<longleftrightarrow> - 9223372036854775808 \<le> x \<and> x \<le> MaxInt64"

definition wrap64 :: "int \<Rightarrow> i64" where
  "wrap64 x = (x + 9223372036854775808) mod 18446744073709551616 - 9223372036854775808"

definition add64 :: "i64 \<Rightarrow> i64 \<Rightarrow> i64" where
  "add64 a b = wrap64 (a + b)"

definition sub64 :: "i64 \<Rightarrow> i64 \<Rightarrow> i64" where
  "sub64 a b = wrap64 (a - b)"

lemma wrap64_id: "in64 x \<Longrightarrow> wrap64 x = x"
  by (simp add: wrap64_def in64_def)

lemma in64_wrap64: "in64 (wrap64 x)"
proof -
  have "0 \<le> (x + 9223372036854775808) mod 18446744073709551616"
    by simp
  moreover have "(x + 9223372036854775808) mod 18446744073709551616 < 18446744073709551616"
    by (rule pos_mod_bound) simp
  ultimately show ?thesis unfolding in64_def wrap64_def by linarith
qed

lemma in64_add64 [simp]: "in64 (add64 a b)"
  by (simp add: add64_def in64_wrap64)

lemma in64_sub64 [simp]: "in64 (sub64 a b)"
  by (simp add: sub64_def in64_wrap64)

lemma add64_exact: "in64 (a + b) \<Longrightarrow> add64 a b = a + b"
  by (simp add: add64_def wrap64_id)

lemma sub64_exact: "in64 (a - b) \<Longrightarrow> sub64 a b = a - b"
  by (simp add: sub64_def wrap64_id)

lemma add64_nonneg_exact [int64_simps]:
  "0 \<le> a \<Longrightarrow> 0 \<le> b \<Longrightarrow> a + b \<le> MaxInt64 \<Longrightarrow> add64 a b = a + b"
  by (rule add64_exact) (simp add: in64_def)

lemma sub64_nonneg_exact [int64_simps]:
  "0 \<le> a \<Longrightarrow> a \<le> MaxInt64 \<Longrightarrow> 0 \<le> b \<Longrightarrow> b \<le> MaxInt64 \<Longrightarrow> sub64 a b = a - b"
  by (rule sub64_exact) (simp add: in64_def)

section \<open>Errors as values\<close>

text \<open>
  A Go function returning \<^verbatim>\<open>(T, error)\<close> is a function into \<open>T res\<close>: \<open>Inl\<close> carries
  the error, \<open>Inr\<close> the value. Messages are kept as text; messages the sources write in
  Chinese are given in English. \<open>ErrNoRows\<close> is \<^verbatim>\<open>sql.ErrNoRows\<close>.
\<close>

datatype error = Err string | ErrNoRows | ErrNotFound

type_synonym 'a res = "error + 'a"

fun bindR :: "'a res \<Rightarrow> ('a \<Rightarrow> 'b res) \<Rightarrow> 'b res" where
  "bindR (Inl e) f = Inl e"
| "bindR (Inr x) f = f x"

lemma bindR_eq_Inr [res_simps]:
  "bindR m f = Inr y \<longleftrightarrow> (\<exists>x. m = Inr x \<and> f x = Inr y)"
  by (cases m) auto

lemma bindR_eq_Inl [res_simps]:
  "bindR m f = Inl e \<longleftrightarrow> m = Inl e \<or> (\<exists>x. m = Inr x \<and> f x = Inl e)"
  by (cases m) auto

lemma bindR_InrE:
  assumes "bindR m f = Inr y"
  obtains x where "m = Inr x" and "f x = Inr y"
  using assms by (auto simp: bindR_eq_Inr)

lemma bindR_cong [fundef_cong]:
  "m = m' \<Longrightarrow> (\<And>x. m' = Inr x \<Longrightarrow> f x = g x) \<Longrightarrow> bindR m f = bindR m' g"
  by (cases m') auto

definition isOk :: "'a res \<Rightarrow> bool" where
  "isOk r = (case r of Inl _ \<Rightarrow> False | Inr _ \<Rightarrow> True)"

lemma isOk_simps [simp]: "isOk (Inr x)" "\<not> isOk (Inl e)"
  by (simp_all add: isOk_def)

lemma isOk_iff: "isOk r \<longleftrightarrow> (\<exists>x. r = Inr x)"
  by (cases r) auto

section \<open>Loops with an early return\<close>

text \<open>
  \<open>foldE step s xs\<close> is \<^verbatim>\<open>for _, x := range xs\<close> over a state \<open>s\<close>, left at the first
  error the body returns.
\<close>

fun foldE :: "('s \<Rightarrow> 'x \<Rightarrow> 's res) \<Rightarrow> 's \<Rightarrow> 'x list \<Rightarrow> 's res" where
  "foldE step s [] = Inr s"
| "foldE step s (x # xs) = bindR (step s x) (\<lambda>s'. foldE step s' xs)"

lemma foldE_append: "foldE step s (xs @ ys) = bindR (foldE step s xs) (\<lambda>s'. foldE step s' ys)"
proof (induction xs arbitrary: s)
  case Nil
  then show ?case by simp
next
  case (Cons x xs)
  then show ?case by (cases "step s x") auto
qed

lemma foldE_cong [fundef_cong]:
  assumes "s = s'" and "xs = ys"
    and "\<And>s x. x \<in> set ys \<Longrightarrow> f s x = g s x"
  shows "foldE f s xs = foldE g s' ys"
  using assms
proof (induction ys arbitrary: s s' xs)
  case Nil
  then show ?case by simp
next
  case (Cons y ys)
  then show ?case by (cases "g s' y") auto
qed

text \<open>
  The interface of a loop body: an invariant of the loop state that every successful
  iteration keeps. The loop's lemmas are proved once, here; each loop of the sources
  interprets the locale with its own body.
\<close>

locale loop_invariant =
  fixes step :: "'s \<Rightarrow> 'x \<Rightarrow> 's res"
    and inv :: "'s \<Rightarrow> bool"
  assumes step_inv: "step s x = Inr s' \<Longrightarrow> inv s \<Longrightarrow> inv s'"
begin

lemma loop_inv: "foldE step s xs = Inr s' \<Longrightarrow> inv s \<Longrightarrow> inv s'"
proof (induction xs arbitrary: s)
  case Nil
  then show ?case by simp
next
  case (Cons x xs)
  then obtain t where "step s x = Inr t" "foldE step t xs = Inr s'"
    by (auto simp: bindR_eq_Inr)
  with Cons show ?case using step_inv by blast
qed

end

text \<open>
  A loop that measures: besides the invariant, each iteration adds \<open>gain s x\<close> to a
  quantity read off the state, so the loop adds the sum of what its iterations added.
\<close>

fun gains :: "('s \<Rightarrow> 'x \<Rightarrow> 's res) \<Rightarrow> ('s \<Rightarrow> 'x \<Rightarrow> int) \<Rightarrow> 's \<Rightarrow> 'x list \<Rightarrow> int" where
  "gains step gain s [] = 0"
| "gains step gain s (x # xs) =
     (case step s x of Inl _ \<Rightarrow> 0 | Inr s' \<Rightarrow> gain s x + gains step gain s' xs)"

locale loop_accumulates = loop_invariant step inv
  for step :: "'s \<Rightarrow> 'x \<Rightarrow> 's res" and inv :: "'s \<Rightarrow> bool" +
  fixes total :: "'s \<Rightarrow> int"
    and gain :: "'s \<Rightarrow> 'x \<Rightarrow> int"
  assumes step_total: "step s x = Inr s' \<Longrightarrow> inv s \<Longrightarrow> total s' = total s + gain s x"
begin

lemma loop_total:
  "foldE step s xs = Inr s' \<Longrightarrow> inv s \<Longrightarrow> total s' = total s + gains step gain s xs"
proof (induction xs arbitrary: s)
  case Nil
  then show ?case by simp
next
  case (Cons x xs)
  then obtain t where t: "step s x = Inr t" "foldE step t xs = Inr s'"
    by (auto simp: bindR_eq_Inr)
  with Cons.prems have "inv t" and "total t = total s + gain s x"
    by (auto intro: step_inv step_total)
  with Cons.IH [OF t(2)] t(1) show ?case by simp
qed

end

section \<open>Versioned registers\<close>

text \<open>
  The contract of a versioned register written by compare-and-set: a write names the
  version its author read, succeeds only against that version and moves it on by one. So
  of all writers that read the same version at most one succeeds, and an old reading never
  overwrites a newer state, however many writes lie between. \<open>casHistory\<close> runs a sequence of
  attempts and collects the versions of those that succeeded.
\<close>

fun casHistory :: "(int \<Rightarrow> 'v \<Rightarrow> 's \<Rightarrow> 's option) \<Rightarrow> 's \<Rightarrow> (int \<times> 'v) list \<Rightarrow> int list \<times> 's" where
  "casHistory cas s [] = ([], s)"
| "casHistory cas s ((e, v) # ws) =
     (case cas e v s of
        None \<Rightarrow> casHistory cas s ws
      | Some t \<Rightarrow> (case casHistory cas t ws of (es, u) \<Rightarrow> (e # es, u)))"

locale cas_register =
  fixes version :: "'s \<Rightarrow> int"
    and cas :: "int \<Rightarrow> 'v \<Rightarrow> 's \<Rightarrow> 's option"
  assumes cas_checks: "cas e v s = Some s' \<Longrightarrow> version s = e"
    and cas_moves: "cas e v s = Some s' \<Longrightarrow> version s' = e + 1"
begin

lemma stale_loses: "e \<noteq> version s \<Longrightarrow> cas e v s = None"
  using cas_checks [of e v s] by (cases "cas e v s") auto

lemma one_winner: "cas e v s = Some t \<Longrightarrow> cas e w t = None"
  by (rule stale_loses) (simp add: cas_moves)

lemma history_versions:
  "casHistory cas s ws = (es, u) \<Longrightarrow> version s \<le> version u \<and> es = [version s .. version u - 1]"
proof (induction ws arbitrary: s es)
  case Nil
  then show ?case by simp
next
  case (Cons w ws)
  obtain e v where w: "w = (e, v)" by fastforce
  show ?case
  proof (cases "cas e v s")
    case None
    with Cons w show ?thesis by simp
  next
    case (Some t)
    then obtain es' where es: "casHistory cas t ws = (es', u)" "es = e # es'"
      using Cons.prems w by (auto split: prod.splits)
    have "version s = e" "version t = e + 1" using Some by (auto dest: cas_checks cas_moves)
    with Cons.IH [OF es(1)] es(2) show ?thesis by (simp add: upto.simps [of e "version u - 1"])
  qed
qed

end

section \<open>Maps built by assignment\<close>

text \<open>
  \<open>lastBy f xs\<close> is the map a loop \<^verbatim>\<open>for _, x := range xs { m[f(x)] = x }\<close> builds: a later
  element replaces an earlier one with the same key.
\<close>

definition lastBy :: "('a \<Rightarrow> 'k) \<Rightarrow> 'a list \<Rightarrow> 'k \<Rightarrow> 'a option" where
  "lastBy f xs k = find (\<lambda>x. f x = k) (rev xs)"

lemma lastBy_Nil [simp]: "lastBy f [] k = None"
  by (simp add: lastBy_def)

lemma lastBy_snoc: "lastBy f (xs @ [x]) = (lastBy f xs)(f x \<mapsto> x)"
  by (auto simp: lastBy_def)

lemma lastBy_SomeD: "lastBy f xs k = Some x \<Longrightarrow> x \<in> set xs \<and> f x = k"
  by (auto simp: lastBy_def find_Some_iff) (metis length_rev nth_mem set_rev)

lemma lastBy_None_iff: "lastBy f xs k = None \<longleftrightarrow> k \<notin> f ` set xs"
  by (auto simp: lastBy_def find_None_iff)

lemma lastBy_distinct:
  assumes "distinct (map f xs)" "x \<in> set xs"
  shows "lastBy f xs (f x) = Some x"
proof -
  obtain y where y: "lastBy f xs (f x) = Some y"
    using assms(2) lastBy_None_iff [of f xs "f x"] by (cases "lastBy f xs (f x)") auto
  with lastBy_SomeD [OF y] assms show ?thesis by (auto simp: distinct_map inj_on_def)
qed

section \<open>Strings\<close>

text \<open>Go's strings are byte sequences, as \<open>string\<close> is; the functions of package strings.\<close>

fun HasPrefix :: "string \<Rightarrow> string \<Rightarrow> bool" where
  "HasPrefix s [] = True"
| "HasPrefix [] (p # ps) = False"
| "HasPrefix (c # s) (p # ps) = (c = p \<and> HasPrefix s ps)"

lemma HasPrefix_iff: "HasPrefix s p \<longleftrightarrow> (\<exists>t. s = p @ t)"
  by (induction s p rule: HasPrefix.induct) auto

lemma HasPrefix_append [simp]: "HasPrefix (p @ t) p"
  by (simp add: HasPrefix_iff)

definition TrimPrefix :: "string \<Rightarrow> string \<Rightarrow> string" where
  "TrimPrefix s p = (if HasPrefix s p then drop (length p) s else s)"

text \<open>\<^verbatim>\<open>strings.Cut(s, sep)\<close> for a one-byte separator: before, after, found.\<close>

fun Cut :: "string \<Rightarrow> char \<Rightarrow> string \<times> string \<times> bool" where
  "Cut [] sep = ([], [], False)"
| "Cut (c # s) sep =
     (if c = sep then ([], s, True)
      else case Cut s sep of (a, b, f) \<Rightarrow> (c # a, b, f))"

text \<open>\<^verbatim>\<open>strings.SplitN(s, sep, 2)[0]\<close> for a one-byte separator.\<close>

definition SplitN2_0 :: "string \<Rightarrow> char \<Rightarrow> string" where
  "SplitN2_0 s sep = takeWhile (\<lambda>c. c \<noteq> sep) s"

lemma Cut_takeWhile: "fst (Cut s sep) = SplitN2_0 s sep"
  by (induction s) (auto simp: SplitN2_0_def split: prod.splits)

text \<open>\<^verbatim>\<open>strings.ContainsAny(s, chars)\<close>\<close>

definition ContainsAny :: "string \<Rightarrow> string \<Rightarrow> bool" where
  "ContainsAny s chars = list_ex (\<lambda>c. c \<in> set chars) s"

definition isHexLower :: "char \<Rightarrow> bool" where
  "isHexLower c = (c \<in> set ''0123456789abcdef'')"

definition isHex :: "char \<Rightarrow> bool" where
  "isHex c = (c \<in> set ''0123456789abcdefABCDEF'')"

definition toLowerChar :: "char \<Rightarrow> char" where
  "toLowerChar c = (let n = of_char c :: nat in
     if 65 \<le> n \<and> n \<le> 90 then char_of (n + 32) else c)"

section \<open>Decimal printing\<close>

text \<open>\<^verbatim>\<open>%d\<close> of package fmt.\<close>

fun show_nat :: "nat \<Rightarrow> string" where
  "show_nat n =
     (if n < 10 then [char_of (48 + n)]
      else show_nat (n div 10) @ [char_of (48 + n mod 10)])"

declare show_nat.simps [simp del]

definition show_int :: "int \<Rightarrow> string" where
  "show_int i = (if i < 0 then CHR ''-'' # show_nat (nat (- i)) else show_nat (nat i))"

definition is_digit :: "char \<Rightarrow> bool" where
  "is_digit c \<longleftrightarrow> 48 \<le> (of_char c :: nat) \<and> (of_char c :: nat) \<le> 57"

lemma of_char_digit: "n < 10 \<Longrightarrow> (of_char (char_of (48 + n) :: char) :: nat) = 48 + n"
  by simp

lemma is_digit_char_of: "n < 10 \<Longrightarrow> is_digit (char_of (48 + n :: nat))"
  by (simp add: is_digit_def)

lemma show_nat_digits: "c \<in> set (show_nat n) \<Longrightarrow> is_digit c"
proof (induction n rule: show_nat.induct)
  case (1 n)
  show ?case
  proof (cases "n < 10")
    case True
    with 1 show ?thesis by (simp add: show_nat.simps [of n] is_digit_char_of)
  next
    case False
    with 1 show ?thesis
      by (auto simp: show_nat.simps [of n] is_digit_char_of)
  qed
qed

fun digits_value :: "nat \<Rightarrow> string \<Rightarrow> nat" where
  "digits_value acc [] = acc"
| "digits_value acc (c # s) = digits_value (acc * 10 + (of_char c - 48)) s"

lemma digits_value_append:
  "digits_value acc (s @ t) = digits_value (digits_value acc s) t"
  by (induction s arbitrary: acc) auto

lemma digits_value_show_nat: "digits_value 0 (show_nat n) = n"
proof (induction n rule: show_nat.induct)
  case (1 n)
  show ?case
  proof (cases "n < 10")
    case True
    then show ?thesis by (simp add: show_nat.simps [of n])
  next
    case False
    with 1 have "digits_value 0 (show_nat (n div 10)) = n div 10" by simp
    moreover have "(of_char (char_of (48 + n mod 10) :: char) :: nat) = 48 + n mod 10"
      by (rule of_char_digit) simp
    ultimately show ?thesis using False
      by (simp add: show_nat.simps [of n] digits_value_append del: of_char_of)
  qed
qed

lemma show_nat_inject [simp]: "show_nat m = show_nat n \<longleftrightarrow> m = n"
  by (metis digits_value_show_nat)

lemma show_nat_nonempty: "show_nat n \<noteq> []"
  by (simp add: show_nat.simps [of n])

lemma minus_not_digit: "\<not> is_digit CHR ''-''"
  by (simp add: is_digit_def)

lemma colon_not_digit: "\<not> is_digit CHR '':''"
  by (simp add: is_digit_def)

lemma show_int_inject [simp]: "show_int i = show_int j \<longleftrightarrow> i = j"
proof -
  have *: "show_nat n \<noteq> CHR ''-'' # s" for n s
    using show_nat_digits [of "CHR ''-''" n] minus_not_digit by auto
  show ?thesis
    by (auto simp: show_int_def * * [symmetric])
qed

lemma show_int_no_colon: "CHR '':'' \<notin> set (show_int i)"
  using show_nat_digits colon_not_digit by (auto simp: show_int_def)

text \<open>A printed number followed by a colon can be read back: keys made this way do not clash.\<close>

lemma until_colon:
  "CHR '':'' \<notin> set a \<Longrightarrow> CHR '':'' \<notin> set b \<Longrightarrow>
   a @ CHR '':'' # s = b @ CHR '':'' # t \<longleftrightarrow> a = b \<and> s = t"
proof (induction a arbitrary: b)
  case Nil
  then show ?case by (cases b) auto
next
  case (Cons x a)
  then show ?case by (cases b) auto
qed

end
