(* ===== verification/Calendar.thy ===== *)
theory Calendar
  imports Prelude
begin

text \<open>
  Package time as the sources use it: instants in UTC, the proleptic Gregorian calendar,
  \<^verbatim>\<open>time.Date\<close> with its normalisation of months, \<^verbatim>\<open>Truncate\<close> to hours and days.
  An instant is the number of nanoseconds since the zero \<^verbatim>\<open>time.Time\<close>
  (0001-01-01T00:00:00Z), so \<^verbatim>\<open>IsZero\<close> is equality with 0.
\<close>

type_synonym time = int

abbreviation day_ns :: int where
  "day_ns \<equiv> 86400000000000"

abbreviation hour_ns :: int where
  "hour_ns \<equiv> 3600000000000"

abbreviation second_ns :: int where
  "second_ns \<equiv> 1000000000"

abbreviation unix_epoch :: time where
  "unix_epoch \<equiv> 62135596800000000000"

definition IsZero :: "time \<Rightarrow> bool" where
  "IsZero t \<longleftrightarrow> t = 0"

definition day_of :: "time \<Rightarrow> int" where
  "day_of t = t div day_ns"

definition hour_of :: "time \<Rightarrow> int" where
  "hour_of t = t div hour_ns"

definition TruncateDay :: "time \<Rightarrow> time" where
  "TruncateDay t = day_of t * day_ns"

section \<open>The Gregorian calendar on day numbers\<close>

definition is_leap :: "int \<Rightarrow> bool" where
  "is_leap y \<longleftrightarrow> 4 dvd y \<and> (\<not> 100 dvd y \<or> 400 dvd y)"

definition days_before_year :: "int \<Rightarrow> int" where
  "days_before_year y = 365 * (y - 1) + (y - 1) div 4 - (y - 1) div 100 + (y - 1) div 400"

definition cum_days :: "int list" where
  "cum_days = [0, 31, 59, 90, 120, 151, 181, 212, 243, 273, 304, 334, 365]"

definition days_before_month :: "int \<Rightarrow> int \<Rightarrow> int" where
  "days_before_month y m =
     cum_days ! nat (m - 1) + (if is_leap y \<and> m > 2 then 1 else 0)"

definition days_in_month :: "int \<Rightarrow> int \<Rightarrow> int" where
  "days_in_month y m = days_before_month y (m + 1) - days_before_month y m"

text \<open>\<^verbatim>\<open>time.Date(y, m, d, 0, 0, 0, 0, UTC)\<close> as a day number; months out of range carry into years.\<close>

definition DateDay :: "int \<Rightarrow> int \<Rightarrow> int \<Rightarrow> int" where
  "DateDay y m d =
     (let y' = y + (m - 1) div 12; m' = (m - 1) mod 12 + 1
      in days_before_year y' + days_before_month y' m' + d - 1)"

definition Date :: "int \<Rightarrow> int \<Rightarrow> int \<Rightarrow> time" where
  "Date y m d = DateDay y m d * day_ns"

text \<open>The year of a day: cycles of 400, 100, 4 and 1 years.\<close>

definition year_of :: "int \<Rightarrow> int" where
  "year_of n =
     (let n400 = n div 146097; d400 = n mod 146097;
          n100 = min 3 (d400 div 36524); d100 = d400 - 36524 * n100;
          n4 = d100 div 1461; d4 = d100 mod 1461;
          n1 = min 3 (d4 div 365)
      in 400 * n400 + 100 * n100 + 4 * n4 + n1 + 1)"

function month_search :: "int \<Rightarrow> int \<Rightarrow> int \<Rightarrow> int" where
  "month_search y yd m =
     (if m < 12 \<and> days_before_month y (m + 1) \<le> yd then month_search y yd (m + 1) else m)"
  by pat_completeness auto
termination
  by (relation "measure (\<lambda>(y, yd, m). nat (12 - m))") auto

declare month_search.simps [simp del]

definition month_in_year :: "int \<Rightarrow> int \<Rightarrow> int" where
  "month_in_year y yd = month_search y yd 1"

text \<open>\<^verbatim>\<open>t.Date()\<close>\<close>

definition DateOf :: "time \<Rightarrow> int \<times> int \<times> int" where
  "DateOf t =
     (let n = day_of t; y = year_of n; yd = n - days_before_year y; m = month_in_year y yd
      in (y, m, yd - days_before_month y m + 1))"

section \<open>Years\<close>

lemma days_before_year_cycles:
  assumes "0 \<le> b" "b \<le> 3" "0 \<le> c" "c \<le> 24" "0 \<le> d" "d \<le> 3"
  shows "days_before_year (400 * a + 100 * b + 4 * c + d + 1) = 146097 * a + 36524 * b + 1461 * c + 365 * d"
proof -
  let ?z = "400 * a + 100 * b + 4 * c + d"
  have "?z div 4 = 100 * a + 25 * b + c" using assms by linarith
  moreover have "?z div 100 = 4 * a + b" using assms by linarith
  moreover have "?z div 400 = a" using assms by linarith
  ultimately show ?thesis unfolding days_before_year_def by simp
qed

lemma div_pred:
  fixes z k :: int
  assumes "0 < k"
  shows "z div k - (z - 1) div k = (if k dvd z then 1 else 0)"
proof -
  have z: "z = k * (z div k) + z mod k" and m: "0 \<le> z mod k" "z mod k < k"
    using assms by simp_all
  show ?thesis
  proof (cases "z mod k = 0")
    case True
    then have "z - 1 = (k - 1) + k * (z div k - 1)"
      using z by (simp add: algebra_simps)
    then have "(z - 1) div k = (k - 1) div k + (z div k - 1)"
      using assms by (metis div_mult_self2 less_irrefl add.commute)
    then show ?thesis using True assms by (simp add: dvd_eq_mod_eq_0)
  next
    case False
    with m have "0 \<le> z mod k - 1" "z mod k - 1 < k" by linarith+
    moreover have "z - 1 = (z mod k - 1) + k * (z div k)" using z by linarith
    ultimately have "(z - 1) div k = z div k"
      using assms by (metis div_mult_self2 less_irrefl div_pos_pos_trivial add.commute add_0)
    then show ?thesis using False by (simp add: dvd_eq_mod_eq_0)
  qed
qed

lemma days_before_year_Suc:
  "days_before_year (y + 1) = days_before_year y + (if is_leap y then 366 else 365)"
proof -
  have d: "400 dvd y \<Longrightarrow> 100 dvd y" "100 dvd y \<Longrightarrow> 4 dvd y"
    by presburger+
  have "days_before_year (y + 1) - days_before_year y =
    365 + (y div 4 - (y - 1) div 4) - (y div 100 - (y - 1) div 100) + (y div 400 - (y - 1) div 400)"
    by (simp add: days_before_year_def)
  also have "\<dots> = 365 + (if 4 dvd y then 1 else 0) - (if 100 dvd y then 1 else 0)
    + (if 400 dvd y then 1 else 0)"
    using div_pred [of 4 y] div_pred [of 100 y] div_pred [of 400 y] by simp
  also have "\<dots> = (if is_leap y then 366 else 365)"
    using d unfolding is_leap_def
    by (cases "400 dvd y"; cases "100 dvd y"; cases "4 dvd y") simp_all
  finally show ?thesis by simp
qed

lemma year_of_bounds:
  "days_before_year (year_of n) \<le> n \<and> n < days_before_year (year_of n + 1)"
proof -
  define a where "a = n div 146097"
  define e where "e = n mod 146097"
  define b where "b = min 3 (e div 36524)"
  define f where "f = e - 36524 * b"
  define c where "c = f div 1461"
  define g where "g = f mod 1461"
  define d where "d = min 3 (g div 365)"
  have y: "year_of n = 400 * a + 100 * b + 4 * c + d + 1"
    by (simp add: year_of_def Let_def a_def b_def c_def d_def e_def f_def g_def)
  have n: "n = 146097 * a + e" and e: "0 \<le> e" "e < 146097"
    by (simp_all add: a_def e_def)
  have b: "0 \<le> b" "b \<le> 3" using e by (simp_all add: b_def)
  have f: "0 \<le> f" "b < 3 \<Longrightarrow> f < 36524" "f < 36525"
    using e unfolding f_def b_def by linarith+
  have c: "0 \<le> c" "c \<le> 24" using f unfolding c_def by linarith+
  have g: "f = 1461 * c + g" "0 \<le> g" "g < 1461" by (simp_all add: c_def g_def)
  have d: "0 \<le> d" "d \<le> 3" using g by (simp_all add: d_def)
  have gd: "365 * d \<le> g" "d < 3 \<Longrightarrow> g < 365 * d + 365" "d = 3 \<Longrightarrow> g < 1461"
    using g unfolding d_def by linarith+
  have base: "days_before_year (year_of n) = 146097 * a + 36524 * b + 1461 * c + 365 * d"
    unfolding y using b c d by (intro days_before_year_cycles) auto
  have lo: "days_before_year (year_of n) \<le> n"
    using base n g gd unfolding f_def by linarith
  have leap: "is_leap (year_of n)" if "d = 3" "\<not> (c = 24 \<and> b < 3)"
  proof -
    have 4: "4 dvd year_of n" unfolding y using that by presburger
    show ?thesis
    proof (cases "c = 24")
      case True
      then have "400 dvd year_of n" unfolding y using that b by presburger
      with 4 show ?thesis by (simp add: is_leap_def)
    next
      case False
      have "year_of n = (4 * c + 4) + 100 * (4 * a + b)" unfolding y using that by simp
      then have "year_of n mod 100 = (4 * c + 4) mod 100" by (simp only: mod_mult_self2)
      also have "\<dots> = 4 * c + 4" using False c by simp
      finally have "\<not> 100 dvd year_of n" using c by (simp add: dvd_eq_mod_eq_0)
      with 4 show ?thesis by (simp add: is_leap_def)
    qed
  qed
  have "n < days_before_year (year_of n + 1)"
  proof (cases "d = 3 \<and> \<not> (c = 24 \<and> b < 3)")
    case True
    with leap have "days_before_year (year_of n + 1) = days_before_year (year_of n) + 366"
      by (simp add: days_before_year_Suc)
    with True base n g gd show ?thesis unfolding f_def by linarith
  next
    case False
    have "days_before_year (year_of n) + 365 \<le> days_before_year (year_of n + 1)"
      by (simp add: days_before_year_Suc)
    moreover have "g < 365 * d + 365" using False gd f g d by linarith
    ultimately show ?thesis using base n g unfolding f_def by linarith
  qed
  with lo show ?thesis by blast
qed

section \<open>Months\<close>

text \<open>Months are counted from year 0: month index \<open>12 * y + (m - 1)\<close>.\<close>

definition first_of :: "int \<Rightarrow> int" where
  "first_of k = days_before_year (k div 12) + days_before_month (k div 12) (k mod 12 + 1)"

definition month_index :: "time \<Rightarrow> int" where
  "month_index t = (case DateOf t of (y, m, d) \<Rightarrow> 12 * y + (m - 1))"

lemma month_cases:
  assumes "1 \<le> m" "m \<le> 12"
  shows "m \<in> {1, 2, 3, 4, 5, 6, 7, 8, 9, 10, 11, 12 :: int}"
proof -
  have "m = 1 \<or> m = 2 \<or> m = 3 \<or> m = 4 \<or> m = 5 \<or> m = 6 \<or> m = 7 \<or> m = 8 \<or> m = 9 \<or>
    m = 10 \<or> m = 11 \<or> m = 12"
    using assms by presburger
  then show ?thesis by simp
qed

lemma days_in_month_bounds:
  assumes "1 \<le> m" "m \<le> 12"
  shows "28 \<le> days_in_month y m \<and> days_in_month y m \<le> 31"
  using month_cases [OF assms]
  by (elim insertE; cases "is_leap y")
    (simp_all add: days_in_month_def days_before_month_def cum_days_def nth_Cons')

lemma days_before_month_1: "days_before_month y 1 = 0"
  by (simp add: days_before_month_def cum_days_def)

lemma days_before_month_13: "days_before_month y 13 = (if is_leap y then 366 else 365)"
  by (simp add: days_before_month_def cum_days_def nth_Cons')

lemma first_of_Suc: "first_of (k + 1) = first_of k + days_in_month (k div 12) (k mod 12 + 1)"
proof (cases "k mod 12 = 11")
  case True
  then have "12 * (k div 12) + 11 = k" using mult_div_mod_eq [of 12 k] by simp
  then have "k + 1 = 12 * (k div 12 + 1)" by (simp only: distrib_left mult_1_right)
  then have k: "(k + 1) div 12 = k div 12 + 1" "(k + 1) mod 12 = 0"
    by (metis nonzero_mult_div_cancel_left zero_neq_numeral, metis mod_mult_self1_is_0)
  have "first_of (k + 1) = days_before_year (k div 12 + 1)"
    by (simp only: first_of_def k) (simp add: days_before_month_1)
  also have "\<dots> = days_before_year (k div 12) + days_before_month (k div 12) 13"
    by (simp add: days_before_year_Suc days_before_month_13)
  finally show ?thesis
    by (simp only: first_of_def days_in_month_def True) simp
next
  case False
  moreover have "0 \<le> k mod 12" "k mod 12 < 12" by simp_all
  ultimately have r: "0 \<le> k mod 12 + 1" "k mod 12 + 1 < 12" by linarith+
  have "k + 1 = (k mod 12 + 1) + 12 * (k div 12)"
    using mult_div_mod_eq [of 12 k] by simp
  then have q: "(k + 1) div 12 = k div 12"
    using r by (metis div_mult_self2 zero_neq_numeral div_pos_pos_trivial add.commute add_0)
  have k: "(k + 1) div 12 = k div 12" "(k + 1) mod 12 = k mod 12 + 1"
    using q by (simp_all add: minus_div_mult_eq_mod [symmetric])
  show ?thesis by (simp only: first_of_def days_in_month_def k)
qed

lemma first_of_less: "first_of k < first_of (k + 1)"
proof -
  have "k mod 12 < 12" "0 \<le> k mod 12" by simp_all
  then have "28 \<le> days_in_month (k div 12) (k mod 12 + 1)"
    using days_in_month_bounds [of "k mod 12 + 1" "k div 12"] by linarith
  then show ?thesis by (simp add: first_of_Suc)
qed

lemma first_of_mono: "j \<le> k \<Longrightarrow> first_of j \<le> first_of k"
proof (induction k rule: int_ge_induct)
  case base
  show ?case by simp
next
  case (step i)
  then show ?case using first_of_less [of i] by simp
qed

lemma first_of_strict: "j < k \<Longrightarrow> first_of j < first_of k"
  using first_of_less [of j] first_of_mono [of "j + 1" k] by linarith

lemma month_unique:
  assumes "first_of j \<le> n" "n < first_of (j + 1)" "first_of k \<le> n" "n < first_of (k + 1)"
  shows "j = k"
proof (rule ccontr)
  assume "j \<noteq> k"
  then consider "j + 1 \<le> k" | "k + 1 \<le> j" by linarith
  then show False
    using assms first_of_mono [of "j + 1" k] first_of_mono [of "k + 1" j] by cases linarith+
qed

lemma month_search_correct:
  "m \<le> 12 \<Longrightarrow> days_before_month y m \<le> yd \<Longrightarrow>
   m \<le> month_search y yd m \<and> month_search y yd m \<le> 12 \<and>
   days_before_month y (month_search y yd m) \<le> yd \<and>
   (month_search y yd m = 12 \<or> yd < days_before_month y (month_search y yd m + 1))"
proof (induction y yd m rule: month_search.induct)
  case (1 y yd m)
  show ?case
  proof (cases "m < 12 \<and> days_before_month y (m + 1) \<le> yd")
    case True
    then show ?thesis using "1.IH" by (simp add: month_search.simps [of y yd m])
  next
    case False
    then show ?thesis using "1.prems" by (auto simp: month_search.simps [of y yd m])
  qed
qed

lemma month_in_year_correct:
  assumes "0 \<le> yd" "yd < (if is_leap y then 366 else 365)"
  shows "1 \<le> month_in_year y yd \<and> month_in_year y yd \<le> 12 \<and>
    days_before_month y (month_in_year y yd) \<le> yd \<and>
    yd < days_before_month y (month_in_year y yd + 1)"
  using month_search_correct [of 1 y yd] assms days_before_month_13 [of y]
  by (auto simp: month_in_year_def days_before_month_1)

lemma DateOf_correct:
  assumes "DateOf t = (y, m, d)"
  shows "1 \<le> m \<and> m \<le> 12 \<and> 1 \<le> d \<and> d \<le> days_in_month y m \<and>
    days_before_year y + days_before_month y m + d - 1 = day_of t"
proof -
  let ?y = "year_of (day_of t)"
  let ?yd = "day_of t - days_before_year ?y"
  have "0 \<le> ?yd" "?yd < (if is_leap ?y then 366 else 365)"
    using year_of_bounds [of "day_of t"] by (auto simp: days_before_year_Suc split: if_splits)
  then have mi: "1 \<le> month_in_year ?y ?yd \<and> month_in_year ?y ?yd \<le> 12 \<and>
    days_before_month ?y (month_in_year ?y ?yd) \<le> ?yd \<and>
    ?yd < days_before_month ?y (month_in_year ?y ?yd + 1)"
    by (rule month_in_year_correct)
  have "y = ?y" "m = month_in_year ?y ?yd" "d = ?yd - days_before_month y m + 1"
    using assms by (auto simp: DateOf_def Let_def)
  then show ?thesis using mi by (auto simp: days_in_month_def)
qed

lemma month_index_bounds:
  "first_of (month_index t) \<le> day_of t \<and> day_of t < first_of (month_index t + 1)"
proof -
  obtain y m d where ymd: "DateOf t = (y, m, d)" by (cases "DateOf t") auto
  note c = DateOf_correct [OF ymd]
  have k: "month_index t = 12 * y + (m - 1)" by (simp add: month_index_def ymd)
  have dm: "(12 * y + (m - 1)) div 12 = y" "(12 * y + (m - 1)) mod 12 = m - 1"
    using c by auto
  have "first_of (month_index t) = days_before_year y + days_before_month y m"
    by (simp only: k first_of_def dm) simp
  moreover have "first_of (month_index t + 1) = first_of (month_index t) + days_in_month y m"
    by (simp only: k first_of_Suc dm) simp
  ultimately show ?thesis using c by linarith
qed

lemma DateDay_first_of: "DateDay y m d = first_of (12 * y + (m - 1)) + d - 1"
proof -
  have "(12 * y + (m - 1)) div 12 = y + (m - 1) div 12"
    "(12 * y + (m - 1)) mod 12 = (m - 1) mod 12" by auto
  then show ?thesis by (simp add: DateDay_def Let_def first_of_def)
qed

lemma DateDay_DateOf: "DateOf t = (y, m, d) \<Longrightarrow> DateDay y m d = day_of t"
  using DateOf_correct [of t y m d] by (simp add: DateDay_def Let_def)

lemma day_of_Date [simp]: "day_of (Date y m d) = DateDay y m d"
  by (simp add: day_of_def Date_def)

lemma day_bounds: "day_of t * day_ns \<le> t \<and> t < (day_of t + 1) * day_ns"
  unfolding day_of_def by auto

lemma day_of_mono: "s \<le> t \<Longrightarrow> day_of s \<le> day_of t"
  by (simp add: day_of_def zdiv_mono1)

lemma day_of_mult [simp]: "day_of (n * day_ns) = n"
  by (simp add: day_of_def)

end
