(* ===== verification/Domain.thy ===== *)
theory Domain
  imports Calendar
begin

text \<open>
  The entities and the quota arithmetic of \<^verbatim>\<open>internal/domain/models.go\<close>: servers, nodes,
  share targets and shares as records, billing modes as the strings the database holds,
  and the functions every quota decision goes through. JSON texts stay strings; a map the
  code ranges over is an association list in iteration order.
\<close>

section \<open>Entities\<close>

text \<open>\<^verbatim>\<open>networkconfig.Node\<close>, the network policy attached to nodes and share targets.\<close>

record NetNode =
  nn_ListenMode :: string
  nn_ListenAddress :: string
  nn_ListenInterfaceID :: string
  nn_AdvertiseMode :: string
  nn_EgressProfileID :: i64
  nn_EgressRevision :: i64
  nn_OnUnavailable :: string

record Server =
  sv_IsNAT :: bool
  sv_ID :: i64
  sv_Name :: string
  sv_Region :: string
  sv_PublicHost :: string
  sv_Tags :: "string list"
  sv_Notes :: string
  sv_QuotaBytes :: i64
  sv_QuotaResetDay :: int
  sv_QuotaBilling :: string
  sv_CoreMode :: string
  sv_IPv4Only :: bool
  sv_CertMode :: string
  sv_Enabled :: bool
  sv_CreatedAt :: time
  sv_UpdatedAt :: time

record Node =
  nd_Network :: "NetNode option"
  nd_NetworkRevision :: i64
  nd_ID :: i64
  nd_Name :: string
  nd_OriginalName :: string
  nd_Protocol :: string
  nd_Server :: string
  nd_Port :: int
  nd_Params :: string
  nd_ServerParams :: string
  nd_Source :: string
  nd_ServerID :: "i64 option"
  nd_ListenPort :: int
  nd_Core :: string
  nd_ShareID :: "i64 option"
  nd_ExternalSubID :: "i64 option"
  nd_ChainFrontNodeID :: "i64 option"
  nd_Enabled :: bool
  nd_OwnerUserID :: i64
  nd_Tags :: "string list"
  nd_SortOrder :: int
  nd_Revoked :: bool
  nd_CreatedAt :: time
  nd_UpdatedAt :: time

definition NodeTransit :: string where "NodeTransit = ''transit''"
definition NodeManual :: string where "NodeManual = ''manual''"
definition NodeImported :: string where "NodeImported = ''imported''"
definition NodeDeployed :: string where "NodeDeployed = ''deployed''"
definition NodeChain :: string where "NodeChain = ''chain''"

datatype ShareStatus = ShareActive | SharePaused | ShareExhausted | ShareExpired | ShareRevoked

record ShareTarget =
  st_Network :: "NetNode option"
  st_ServerID :: i64
  st_Protocols :: "string list"
  st_QuotaBytes :: "(string \<times> i64) list"

record Share =
  sh_ID :: i64
  sh_Name :: string
  sh_UserID :: "i64 option"
  sh_Targets :: "ShareTarget list"
  sh_NodeUsage :: "i64 \<rightharpoonup> i64 \<times> i64"
  sh_ExtraNodeIDs :: "i64 list"
  sh_QuotaBytes :: i64
  sh_BillingMode :: string
  sh_ResetDay :: int
  sh_ExpiresAt :: "time option"
  sh_Status :: ShareStatus
  sh_TemplateID :: "i64 option"
  sh_ConnlogEnabled :: bool
  sh_Notes :: string
  sh_SubscriptionID :: "i64 option"
  sh_PeriodStart :: time
  sh_UsedUpload :: i64
  sh_UsedDownload :: i64
  sh_CreatedAt :: time
  sh_UpdatedAt :: time

section \<open>Quota accounting\<close>

definition BillingSum :: string where "BillingSum = ''sum''"
definition BillingDual :: string where "BillingDual = ''dual''"
definition BillingUp :: string where "BillingUp = ''up''"
definition BillingDown :: string where "BillingDown = ''down''"
definition BillingMax :: string where "BillingMax = ''max''"

lemmas billing_modes [simp] =
  BillingSum_def BillingDual_def BillingUp_def BillingDown_def BillingMax_def

definition NormalizeResetDay :: "int \<Rightarrow> int" where
  "NormalizeResetDay n = (if n \<le> 0 then 0 else if 29 \<le> n then 31 else n)"

definition NormalizeQuotaBilling :: "string \<Rightarrow> string \<times> bool" where
  "NormalizeQuotaBilling mode =
     (if mode = '''' \<or> mode = BillingSum \<or> mode = BillingDual then (BillingDual, True)
      else if mode = BillingUp \<or> mode = BillingDown \<or> mode = BillingMax then (mode, True)
      else ('''', False))"

definition Inbound :: "i64 \<Rightarrow> i64 \<Rightarrow> i64" where
  "Inbound up down = up"

definition Outbound :: "i64 \<Rightarrow> i64 \<Rightarrow> i64" where
  "Outbound up down = down"

definition Total :: "i64 \<Rightarrow> i64 \<Rightarrow> i64" where
  "Total up down = add64 up down"

definition ValidTrafficTotals :: "i64 \<Rightarrow> i64 \<Rightarrow> bool" where
  "ValidTrafficTotals inbound outbound \<longleftrightarrow>
     0 \<le> inbound \<and> 0 \<le> outbound \<and> inbound \<le> sub64 MaxInt64 outbound"

definition QuotaBilled :: "string \<Rightarrow> i64 \<Rightarrow> i64 \<Rightarrow> i64" where
  "QuotaBilled mode up down =
     (if mode = BillingUp then Inbound up down
      else if mode = BillingDown then Outbound up down
      else if mode = BillingMax then (if up > down then up else down)
      else Total up down)"

definition ServerQuotaBilled :: "string \<Rightarrow> i64 \<Rightarrow> i64 \<Rightarrow> i64" where
  "ServerQuotaBilled mode up down = QuotaBilled mode up down"

definition QuotaUserinfoDirections :: "string \<Rightarrow> i64 \<Rightarrow> i64 \<Rightarrow> i64 \<times> i64" where
  "QuotaUserinfoDirections mode inbound outbound =
     (if mode = BillingUp then (inbound, 0)
      else if mode = BillingDown then (0, outbound)
      else if mode = BillingMax then (if inbound \<ge> outbound then (inbound, 0) else (0, outbound))
      else (inbound, outbound))"

section \<open>Protocols and per-node quotas\<close>

definition DeployableProtocols :: "string list" where
  "DeployableProtocols = [''vless'', ''anytls'', ''hysteria2'', ''tuic'', ''trojan'', ''ss'',
     ''snell'', ''mieru'', ''wireguard'']"

definition CoreFor :: "string \<Rightarrow> string \<Rightarrow> string" where
  "CoreFor p mode = (if p = ''mieru'' then ''mieru'' else if p = ''snell'' then ''snell'' else ''singbox'')"

definition ProtocolAllowed :: "string \<Rightarrow> string \<Rightarrow> bool" where
  "ProtocolAllowed p mode =
     (if mode = ''lean'' \<and> (p = ''snell'' \<or> p = ''mieru'') then False
      else list_ex (\<lambda>d. d = p) DeployableProtocols)"

fun NodeQuota_loop :: "i64 \<Rightarrow> string \<Rightarrow> ShareTarget list \<Rightarrow> i64" where
  "NodeQuota_loop sid proto [] = 0"
| "NodeQuota_loop sid proto (t # ts) =
     (if st_ServerID t = sid
      then (case map_of (st_QuotaBytes t) proto of None \<Rightarrow> 0 | Some q \<Rightarrow> q)
      else NodeQuota_loop sid proto ts)"

definition NodeQuota :: "Share \<Rightarrow> Node \<Rightarrow> i64" where
  "NodeQuota s n =
     (case nd_ServerID n of None \<Rightarrow> 0
      | Some sid \<Rightarrow> NodeQuota_loop sid (nd_Protocol n) (sh_Targets s))"

definition NodeExhausted :: "Share \<Rightarrow> Node \<Rightarrow> bool" where
  "NodeExhausted s n =
     (let q = NodeQuota s n;
          u = (case sh_NodeUsage s (nd_ID n) of None \<Rightarrow> (0, 0) | Some u \<Rightarrow> u)
      in q > 0 \<and> QuotaBilled (sh_BillingMode s) (fst u) (snd u) \<ge> q)"

definition ValidateQuotaEntry :: "string list \<Rightarrow> unit \<Rightarrow> string \<times> i64 \<Rightarrow> unit res" where
  "ValidateQuotaEntry protocols u e =
     (if snd e < 0 then Inl (Err ''node quota must not be negative'')
      else if \<not> list_ex (\<lambda>p. p = fst e) protocols
      then Inl (Err ''node quota must belong to a selected protocol'')
      else Inr ())"

definition ValidateShareNodeQuotas :: "ShareTarget list \<Rightarrow> unit res" where
  "ValidateShareNodeQuotas targets =
     foldE (\<lambda>u t. foldE (ValidateQuotaEntry (st_Protocols t)) u (st_QuotaBytes t)) () targets"

section \<open>Quota arithmetic is exact\<close>

lemma ValidTrafficTotals_iff:
  assumes "in64 a" "in64 b"
  shows "ValidTrafficTotals a b \<longleftrightarrow> 0 \<le> a \<and> 0 \<le> b \<and> a + b \<le> MaxInt64"
proof (cases "0 \<le> b")
  case True
  with assms have "sub64 MaxInt64 b = MaxInt64 - b"
    by (intro sub64_nonneg_exact) (auto simp: in64_def)
  with True show ?thesis by (auto simp: ValidTrafficTotals_def)
next
  case False
  then show ?thesis by (simp add: ValidTrafficTotals_def)
qed

text \<open>The bounds a valid pair satisfies, without assuming the inputs are 64-bit values.\<close>

lemma ValidTrafficTotals_I [intro]:
  "0 \<le> a \<Longrightarrow> 0 \<le> b \<Longrightarrow> a + b \<le> MaxInt64 \<Longrightarrow> ValidTrafficTotals a b"
  by (simp add: ValidTrafficTotals_iff in64_def)

lemma ValidTrafficTotals_0 [simp]: "ValidTrafficTotals 0 0"
  by (rule ValidTrafficTotals_I) simp_all

lemma Total_exact: "0 \<le> a \<Longrightarrow> 0 \<le> b \<Longrightarrow> a + b \<le> MaxInt64 \<Longrightarrow> Total a b = a + b"
  by (simp add: Total_def int64_simps)

lemma QuotaBilled_bounds:
  assumes "0 \<le> a" "0 \<le> b" "a + b \<le> MaxInt64"
  shows "0 \<le> QuotaBilled mode a b \<and> QuotaBilled mode a b \<le> a + b"
  using assms Total_exact [OF assms] by (auto simp: QuotaBilled_def Inbound_def Outbound_def)

lemma QuotaBilled_mono:
  assumes "0 \<le> a" "a \<le> a'" "0 \<le> b" "b \<le> b'" "a' + b' \<le> MaxInt64"
  shows "QuotaBilled mode a b \<le> QuotaBilled mode a' b'"
  using assms Total_exact [of a b] Total_exact [of a' b']
  by (auto simp: QuotaBilled_def Inbound_def Outbound_def)

lemma QuotaUserinfo_total:
  assumes "0 \<le> a" "0 \<le> b" "a + b \<le> MaxInt64"
    and "QuotaUserinfoDirections mode a b = (u, d)"
  shows "0 \<le> u \<and> 0 \<le> d \<and> u + d = QuotaBilled mode a b"
  using assms Total_exact [OF assms(1,2,3)]
  by (auto simp: QuotaBilled_def QuotaUserinfoDirections_def Inbound_def Outbound_def
      split: if_splits)

lemma NormalizeQuotaBilling_keeps_billing:
  "NormalizeQuotaBilling mode = (m, True) \<Longrightarrow> QuotaBilled m up down = QuotaBilled mode up down"
  by (auto simp: NormalizeQuotaBilling_def QuotaBilled_def split: if_splits)

lemma NormalizeQuotaBilling_idem:
  "NormalizeQuotaBilling mode = (m, True) \<Longrightarrow> NormalizeQuotaBilling m = (m, True)"
  by (auto simp: NormalizeQuotaBilling_def split: if_splits)

lemma NormalizeResetDay_idem [simp]: "NormalizeResetDay (NormalizeResetDay n) = NormalizeResetDay n"
  by (simp add: NormalizeResetDay_def)

lemma NormalizeResetDay_range:
  "NormalizeResetDay n = 0 \<or> (1 \<le> NormalizeResetDay n \<and> NormalizeResetDay n \<le> 28) \<or> NormalizeResetDay n = 31"
  by (auto simp: NormalizeResetDay_def)

section \<open>Validated share targets\<close>

lemma ValidateQuotaEntry_loop:
  "foldE (ValidateQuotaEntry ps) () es = Inr () \<longleftrightarrow> (\<forall>e \<in> set es. 0 \<le> snd e \<and> fst e \<in> set ps)"
  by (induction es) (auto simp: ValidateQuotaEntry_def list_ex_iff)

lemma ValidateShareNodeQuotas_iff:
  "ValidateShareNodeQuotas ts = Inr () \<longleftrightarrow>
     (\<forall>t \<in> set ts. \<forall>e \<in> set (st_QuotaBytes t). 0 \<le> snd e \<and> fst e \<in> set (st_Protocols t))"
proof (induction ts)
  case Nil
  then show ?case by (simp add: ValidateShareNodeQuotas_def)
next
  case (Cons t ts)
  let ?r = "foldE (ValidateQuotaEntry (st_Protocols t)) () (st_QuotaBytes t)"
  have "ValidateShareNodeQuotas (t # ts) = bindR ?r (\<lambda>_. ValidateShareNodeQuotas ts)"
    by (simp add: ValidateShareNodeQuotas_def)
  then show ?case
    using Cons ValidateQuotaEntry_loop [of "st_Protocols t" "st_QuotaBytes t"]
    by (cases ?r) auto
qed

lemma NodeQuota_nonneg:
  assumes "ValidateShareNodeQuotas (sh_Targets s) = Inr ()"
  shows "0 \<le> NodeQuota s n"
proof -
  have "0 \<le> NodeQuota_loop sid p ts" if "ValidateShareNodeQuotas ts = Inr ()" for sid p ts
    using that unfolding ValidateShareNodeQuotas_iff
    by (induction ts) (force split: option.splits dest: map_of_SomeD)+
  with assms show ?thesis by (simp add: NodeQuota_def split: option.splits)
qed

end
