(* ===== verification/Proto.thy ===== *)
theory Proto
  imports Domain
begin

unbundle bit_operations_syntax

text \<open>
  The agent protocol (\<^verbatim>\<open>internal/agentproto\<close>): the reports an agent sends, and the
  validation every report passes before it is settled. Standard library parsers and
  content digests the validators call are gathered in the record \<open>env\<close>, an argument
  of the operations that use them.
\<close>

section \<open>Reports\<close>

record PortCounter =
  pc_NodeID :: i64
  pc_Source :: string
  pc_Epoch :: string
  pc_FromZero :: bool
  pc_Port :: int
  pc_Rx :: i64
  pc_Tx :: i64
  pc_RxPkts :: i64
  pc_TxPkts :: i64

record ForwardCounter =
  fc_ForwardID :: i64
  fc_Epoch :: string
  fc_Rx :: i64
  fc_Tx :: i64
  fc_RxPkts :: i64
  fc_TxPkts :: i64

record NetworkInterface =
  ni_ID :: string
  ni_Generation :: string
  ni_Name :: string
  ni_Index :: int
  ni_Kind :: string
  ni_MAC :: string
  ni_MTU :: int
  ni_Up :: bool
  ni_Carrier :: bool
  ni_ParentIndex :: int
  ni_MasterIndex :: int
  ni_Addresses :: "string list"
  ni_UsableAddresses :: "string list"
  ni_DefaultIPv4 :: bool
  ni_DefaultIPv6 :: bool
  ni_CountersValid :: bool
  ni_Rx :: i64
  ni_Tx :: i64
  ni_RateValid :: bool
  ni_RxRate :: i64
  ni_TxRate :: i64

record NetworkSnapshot =
  ns_Version :: int
  ns_CollectorID :: string
  ns_BootID :: string
  ns_Sequence :: i64
  ns_SampledAt :: time
  ns_Status :: string
  ns_Error :: string
  ns_Interfaces :: "NetworkInterface list"

record NetworkBillingPolicy =
  bp_Revision :: i64
  bp_Mode :: string
  bp_InterfaceIDs :: "string list"

record LegacyNetworkCounters =
  lc_Epoch :: string
  lc_Rx :: i64
  lc_Tx :: i64

record NetworkBillingSwitch =
  sw_ID :: string
  sw_PreviousRevision :: i64
  sw_Next :: NetworkBillingPolicy
  sw_TS :: time
  sw_Legacy :: LegacyNetworkCounters
  sw_Snapshot :: "NetworkSnapshot option"

record MeterSettlement =
  ms_ID :: string
  ms_TS :: time
  ms_Counters :: "PortCounter list"

record ForwardReceipt =
  fr_ID :: string
  fr_Revision :: i64
  fr_Hash :: string
  fr_TS :: time
  fr_Counters :: "ForwardCounter list"

record NodeApplication =
  na_NodeID :: i64
  na_Core :: string
  na_Status :: string

text \<open>
  \<^verbatim>\<open>net.ParseMAC\<close> and \<^verbatim>\<open>netip.ParsePrefix\<close> (do they accept the text), and the SHA-256
  digests of the JSON encodings of a settlement (its ID left out), a receipt and a
  billing switch.
\<close>

record env =
  parseMAC :: "string \<Rightarrow> bool"
  parsePrefix :: "string \<Rightarrow> bool"
  digestSettlement :: "i64 \<Rightarrow> PortCounter list \<Rightarrow> string"
  digestReceipt :: "ForwardReceipt \<Rightarrow> string"
  digestSwitch :: "NetworkBillingSwitch \<Rightarrow> string"

section \<open>Accounting marks\<close>

definition NodeMarkMask :: "32 word" where "NodeMarkMask = 0xff000000"
definition NodeMarkPrefix :: "32 word" where "NodeMarkPrefix = 0x43000000"
definition BootstrapMarkPrefix :: "32 word" where "BootstrapMarkPrefix = 0x44000000"
definition ForwardMarkPrefix :: "32 word" where "ForwardMarkPrefix = 0x45000000"
definition ForwardBootstrapMarkPrefix :: "32 word" where "ForwardBootstrapMarkPrefix = 0x46000000"

lemmas mark_prefixes =
  NodeMarkMask_def NodeMarkPrefix_def BootstrapMarkPrefix_def ForwardMarkPrefix_def
  ForwardBootstrapMarkPrefix_def

definition ResourceMark :: "string \<Rightarrow> i64 \<Rightarrow> (32 word) res" where
  "ResourceMark kind rid =
     (if rid \<le> 0 \<or> rid > 0xffffff then Inl (Err ''ID outside accounting mark range'')
      else if kind = ''node'' then Inr (NodeMarkPrefix OR word_of_int rid)
      else if kind = ''forward'' then Inr (ForwardMarkPrefix OR word_of_int rid)
      else Inl (Err ''unsupported managed resource kind''))"

definition ResourceTag :: "string \<Rightarrow> i64 \<Rightarrow> string res" where
  "ResourceTag kind rid =
     bindR (ResourceMark kind rid) (\<lambda>_. Inr (kind @ ''-'' @ show_int rid))"

definition NodeMark :: "i64 \<Rightarrow> (32 word) res" where
  "NodeMark rid = ResourceMark ''node'' rid"

definition BootstrapMark :: "i64 \<Rightarrow> (32 word) res" where
  "BootstrapMark rid = bindR (NodeMark rid) (\<lambda>_. Inr (BootstrapMarkPrefix OR word_of_int rid))"

definition ForwardBootstrapMark :: "i64 \<Rightarrow> (32 word) res" where
  "ForwardBootstrapMark rid =
     bindR (ResourceMark ''forward'' rid) (\<lambda>_. Inr (ForwardBootstrapMarkPrefix OR word_of_int rid))"

section \<open>Validation of counters and settlements\<close>

abbreviation maxCounter :: i64 where
  "maxCounter \<equiv> 2305843009213693951"

definition ActiveForwards :: nat where "ActiveForwards = 128"

definition ForwardCounter_ValidateValues :: "ForwardCounter \<Rightarrow> unit res" where
  "ForwardCounter_ValidateValues c =
     bindR (ResourceMark ''forward'' (fc_ForwardID c)) (\<lambda>_.
       if list_ex (\<lambda>v. v < 0 \<or> v > maxCounter) [fc_Rx c, fc_Tx c, fc_RxPkts c, fc_TxPkts c]
       then Inl (Err ''forward counter out of range'') else Inr ())"

definition printable :: "char \<Rightarrow> bool" where
  "printable c = (let n = of_char c :: nat in \<not> (n < 33 \<or> n > 126))"

definition ValidateForwardCounter :: "i64 set \<Rightarrow> ForwardCounter \<Rightarrow> i64 set res" where
  "ValidateForwardCounter seen c =
     bindR (ForwardCounter_ValidateValues c) (\<lambda>_.
       if fc_ForwardID c \<in> seen \<or> fc_Epoch c = '''' \<or> length (fc_Epoch c) > 128 \<or>
          \<not> list_all printable (fc_Epoch c)
       then Inl (Err ''invalid forward meter identity or epoch'')
       else Inr (insert (fc_ForwardID c) seen))"

definition ValidateForwardCounters :: "ForwardCounter list \<Rightarrow> unit res" where
  "ValidateForwardCounters counters =
     (if length counters > 2 * ActiveForwards
      then Inl (Err ''forward meter records exceed budget'')
      else bindR (foldE ValidateForwardCounter {} counters) (\<lambda>_. Inr ()))"

definition networkIdentity :: "string \<Rightarrow> bool" where
  "networkIdentity s \<longleftrightarrow> length s = 32 \<and> list_all isHexLower s"

definition hexDecodedLen :: "string \<Rightarrow> nat option" where
  "hexDecodedLen s = (if even (length s) \<and> list_all isHex s then Some (length s div 2) else None)"

definition ForwardReceipt_Validate :: "ForwardReceipt \<Rightarrow> unit res" where
  "ForwardReceipt_Validate r =
     (if \<not> networkIdentity (fr_ID r) \<or> fr_Revision r < 1 \<or> fr_Revision r > 9007199254740991 \<or>
         hexDecodedLen (fr_Hash r) \<noteq> Some 32 \<or> IsZero (fr_TS r)
      then Inl (Err ''invalid forward receipt identity'')
      else ValidateForwardCounters (fr_Counters r))"

definition SettlementBatchSize :: nat where "SettlementBatchSize = 128"

definition ValidateFinalReading :: "i64 set \<Rightarrow> PortCounter \<Rightarrow> i64 set res" where
  "ValidateFinalReading seen c =
     (if pc_NodeID c \<le> 0 \<or> pc_NodeID c \<in> seen \<or> \<not> pc_FromZero c \<or>
         (pc_Source c \<noteq> ''openrc-cgroup-v1'' \<and> pc_Source c \<noteq> ''nft-node-v1'' \<and>
          pc_Source c \<noteq> ''systemd-v1'') \<or>
         length (pc_Epoch c) = 0 \<or> length (pc_Epoch c) > 128 \<or> pc_Rx c < 0 \<or> pc_Tx c < 0 \<or>
         pc_Rx c > maxCounter \<or> pc_Tx c > maxCounter
      then Inl (Err ''invalid final meter reading'')
      else Inr (insert (pc_NodeID c) seen))"

definition MeterSettlement_Validate :: "env \<Rightarrow> MeterSettlement \<Rightarrow> unit res" where
  "MeterSettlement_Validate E s =
     (if IsZero (ms_TS s) \<or> length (ms_Counters s) = 0 \<or>
         length (ms_Counters s) > SettlementBatchSize \<or> length (ms_ID s) \<noteq> 64 \<or>
         ms_ID s \<noteq> digestSettlement E (ms_TS s) (ms_Counters s)
      then Inl (Err ''invalid final meter batch'')
      else bindR (foldE ValidateFinalReading {} (ms_Counters s)) (\<lambda>_. Inr ()))"

definition ValidateNodeApplication :: "i64 set \<Rightarrow> NodeApplication \<Rightarrow> i64 set res" where
  "ValidateNodeApplication seen item =
     (if na_NodeID item \<le> 0 \<or> na_NodeID item > 9007199254740992 \<or> na_NodeID item \<in> seen \<or>
         (na_Core item \<noteq> ''singbox'' \<and> na_Core item \<noteq> ''snell'' \<and> na_Core item \<noteq> ''mieru'') \<or>
         (na_Status item \<noteq> ''applied'' \<and> na_Status item \<noteq> ''blocked'' \<and> na_Status item \<noteq> ''failed'')
      then Inl (Err ''invalid node application receipt'')
      else Inr (insert (na_NodeID item) seen))"

definition ValidateNodeApplications :: "NodeApplication list \<Rightarrow> unit res" where
  "ValidateNodeApplications items =
     (if length items > 4096 then Inl (Err ''too many node application receipts'')
      else bindR (foldE ValidateNodeApplication {} items) (\<lambda>_. Inr ()))"

section \<open>Network snapshots and billing policies\<close>

definition NetworkVersion :: int where "NetworkVersion = 1"
definition MaxNetworkInterfaces :: nat where "MaxNetworkInterfaces = 128"
definition MaxInterfaceAddresses :: nat where "MaxInterfaceAddresses = 32"

definition ValidateInterface ::
  "env \<Rightarrow> string set \<times> int set \<Rightarrow> NetworkInterface \<Rightarrow> (string set \<times> int set) res" where
  "ValidateInterface E st n =
     (case st of (ids, indexes) \<Rightarrow>
      if \<not> networkIdentity (ni_ID n) \<or> \<not> networkIdentity (ni_Generation n) \<or> ni_ID n \<in> ids \<or>
         ni_Index n \<le> 0 \<or> ni_Index n \<in> indexes \<or> ni_ParentIndex n < 0 \<or> ni_MasterIndex n < 0 \<or>
         ni_MTU n < 0 \<or> ni_MTU n > 16777216
      then Inl (Err ''invalid interface identity or parameters'')
      else if ni_Name n = '''' \<or> length (ni_Name n) > 15 \<or>
         ContainsAny (ni_Name n) (''/: '' @ [char_of (0::nat), char_of (13::nat), char_of (10::nat), char_of (9::nat)]) \<or>
         ni_Kind n = '''' \<or> length (ni_Kind n) > 32 \<or>
         ContainsAny (ni_Kind n) [char_of (0::nat), char_of (13::nat), char_of (10::nat)] \<or>
         length (ni_Addresses n) > MaxInterfaceAddresses \<or>
         length (ni_UsableAddresses n) > MaxInterfaceAddresses
      then Inl (Err ''invalid interface name or address count'')
      else if ni_MAC n \<noteq> '''' \<and> \<not> parseMAC E (ni_MAC n)
      then Inl (Err ''invalid interface hardware address'')
      else if \<not> list_all (parsePrefix E) (ni_Addresses n)
      then Inl (Err ''invalid interface address'')
      else if \<not> list_all (\<lambda>raw. raw \<in> set (ni_Addresses n)) (ni_UsableAddresses n)
      then Inl (Err ''usable address not in the interface address list'')
      else if list_ex (\<lambda>count. count < 0 \<or> count > maxCounter)
                [ni_Rx n, ni_Tx n, ni_RxRate n, ni_TxRate n]
      then Inl (Err ''interface counter out of range'')
      else if (\<not> ni_CountersValid n \<and> (ni_Rx n \<noteq> 0 \<or> ni_Tx n \<noteq> 0 \<or> ni_RateValid n)) \<or>
              (\<not> ni_RateValid n \<and> (ni_RxRate n \<noteq> 0 \<or> ni_TxRate n \<noteq> 0))
      then Inl (Err ''invalid interface counter state'')
      else Inr (insert (ni_ID n) ids, insert (ni_Index n) indexes))"

definition ValidateNetwork :: "env \<Rightarrow> NetworkSnapshot option \<Rightarrow> unit res" where
  "ValidateNetwork E so =
     (case so of None \<Rightarrow> Inr () | Some s \<Rightarrow>
      if ns_Version s \<noteq> NetworkVersion \<or> length (ns_Interfaces s) > MaxNetworkInterfaces \<or>
         IsZero (ns_SampledAt s) \<or> length (ns_BootID s) > 128 \<or> length (ns_Error s) > 512 \<or>
         ns_Sequence s < 0 \<or> ns_Sequence s > 9007199254740992
      then Inl (Err ''invalid network snapshot format or size'')
      else
        bindR
          (if ns_Status s = ''ok'' \<or> ns_Status s = ''incomplete'' then
             (if \<not> networkIdentity (ns_CollectorID s) \<or> ns_BootID s = '''' \<or> ns_Sequence s = 0
              then Inl (Err ''network snapshot lacks a generation'') else Inr ())
           else if ns_Status s = ''error'' \<or> ns_Status s = ''unsupported'' then
             (if length (ns_Interfaces s) \<noteq> 0
              then Inl (Err ''failed snapshot must not contain counters'') else Inr ())
           else Inl (Err ''invalid network collection status''))
          (\<lambda>_. bindR (foldE (ValidateInterface E) ({}, {}) (ns_Interfaces s)) (\<lambda>_. Inr ())))"

definition LegacyNetworkBilling :: NetworkBillingPolicy where
  "LegacyNetworkBilling = \<lparr>bp_Revision = 0, bp_Mode = ''legacy'', bp_InterfaceIDs = []\<rparr>"

definition ValidatePolicyInterface :: "string set \<Rightarrow> string \<Rightarrow> string set res" where
  "ValidatePolicyInterface seen iid =
     (if \<not> networkIdentity iid \<or> iid \<in> seen
      then Inl (Err ''billing interface identity invalid or repeated'')
      else Inr (insert iid seen))"

definition NetworkBillingPolicy_Validate :: "NetworkBillingPolicy \<Rightarrow> unit res" where
  "NetworkBillingPolicy_Validate p =
     (if bp_Revision p < 0 \<or> bp_Revision p > 9007199254740992 \<or>
         (bp_Mode p \<noteq> ''legacy'' \<and> bp_Mode p \<noteq> ''interfaces'')
      then Inl (Err ''invalid billing policy'')
      else if (bp_Mode p = ''legacy'' \<and> length (bp_InterfaceIDs p) \<noteq> 0) \<or>
              (bp_Mode p = ''interfaces'' \<and>
               (length (bp_InterfaceIDs p) = 0 \<or> length (bp_InterfaceIDs p) > 16))
      then Inl (Err ''select 1 to 16 billing interfaces'')
      else bindR (foldE ValidatePolicyInterface {} (bp_InterfaceIDs p)) (\<lambda>_. Inr ()))"

definition NetworkBillingPolicy_Equal :: "NetworkBillingPolicy \<Rightarrow> NetworkBillingPolicy \<Rightarrow> bool" where
  "NetworkBillingPolicy_Equal p q \<longleftrightarrow>
     bp_Revision p = bp_Revision q \<and> bp_Mode p = bp_Mode q \<and> bp_InterfaceIDs p = bp_InterfaceIDs q"

definition LegacyNetworkCounters_Validate :: "LegacyNetworkCounters \<Rightarrow> unit res" where
  "LegacyNetworkCounters_Validate p =
     (if lc_Epoch p = '''' \<or> length (lc_Epoch p) > 256 \<or> lc_Rx p < 0 \<or> lc_Tx p < 0 \<or>
         lc_Rx p > maxCounter \<or> lc_Tx p > maxCounter
      then Inl (Err ''invalid legacy billing source'') else Inr ())"

end
