(* ===== verification/Topology.thy ===== *)
theory Topology
  imports Proto
begin

text \<open>
  Selection of billing interfaces (\<^verbatim>\<open>network_topology.go\<close>, \<^verbatim>\<open>network_billing.go\<close> of
  \<^verbatim>\<open>internal/agentproto\<close>). The work-list search for an ancestor that is also selected
  terminates and decides exactly whether one billed interface lies above another.
\<close>

definition tunnelKinds :: "string list" where
  "tunnelKinds = [''wireguard'', ''tun'', ''ipip'', ''gre'', ''gretap'', ''sit'', ''vxlan'', ''ip6tnl'']"

definition selectInterface ::
  "NetworkInterface list \<Rightarrow> nat \<Rightarrow> int list \<Rightarrow> string \<Rightarrow> int list res" where
  "selectInterface ifs count selected iid =
     (case lastBy ni_ID ifs iid of None \<Rightarrow> Inr selected
      | Some n \<Rightarrow>
          if ni_Kind n = ''loopback''
          then Inl (Err ''loopback interfaces cannot be billed'')
          else if count > 1 \<and> ni_Kind n \<in> set tunnelKinds
          then Inl (Err ''tunnel and carrier interfaces may count twice'')
          else Inr (List.insert (ni_Index n) selected))"

definition uplinks :: "NetworkInterface list \<Rightarrow> int \<Rightarrow> int list" where
  "uplinks ifs i =
     (case lastBy ni_Index ifs i of None \<Rightarrow> [] | Some n \<Rightarrow> [ni_ParentIndex n, ni_MasterIndex n])"

text \<open>The inner loop: \<open>True\<close> when the search meets a selected interface.\<close>

function ancestorSelected ::
  "NetworkInterface list \<Rightarrow> int list \<Rightarrow> int list \<Rightarrow> int list \<Rightarrow> bool" where
  "ancestorSelected ifs selected seen [] = False"
| "ancestorSelected ifs selected seen (p # queue) =
     (if p = 0 \<or> p \<in> set seen then ancestorSelected ifs selected seen queue
      else if p \<in> set selected then True
      else ancestorSelected ifs selected (p # seen) (queue @ uplinks ifs p))"
  by pat_completeness auto

definition unseen :: "NetworkInterface list \<Rightarrow> int list \<Rightarrow> int set" where
  "unseen ifs seen = ni_Index ` set ifs - set seen"

lemma unseen_visit:
  "p \<notin> set seen \<Longrightarrow> 2 * card (unseen ifs (p # seen)) + length (uplinks ifs p) \<le> 2 * card (unseen ifs seen)"
proof (cases "p \<in> ni_Index ` set ifs")
  case True
  assume "p \<notin> set seen"
  with True have "unseen ifs seen = insert p (unseen ifs (p # seen))" by (auto simp: unseen_def)
  moreover have "p \<notin> unseen ifs (p # seen)" "finite (unseen ifs (p # seen))"
    by (simp_all add: unseen_def)
  ultimately have "card (unseen ifs seen) = Suc (card (unseen ifs (p # seen)))" by simp
  moreover have "length (uplinks ifs p) \<le> 2" by (simp add: uplinks_def split: option.splits)
  ultimately show ?thesis by simp
next
  case False
  then have "unseen ifs (p # seen) = unseen ifs seen" by (auto simp: unseen_def)
  moreover have "uplinks ifs p = []" using False by (simp add: uplinks_def lastBy_None_iff [THEN iffD2])
  ultimately show ?thesis by simp
qed

termination ancestorSelected
proof (relation "measure (\<lambda>(ifs, selected, seen, queue). 2 * card (unseen ifs seen) + length queue)",
    goal_cases)
  case 1
  show ?case by simp
next
  case (2 ifs selected seen p queue)
  then show ?case by simp
next
  case (3 ifs selected seen p queue)
  then show ?case using unseen_visit [of p seen ifs] by simp
qed

definition ValidateBillingTopology ::
  "NetworkSnapshot option \<Rightarrow> NetworkBillingPolicy \<Rightarrow> unit res" where
  "ValidateBillingTopology snapshot policy =
     (case snapshot of None \<Rightarrow> Inr ()
      | Some s \<Rightarrow>
        if bp_Mode policy \<noteq> ''interfaces'' then Inr ()
        else
          let ifs = ns_Interfaces s; ids = bp_InterfaceIDs policy
          in bindR (foldE (selectInterface ifs (length ids)) [] ids) (\<lambda>selected.
               if list_ex (\<lambda>i. ancestorSelected ifs selected [i] (uplinks ifs i)) selected
               then Inl (Err ''selected interfaces are above one another'')
               else Inr ()))"

definition ValidateBillingSelection ::
  "NetworkSnapshot option \<Rightarrow> NetworkBillingPolicy \<Rightarrow> unit res" where
  "ValidateBillingSelection snapshot policy =
     bindR (NetworkBillingPolicy_Validate policy) (\<lambda>_.
       if bp_Mode policy = ''legacy'' then Inr ()
       else case snapshot of
         None \<Rightarrow> Inl (Err ''a complete collection is needed to select interfaces'')
       | Some s \<Rightarrow>
           if ns_Status s \<noteq> ''ok''
           then Inl (Err ''a complete collection is needed to select interfaces'')
           else if \<not> list_all (\<lambda>iid. list_ex (\<lambda>n. ni_ID n = iid \<and> ni_CountersValid n) (ns_Interfaces s))
                      (bp_InterfaceIDs policy)
           then Inl (Err ''selected interface missing or its counters unusable'')
           else ValidateBillingTopology snapshot policy)"

definition NetworkBillingSwitch_Validate :: "env \<Rightarrow> NetworkBillingSwitch \<Rightarrow> unit res" where
  "NetworkBillingSwitch_Validate E p =
     (if \<not> networkIdentity (sw_ID p) \<or> IsZero (sw_TS p) \<or> sw_PreviousRevision p < 0 \<or>
         bp_Revision (sw_Next p) \<le> sw_PreviousRevision p \<or>
         \<not> isOk (NetworkBillingPolicy_Validate (sw_Next p))
      then Inl (Err ''invalid billing switch'')
      else if (case sw_Snapshot p of None \<Rightarrow> True
               | Some s \<Rightarrow> ns_Status s \<noteq> ''ok'' \<and> ns_Status s \<noteq> ''incomplete'') \<or>
              \<not> isOk (ValidateNetwork E (sw_Snapshot p))
      then Inl (Err ''billing switch lacks a valid snapshot'')
      else bindR (LegacyNetworkCounters_Validate (sw_Legacy p))
             (\<lambda>_. ValidateBillingSelection (sw_Snapshot p) (sw_Next p)))"

section \<open>The search decides reachability\<close>

definition above :: "NetworkInterface list \<Rightarrow> int \<Rightarrow> int \<Rightarrow> bool" where
  "above ifs i j \<longleftrightarrow> j \<in> set (uplinks ifs i) \<and> j \<noteq> 0"

lemma ancestorSelected_sound:
  "ancestorSelected ifs selected seen queue \<Longrightarrow>
   \<exists>p \<in> set selected. p \<notin> set seen \<and> (\<exists>x \<in> set queue. x \<noteq> 0 \<and> (above ifs)\<^sup>*\<^sup>* x p)"
proof (induction ifs selected seen queue rule: ancestorSelected.induct)
  case (1 ifs selected seen)
  then show ?case by simp
next
  case (2 ifs selected seen p queue)
  consider (skip) "p = 0 \<or> p \<in> set seen" | (hit) "p \<noteq> 0" "p \<notin> set seen" "p \<in> set selected"
    | (visit) "p \<noteq> 0" "p \<notin> set seen" "p \<notin> set selected" by blast
  then show ?case
  proof cases
    case skip
    with 2 show ?thesis by auto
  next
    case hit
    then show ?thesis by auto
  next
    case visit
    with 2 obtain r x where r: "r \<in> set selected" "r \<notin> set (p # seen)"
      and x: "x \<in> set queue \<union> set (uplinks ifs p)" "x \<noteq> 0" "(above ifs)\<^sup>*\<^sup>* x r"
      by auto
    have "\<exists>y \<in> set (p # queue). y \<noteq> 0 \<and> (above ifs)\<^sup>*\<^sup>* y r"
    proof (cases "x \<in> set queue")
      case False
      with x have "above ifs p x" by (simp add: above_def)
      with x have "(above ifs)\<^sup>*\<^sup>* p r" by (meson converse_rtranclp_into_rtranclp)
      with visit show ?thesis by auto
    qed (use x in auto)
    with r show ?thesis by auto
  qed
qed

text \<open>A search that finds nothing has closed its visited set under the links upward.\<close>

lemma ancestorSelected_complete:
  "\<not> ancestorSelected ifs selected seen queue \<Longrightarrow>
   (\<forall>s \<in> set seen. \<forall>j. above ifs s j \<longrightarrow> j \<in> set seen \<union> set queue) \<Longrightarrow>
   \<exists>C. set seen \<subseteq> C \<and> set queue - {0} \<subseteq> C \<and> (\<forall>s \<in> C. \<forall>j. above ifs s j \<longrightarrow> j \<in> C) \<and>
     (C - set seen) \<inter> set selected = {}"
proof (induction ifs selected seen queue rule: ancestorSelected.induct)
  case (1 ifs selected seen)
  then show ?case by (intro exI [of _ "set seen"]) auto
next
  case (2 ifs selected seen p queue)
  consider (skip) "p = 0 \<or> p \<in> set seen" | (hit) "p \<noteq> 0" "p \<notin> set seen" "p \<in> set selected"
    | (visit) "p \<noteq> 0" "p \<notin> set seen" "p \<notin> set selected" by blast
  then show ?case
  proof cases
    case skip
    then have n: "\<not> ancestorSelected ifs selected seen queue" using 2(3) by simp
    have "\<forall>s \<in> set seen. \<forall>j. above ifs s j \<longrightarrow> j \<in> set seen \<union> set queue"
      using skip 2(4) by (auto simp: above_def)
    from 2(1) [OF skip n this] show ?thesis using skip by auto
  next
    case hit
    with 2(3) show ?thesis by simp
  next
    case visit
    then have n: "\<not> ancestorSelected ifs selected (p # seen) (queue @ uplinks ifs p)"
      using 2(3) by simp
    have "\<forall>s \<in> set (p # seen). \<forall>j. above ifs s j \<longrightarrow> j \<in> set (p # seen) \<union> set (queue @ uplinks ifs p)"
      using 2(4) by (auto simp: above_def)
    from 2(2) [OF _ _ n this] visit obtain C where
      "set (p # seen) \<subseteq> C" "set (queue @ uplinks ifs p) - {0} \<subseteq> C"
      "\<forall>s \<in> C. \<forall>j. above ifs s j \<longrightarrow> j \<in> C" "(C - set (p # seen)) \<inter> set selected = {}"
      by auto
    with visit show ?thesis by (intro exI [of _ C]) auto
  qed
qed

lemma ancestorSelected_iff:
  "ancestorSelected ifs selected [i] (uplinks ifs i) \<longleftrightarrow>
     (\<exists>j \<in> set selected. j \<noteq> i \<and> (above ifs)\<^sup>+\<^sup>+ i j)"
proof
  assume "ancestorSelected ifs selected [i] (uplinks ifs i)"
  from ancestorSelected_sound [OF this] obtain p x where
    "p \<in> set selected" "p \<noteq> i" "x \<in> set (uplinks ifs i)" "x \<noteq> 0" "(above ifs)\<^sup>*\<^sup>* x p" by auto
  then show "\<exists>j \<in> set selected. j \<noteq> i \<and> (above ifs)\<^sup>+\<^sup>+ i j"
    by (meson above_def rtranclp_into_tranclp2)
next
  assume "\<exists>j \<in> set selected. j \<noteq> i \<and> (above ifs)\<^sup>+\<^sup>+ i j"
  then obtain j where j: "j \<in> set selected" "j \<noteq> i" "(above ifs)\<^sup>+\<^sup>+ i j" by blast
  show "ancestorSelected ifs selected [i] (uplinks ifs i)"
  proof (rule ccontr)
    assume "\<not> ancestorSelected ifs selected [i] (uplinks ifs i)"
    from ancestorSelected_complete [OF this] obtain C where
      C: "i \<in> C" "\<forall>s \<in> C. \<forall>j. above ifs s j \<longrightarrow> j \<in> C" "(C - {i}) \<inter> set selected = {}"
      by (auto simp: above_def)
    from j(3) have "j \<in> C" using C(1,2) by (induction rule: tranclp_induct) auto
    with C(3) j show False by auto
  qed
qed

section \<open>What an accepted selection guarantees\<close>

definition chosen :: "NetworkInterface list \<Rightarrow> string list \<Rightarrow> NetworkInterface set" where
  "chosen ifs ids = {n. \<exists>iid \<in> set ids. lastBy ni_ID ifs iid = Some n}"

lemma chosen_Cons:
  "chosen ifs (i # is) = set_option (lastBy ni_ID ifs i) \<union> chosen ifs is"
  by (auto simp: chosen_def)

lemma select_loop:
  "foldE (selectInterface ifs c) sel ids = Inr sel' \<longleftrightarrow>
     (\<forall>n \<in> chosen ifs ids. ni_Kind n \<noteq> ''loopback'' \<and> \<not> (c > 1 \<and> ni_Kind n \<in> set tunnelKinds)) \<and>
     foldE (selectInterface ifs c) sel ids = Inr sel'"
proof (induction ids arbitrary: sel)
  case Nil
  then show ?case by (simp add: chosen_def)
next
  case (Cons i ids)
  show ?case
  proof (cases "lastBy ni_ID ifs i")
    case None
    then show ?thesis using Cons by (simp add: selectInterface_def chosen_Cons)
  next
    case (Some n)
    then show ?thesis using Cons by (auto simp: selectInterface_def chosen_Cons)
  qed
qed

lemma select_loop_set:
  "foldE (selectInterface ifs c) sel ids = Inr sel' \<Longrightarrow> set sel' = set sel \<union> ni_Index ` chosen ifs ids"
proof (induction ids arbitrary: sel)
  case Nil
  then show ?case by (simp add: chosen_def)
next
  case (Cons i ids)
  show ?case
  proof (cases "lastBy ni_ID ifs i")
    case None
    then show ?thesis using Cons by (simp add: selectInterface_def chosen_Cons)
  next
    case (Some n)
    then show ?thesis using Cons
      by (force simp: selectInterface_def chosen_Cons set_insert split: if_splits)
  qed
qed

lemma select_loop_ok:
  assumes "\<forall>n \<in> chosen ifs ids. ni_Kind n \<noteq> ''loopback'' \<and> \<not> (c > 1 \<and> ni_Kind n \<in> set tunnelKinds)"
  shows "\<exists>sel'. foldE (selectInterface ifs c) sel ids = Inr sel'"
  using assms
proof (induction ids arbitrary: sel)
  case Nil
  then show ?case by simp
next
  case (Cons i ids)
  then show ?case by (cases "lastBy ni_ID ifs i") (auto simp: selectInterface_def chosen_Cons)
qed

lemma ValidateBillingTopology_iff:
  assumes "bp_Mode p = ''interfaces''"
  shows "ValidateBillingTopology (Some s) p = Inr () \<longleftrightarrow>
    (\<forall>n \<in> chosen (ns_Interfaces s) (bp_InterfaceIDs p).
       ni_Kind n \<noteq> ''loopback'' \<and>
       \<not> (length (bp_InterfaceIDs p) > 1 \<and> ni_Kind n \<in> set tunnelKinds)) \<and>
    (\<forall>i \<in> ni_Index ` chosen (ns_Interfaces s) (bp_InterfaceIDs p).
       \<forall>j \<in> ni_Index ` chosen (ns_Interfaces s) (bp_InterfaceIDs p).
         j \<noteq> i \<longrightarrow> \<not> (above (ns_Interfaces s))\<^sup>+\<^sup>+ i j)"
    (is "?lhs \<longleftrightarrow> ?kinds \<and> ?anc")
proof -
  let ?ids = "bp_InterfaceIDs p" and ?ifs = "ns_Interfaces s"
  let ?loop = "foldE (selectInterface ?ifs (length ?ids)) [] ?ids"
  have rest: "?lhs \<longleftrightarrow> ?anc" if l: "?loop = Inr sel" for sel
  proof -
    have "set sel = ni_Index ` chosen ?ifs ?ids" using select_loop_set [OF l] by simp
    then show ?thesis
      using assms l by (auto simp: ValidateBillingTopology_def Let_def list_ex_iff ancestorSelected_iff)
  qed
  show ?thesis
  proof (cases ?kinds)
    case True
    then obtain sel where "?loop = Inr sel" using select_loop_ok by blast
    then show ?thesis using rest True by blast
  next
    case False
    have "?loop \<noteq> Inr sel" for sel using False select_loop by metis
    then have "\<not> ?lhs"
      using assms by (auto simp: ValidateBillingTopology_def Let_def bindR_eq_Inr)
    with False show ?thesis by blast
  qed
qed

section \<open>Marks\<close>

text \<open>
  A mark carries its family in the top byte and the resource ID below it, so marks of
  different families or different resources never coincide.
\<close>

datatype mark_family = FamNode | FamBootstrap | FamForward | FamForwardBootstrap

fun markOf :: "mark_family \<Rightarrow> i64 \<Rightarrow> (32 word) res" where
  "markOf FamNode i = NodeMark i"
| "markOf FamBootstrap i = BootstrapMark i"
| "markOf FamForward i = ResourceMark ''forward'' i"
| "markOf FamForwardBootstrap i = ForwardBootstrapMark i"

fun familyByte :: "mark_family \<Rightarrow> 32 word" where
  "familyByte FamNode = 0x43"
| "familyByte FamBootstrap = 0x44"
| "familyByte FamForward = 0x45"
| "familyByte FamForwardBootstrap = 0x46"

lemma id_bits:
  assumes "0 \<le> i" "i < 2 ^ 24"
  shows "take_bit 24 (word_of_int i :: 32 word) = word_of_int i"
    and "drop_bit 24 (word_of_int i :: 32 word) = 0"
proof -
  have i: "take_bit 24 i = i" using assms by (simp add: take_bit_int_eq_self)
  have b: "bit i n \<Longrightarrow> n < 24" for n using bit_take_bit_iff [of 24 i n] i by simp
  show "take_bit 24 (word_of_int i :: 32 word) = word_of_int i"
    by (rule bit_word_eqI) (auto simp: bit_take_bit_iff bit_simps dest: b)
  show "drop_bit 24 (word_of_int i :: 32 word) = 0"
    by (rule bit_word_eqI) (auto simp: bit_simps dest: b)
qed

lemma markOf_Inr:
  assumes "markOf f i = Inr m"
  shows "0 < i \<and> i \<le> 0xffffff \<and> drop_bit 24 m = familyByte f \<and> take_bit 24 m = word_of_int i"
proof -
  obtain pre :: "32 word" where m: "m = pre OR word_of_int i" and i: "0 < i" "i \<le> 0xffffff"
    and p: "drop_bit 24 pre = familyByte f" "take_bit 24 pre = 0"
    using assms
    by (cases f) (auto simp: NodeMark_def BootstrapMark_def ForwardBootstrapMark_def
        ResourceMark_def mark_prefixes bindR_eq_Inr split: if_splits)
  then show ?thesis using id_bits [of i] by simp
qed

lemma markOf_inject:
  assumes "markOf f i = Inr m" "markOf g j = Inr m"
  shows "f = g \<and> i = j"
proof -
  note fi = markOf_Inr [OF assms(1)] and gj = markOf_Inr [OF assms(2)]
  have "familyByte f = familyByte g" using fi gj by simp
  then have "f = g" by (cases f; cases g) simp_all
  moreover have "uint (word_of_int i :: 32 word) = uint (word_of_int j :: 32 word)"
    using fi gj by simp
  then have "i = j" using fi gj by (simp add: uint_word_of_int take_bit_int_eq_self)
  ultimately show ?thesis by simp
qed

lemma markOf_mask:
  assumes "markOf f i = Inr m"
  shows "drop_bit 24 (m AND NodeMarkMask) = familyByte f"
proof -
  have "drop_bit 24 (NodeMarkMask :: 32 word) = 0xff" by (simp add: NodeMarkMask_def)
  then show ?thesis using markOf_Inr [OF assms] by (cases f) simp_all
qed

end
