(* ===== verification/NatConfig.thy ===== *)
theory NatConfig
  imports Prelude
begin

text \<open>
  Port mappings of a NAT server (\<^verbatim>\<open>internal/natconfig/config.go\<close>, \<^verbatim>\<open>ports.go\<close>): validation and
  expansion into single port pairs, normalisation, the pools of usable ports and the
  lookup by binary search, as package sort does it. \<^verbatim>\<open>netip.ParseAddr\<close> is modelled for the
  dotted-quad form, the only one the configuration accepts.
\<close>

section \<open>Configurations\<close>

record NatMapping =
  nm_PublicPort :: int
  nm_LocalPort :: int
  nm_Count :: int
  nm_Network :: string

record NatConfig =
  nat_Schema :: int
  nat_Interface :: string
  nat_LocalAddress :: string
  nat_Mappings :: "NatMapping list"

record PortMapping =
  pm_PublicPort :: int
  pm_LocalPort :: int
  pm_Network :: string

definition MaxPortPairs :: int where "MaxPortPairs = 4096"

definition NormalizeMapping :: "NatMapping \<Rightarrow> NatMapping" where
  "NormalizeMapping m =
     m\<lparr>nm_Count := (if nm_Count m = 0 then 1 else nm_Count m),
       nm_Network := (if nm_Network m = '''' then ''both'' else nm_Network m)\<rparr>"

definition Normalized :: "NatConfig \<Rightarrow> NatConfig" where
  "Normalized c = c\<lparr>nat_Mappings := map NormalizeMapping (nat_Mappings c)\<rparr>"

definition interfaceChar :: "char \<Rightarrow> bool" where
  "interfaceChar c = (c \<in> set ''abcdefghijklmnopqrstuvwxyzABCDEFGHIJKLMNOPQRSTUVWXYZ0123456789_.-'')"

definition validInterface :: "string \<Rightarrow> bool" where
  "validInterface name =
     (if name = [] \<or> length name > 15 \<or> name = ''.'' \<or> name = ''..'' then False
      else list_all interfaceChar name)"

section \<open>Addresses\<close>

fun splitDots :: "string \<Rightarrow> string list" where
  "splitDots [] = [[]]"
| "splitDots (c # s) =
     (if c = CHR ''.'' then [] # splitDots s
      else case splitDots s of [] \<Rightarrow> [[c]] | f # fs \<Rightarrow> (c # f) # fs)"

definition octet :: "string \<Rightarrow> nat option" where
  "octet s =
     (if s = [] \<or> \<not> list_all is_digit s \<or> (length s > 1 \<and> hd s = CHR ''0'') \<or> digits_value 0 s > 255
      then None else Some (digits_value 0 s))"

definition ParseIPv4 :: "string \<Rightarrow> (nat \<times> nat \<times> nat \<times> nat) option" where
  "ParseIPv4 s =
     (case map octet (splitDots s) of
        [Some a, Some b, Some c, Some d] \<Rightarrow> Some (a, b, c, d) | _ \<Rightarrow> None)"

text \<open>Not unspecified, multicast, loopback or broadcast.\<close>

definition unicastIPv4 :: "nat \<times> nat \<times> nat \<times> nat \<Rightarrow> bool" where
  "unicastIPv4 a =
     (case a of (w, x, y, z) \<Rightarrow>
        a \<noteq> (0, 0, 0, 0) \<and> \<not> (224 \<le> w \<and> w \<le> 239) \<and> w \<noteq> 127 \<and> a \<noteq> (255, 255, 255, 255))"

definition validLocalAddress :: "string \<Rightarrow> bool" where
  "validLocalAddress s = (case ParseIPv4 s of None \<Rightarrow> False | Some a \<Rightarrow> unicastIPv4 a)"

section \<open>Expansion\<close>

type_synonym endpoint = "int \<times> string"

record expansion =
  ex_public :: "endpoint list"
  ex_local :: "endpoint list"
  ex_out :: "PortMapping list"
  ex_total :: int

definition transportsOf :: "string \<Rightarrow> string list option" where
  "transportsOf network =
     (if network = ''both'' then Some [''tcp'', ''udp'']
      else if network = ''tcp'' \<or> network = ''udp'' then Some [network] else None)"

definition pairStep :: "expansion \<Rightarrow> PortMapping \<Rightarrow> expansion res" where
  "pairStep st p =
     (let pub = (pm_PublicPort p, pm_Network p); loc = (pm_LocalPort p, pm_Network p)
      in if pub \<in> set (ex_public st) then Inl (Err ''duplicate public port'')
         else if loc \<in> set (ex_local st) then Inl (Err ''duplicate local port'')
         else Inr (st\<lparr>ex_public := pub # ex_public st, ex_local := loc # ex_local st,
                      ex_out := ex_out st @ [p]\<rparr>))"

definition pairsOf :: "NatMapping \<Rightarrow> nat \<Rightarrow> string list \<Rightarrow> PortMapping list" where
  "pairsOf m count transports =
     concat (map (\<lambda>offset. map (\<lambda>t. \<lparr>pm_PublicPort = nm_PublicPort m + int offset,
         pm_LocalPort = nm_LocalPort m + int offset, pm_Network = t\<rparr>) transports) [0..<count])"

definition mappingStep :: "expansion \<Rightarrow> NatMapping \<Rightarrow> expansion res" where
  "mappingStep st m =
     (let count = (if nm_Count m = 0 then 1 else nm_Count m);
          network = (if nm_Network m = '''' then ''both'' else nm_Network m)
      in if nm_PublicPort m < 1 \<or> nm_PublicPort m > 65535 \<or> nm_LocalPort m < 1 \<or> nm_LocalPort m > 65535 \<or>
            count < 1 \<or> count > 65536 - nm_PublicPort m \<or> count > 65536 - nm_LocalPort m
         then Inl (Err ''invalid port range'')
         else if count > MaxPortPairs - ex_total st then Inl (Err ''too many port pairs'')
         else if nm_PublicPort m \<noteq> nm_LocalPort m \<and> nm_LocalPort m < 1024
         then Inl (Err ''a privileged local port must not be translated'')
         else case transportsOf network of
                None \<Rightarrow> Inl (Err ''unknown network'')
              | Some transports \<Rightarrow>
                  foldE pairStep (st\<lparr>ex_total := ex_total st + count\<rparr>) (pairsOf m (nat count) transports))"

definition networkRank :: "string \<Rightarrow> nat" where
  "networkRank t = (if t = ''tcp'' then 0 else 1)"

text \<open>\<^verbatim>\<open>sort.Slice\<close> by public port, then local port, then network.\<close>

definition sortPairs :: "PortMapping list \<Rightarrow> PortMapping list" where
  "sortPairs ps =
     sort_key pm_PublicPort (sort_key pm_LocalPort (sort_key (\<lambda>p. networkRank (pm_Network p)) ps))"

definition no_expansion :: expansion where
  "no_expansion = \<lparr>ex_public = [], ex_local = [], ex_out = [], ex_total = 0\<rparr>"

definition Expand :: "NatConfig \<Rightarrow> PortMapping list res" where
  "Expand c =
     (if nat_Schema c \<noteq> 1 then Inl (Err ''schema must be 1'')
      else if nat_Interface c \<noteq> '''' \<and> \<not> validInterface (nat_Interface c) then Inl (Err ''invalid interface'')
      else if nat_LocalAddress c \<noteq> '''' \<and> \<not> validLocalAddress (nat_LocalAddress c)
      then Inl (Err ''invalid local address'')
      else if int (length (nat_Mappings c)) > MaxPortPairs then Inl (Err ''too many port pairs'')
      else bindR (foldE mappingStep no_expansion (nat_Mappings c)) (\<lambda>st. Inr (sortPairs (ex_out st))))"

definition NatConfig_Validate :: "NatConfig \<Rightarrow> unit res" where
  "NatConfig_Validate c = bindR (Expand c) (\<lambda>_. Inr ())"

section \<open>Pools and lookups\<close>

text \<open>A JSON parameter: its text when it is a string.\<close>

datatype param = PStr string | POther

definition ProtocolNetworks :: "string \<Rightarrow> (string \<rightharpoonup> param) \<Rightarrow> string list res" where
  "ProtocolNetworks protocol params =
     (if protocol \<in> {''ss'', ''shadowsocks''} then
        (case params ''network'' of
           None \<Rightarrow> Inr [''tcp'', ''udp'']
         | Some POther \<Rightarrow> Inl (Err ''invalid Shadowsocks transport'')
         | Some (PStr value) \<Rightarrow>
             if value = ''tcp'' then Inr [''tcp'']
             else if value = '''' \<or> value = ''both'' then Inr [''tcp'', ''udp'']
             else Inl (Err ''Shadowsocks supports tcp or both''))
      else if protocol \<in> {''hysteria2'', ''tuic'', ''wireguard''} then Inr [''udp'']
      else if protocol \<in> {''vless'', ''vmess'', ''trojan'', ''anytls'', ''snell''} then Inr [''tcp'']
      else if protocol = ''mieru'' then
        (case params ''transport'' of
           Some (PStr t) \<Rightarrow> if t = ''TCP'' then Inr [''tcp''] else if t = ''UDP'' then Inr [''udp'']
                         else Inl (Err ''invalid mieru transport'')
         | _ \<Rightarrow> Inl (Err ''invalid mieru transport''))
      else Inl (Err ''unknown inbound transport''))"

record pools =
  pool_tcp :: "int list"
  pool_udp :: "int list"
  pool_both :: "int list"

definition publicPorts :: "string \<Rightarrow> PortMapping list \<Rightarrow> int list" where
  "publicPorts network pairs = sort (remdups (map pm_PublicPort (filter (\<lambda>p. pm_Network p = network) pairs)))"

definition Pools :: "NatConfig \<Rightarrow> pools res" where
  "Pools c =
     bindR (Expand c) (\<lambda>pairs.
       let tcp = publicPorts ''tcp'' pairs; udp = publicPorts ''udp'' pairs
       in Inr \<lparr>pool_tcp = tcp, pool_udp = udp, pool_both = filter (\<lambda>port. port \<in> set udp) tcp\<rparr>)"

text \<open>\<^verbatim>\<open>sort.SearchInts\<close>: the binary search of package sort on \<open>[i, j)\<close>.\<close>

function searchLoop :: "int list \<Rightarrow> int \<Rightarrow> nat \<Rightarrow> nat \<Rightarrow> nat" where
  "searchLoop xs x i j =
     (if i < j then
        let h = (i + j) div 2 in if xs ! h < x then searchLoop xs x (h + 1) j else searchLoop xs x i h
      else i)"
  by pat_completeness auto

termination searchLoop
  by (relation "measure (\<lambda>(xs, x, i, j). j - i)") auto

declare searchLoop.simps [simp del]

definition SearchInts :: "int list \<Rightarrow> int \<Rightarrow> nat" where
  "SearchInts xs x = searchLoop xs x 0 (length xs)"

definition inPool :: "int list \<Rightarrow> int \<Rightarrow> bool" where
  "inPool ports p = (let i = SearchInts ports p in \<not> (i = length ports \<or> ports ! i \<noteq> p))"

definition poolOf :: "pools \<Rightarrow> string \<Rightarrow> int list" where
  "poolOf ps network = (if network = ''tcp'' then pool_tcp ps else pool_udp ps)"

definition SupportsPort :: "NatConfig \<Rightarrow> int \<Rightarrow> string list \<Rightarrow> bool res" where
  "SupportsPort c publicPort networks =
     (if publicPort < 1 \<or> publicPort > 65535 \<or> networks = [] then Inl (Err ''invalid port or transport'')
      else if \<not> list_all (\<lambda>n. n = ''tcp'' \<or> n = ''udp'') networks then Inl (Err ''only tcp or udp'')
      else bindR (Pools c) (\<lambda>ps. Inr (list_all (\<lambda>n. inPool (poolOf ps n) publicPort) networks)))"

section \<open>An expansion is a partial bijection of ports per transport\<close>

abbreviation pubE :: "PortMapping \<Rightarrow> endpoint" where
  "pubE p \<equiv> (pm_PublicPort p, pm_Network p)"

abbreviation locE :: "PortMapping \<Rightarrow> endpoint" where
  "locE p \<equiv> (pm_LocalPort p, pm_Network p)"

definition pair_ok :: "PortMapping \<Rightarrow> bool" where
  "pair_ok p \<longleftrightarrow> 1 \<le> pm_PublicPort p \<and> pm_PublicPort p \<le> 65535 \<and> 1 \<le> pm_LocalPort p \<and> pm_LocalPort p \<le> 65535 \<and>
     (pm_Network p = ''tcp'' \<or> pm_Network p = ''udp'') \<and>
     (pm_PublicPort p \<noteq> pm_LocalPort p \<longrightarrow> 1024 \<le> pm_LocalPort p)"

definition pairs_ok :: "PortMapping list \<Rightarrow> bool" where
  "pairs_ok ps \<longleftrightarrow> distinct (map pubE ps) \<and> distinct (map locE ps) \<and> list_all pair_ok ps"

definition expansion_ok :: "expansion \<Rightarrow> bool" where
  "expansion_ok st \<longleftrightarrow> ex_public st = rev (map pubE (ex_out st)) \<and> ex_local st = rev (map locE (ex_out st)) \<and>
     distinct (map pubE (ex_out st)) \<and> distinct (map locE (ex_out st))"

interpretation pairs: loop_invariant pairStep expansion_ok
  by unfold_locales (auto simp: pairStep_def Let_def expansion_ok_def split: if_splits)

lemma pairs_loop_out:
  "foldE pairStep st ps = Inr st' \<Longrightarrow> ex_out st' = ex_out st @ ps \<and> ex_total st' = ex_total st"
proof (induction ps arbitrary: st)
  case Nil
  then show ?case by simp
next
  case (Cons p ps)
  then obtain t where t: "pairStep st p = Inr t" "foldE pairStep t ps = Inr st'"
    by (auto simp: bindR_eq_Inr)
  then have "ex_out t = ex_out st @ [p] \<and> ex_total t = ex_total st"
    by (auto simp: pairStep_def Let_def split: if_splits)
  with Cons.IH [OF t(2)] show ?case by simp
qed

lemma pairsOf_ok:
  assumes "1 \<le> nm_PublicPort m" "1 \<le> nm_LocalPort m" "int n \<le> 65536 - nm_PublicPort m" "int n \<le> 65536 - nm_LocalPort m"
    and "nm_PublicPort m = nm_LocalPort m \<or> 1024 \<le> nm_LocalPort m" "set ts \<subseteq> {''tcp'', ''udp''}"
  shows "list_all pair_ok (pairsOf m n ts)"
  using assms by (force simp: pairsOf_def list_all_iff pair_ok_def)

lemma length_pairsOf: "length (pairsOf m n ts) = n * length ts"
  by (simp add: pairsOf_def length_concat comp_def sum_list_triv)

lemma mappingStep_cases:
  assumes "mappingStep st m = Inr st'"
  obtains cnt ts where "0 < cnt" "int cnt \<le> MaxPortPairs - ex_total st" "length ts \<le> 2"
    "list_all pair_ok (pairsOf m cnt ts)"
    "foldE pairStep (st\<lparr>ex_total := ex_total st + int cnt\<rparr>) (pairsOf m cnt ts) = Inr st'"
proof -
  let ?cnt = "if nm_Count m = 0 then 1 else nm_Count m"
  let ?net = "if nm_Network m = '''' then ''both'' else nm_Network m"
  obtain ts where ts: "transportsOf ?net = Some ts"
    and r: "1 \<le> nm_PublicPort m" "1 \<le> nm_LocalPort m" "1 \<le> ?cnt" "?cnt \<le> 65536 - nm_PublicPort m" "?cnt \<le> 65536 - nm_LocalPort m"
      "?cnt \<le> MaxPortPairs - ex_total st" "nm_PublicPort m = nm_LocalPort m \<or> 1024 \<le> nm_LocalPort m"
      "foldE pairStep (st\<lparr>ex_total := ex_total st + ?cnt\<rparr>) (pairsOf m (nat ?cnt) ts) = Inr st'"
    using assms unfolding mappingStep_def Let_def by (auto split: if_splits option.splits)
  have "length ts \<le> 2 \<and> set ts \<subseteq> {''tcp'', ''udp''}"
    using ts by (auto simp: transportsOf_def split: if_splits)
  moreover have "int (nat ?cnt) = ?cnt" using r(3) by simp
  ultimately show ?thesis using that [of "nat ?cnt" ts] pairsOf_ok [of m "nat ?cnt" ts] r by auto
qed

definition mappings_inv :: "expansion \<Rightarrow> bool" where
  "mappings_inv st \<longleftrightarrow> expansion_ok st \<and> list_all pair_ok (ex_out st) \<and> 0 \<le> ex_total st \<and>
     ex_total st \<le> MaxPortPairs \<and> int (length (ex_out st)) \<le> 2 * ex_total st"

interpretation mappings: loop_invariant mappingStep mappings_inv
proof
  fix st m st' assume a: "mappingStep st m = Inr st'" and i: "mappings_inv st"
  from a show "mappings_inv st'"
  proof (cases rule: mappingStep_cases)
    case (1 cnt ts)
    note o = pairs_loop_out [OF 1(5)]
    have "expansion_ok st'" using pairs.loop_inv [OF 1(5)] i by (simp add: mappings_inv_def expansion_ok_def)
    moreover have "cnt * length ts \<le> 2 * cnt" using 1(3) by simp
    then have "int (length (pairsOf m cnt ts)) \<le> 2 * int cnt" unfolding length_pairsOf by linarith
    ultimately show ?thesis using o 1 i by (simp add: mappings_inv_def)
  qed
qed

lemma set_sortPairs [simp]: "set (sortPairs ps) = set ps"
  by (simp add: sortPairs_def)

lemma length_sortPairs [simp]: "length (sortPairs ps) = length ps"
  by (simp add: sortPairs_def)

lemma distinct_map_sort_key: "distinct (map f (sort_key k xs)) = distinct (map f xs)"
  by (simp add: distinct_map)

lemma distinct_sortPairs: "distinct (map f (sortPairs ps)) = distinct (map f ps)"
  by (simp add: sortPairs_def distinct_map_sort_key)

lemma Expand_E:
  assumes "Expand c = Inr ps"
  obtains st where "foldE mappingStep no_expansion (nat_Mappings c) = Inr st" "mappings_inv st"
    "ps = sortPairs (ex_out st)"
proof -
  obtain st where st: "foldE mappingStep no_expansion (nat_Mappings c) = Inr st" "ps = sortPairs (ex_out st)"
    using assms unfolding Expand_def by (auto split: if_splits simp: bindR_eq_Inr)
  have "mappings_inv no_expansion"
    by (simp add: mappings_inv_def expansion_ok_def no_expansion_def MaxPortPairs_def)
  from mappings.loop_inv [OF st(1) this] st that show ?thesis by blast
qed

lemma Expand_ok:
  assumes "Expand c = Inr ps"
  shows "pairs_ok ps \<and> int (length ps) \<le> 2 * MaxPortPairs"
  using assms
proof (rule Expand_E)
  fix st assume "mappings_inv st" and ps: "ps = sortPairs (ex_out st)"
  then show ?thesis
    unfolding ps pairs_ok_def distinct_sortPairs
    by (auto simp: mappings_inv_def expansion_ok_def list_all_iff)
qed

section \<open>Normalisation keeps the meaning\<close>

lemma pairsOf_Normalize [simp]: "pairsOf (NormalizeMapping m) = pairsOf m"
  by (simp add: pairsOf_def NormalizeMapping_def fun_eq_iff)

lemma NormalizeMapping_sel:
  "nm_PublicPort (NormalizeMapping m) = nm_PublicPort m" "nm_LocalPort (NormalizeMapping m) = nm_LocalPort m"
  "(if nm_Count (NormalizeMapping m) = 0 then 1 else nm_Count (NormalizeMapping m)) =
     (if nm_Count m = 0 then 1 else nm_Count m)"
  "(if nm_Network (NormalizeMapping m) = '''' then ''both'' else nm_Network (NormalizeMapping m)) =
     (if nm_Network m = '''' then ''both'' else nm_Network m)"
  by (simp_all add: NormalizeMapping_def)

lemma NormalizeMapping_step [simp]: "mappingStep st (NormalizeMapping m) = mappingStep st m"
  unfolding mappingStep_def NormalizeMapping_sel pairsOf_Normalize ..

lemma Expand_Normalized: "Expand (Normalized c) = Expand c"
proof -
  have "foldE mappingStep st (map NormalizeMapping ms) = foldE mappingStep st ms" for st ms
  proof (induction ms arbitrary: st)
    case Nil
    then show ?case by simp
  next
    case (Cons m ms)
    then show ?case by (cases "mappingStep st m") simp_all
  qed
  then show ?thesis by (simp add: Expand_def Normalized_def)
qed

lemma Normalized_idem: "Normalized (Normalized c) = Normalized c"
  by (simp add: Normalized_def NormalizeMapping_def comp_def)

section \<open>The binary search finds every port\<close>

lemma searchLoop_spec:
  assumes "sorted xs" "i \<le> j" "j \<le> length xs" "\<And>k. k < i \<Longrightarrow> xs ! k < x"
    and "\<And>k. j \<le> k \<Longrightarrow> k < length xs \<Longrightarrow> x \<le> xs ! k"
  shows "searchLoop xs x i j \<le> length xs \<and> (\<forall>k < searchLoop xs x i j. xs ! k < x) \<and>
    (\<forall>k. searchLoop xs x i j \<le> k \<longrightarrow> k < length xs \<longrightarrow> x \<le> xs ! k)"
  using assms
proof (induction xs x i j rule: searchLoop.induct)
  case (1 xs x i j)
  show ?case
  proof (cases "i < j")
    case False
    then have "searchLoop xs x i j = i" by (simp add: searchLoop.simps [of xs x i j])
    with False 1(4-7) show ?thesis by auto
  next
    case True
    let ?h = "(i + j) div 2"
    have h: "i \<le> ?h" "?h < j" "?h < length xs" using True 1(5) by linarith+
    have le: "k \<le> k' \<Longrightarrow> k' < length xs \<Longrightarrow> xs ! k \<le> xs ! k'" for k k'
      using 1(3) by (simp add: sorted_iff_nth_mono)
    show ?thesis
    proof (cases "xs ! ?h < x")
      case lt: True
      have "xs ! k < x" if "k < ?h + 1" for k using le [of k ?h] that h(3) lt by simp
      from 1(1) [OF True refl lt 1(3) _ 1(5) this 1(7)] h True lt show ?thesis
        by (simp add: searchLoop.simps [of xs x i j] Let_def)
    next
      case ge: False
      have "x \<le> xs ! k" if "?h \<le> k" "k < length xs" for k using le [of ?h k] that ge by simp
      from 1(2) [OF True refl ge 1(3) h(1) _ 1(6) this] h True ge show ?thesis
        by (simp add: searchLoop.simps [of xs x i j] Let_def)
    qed
  qed
qed

lemma inPool_iff:
  assumes "sorted xs"
  shows "inPool xs x \<longleftrightarrow> x \<in> set xs"
proof -
  define r where "r = SearchInts xs x"
  have r: "r \<le> length xs" "\<forall>k < r. xs ! k < x" "\<forall>k. r \<le> k \<longrightarrow> k < length xs \<longrightarrow> x \<le> xs ! k"
    using searchLoop_spec [OF assms, of 0 "length xs" x] by (auto simp: r_def SearchInts_def)
  have "x \<in> set xs \<longleftrightarrow> r < length xs \<and> xs ! r = x"
  proof
    assume "x \<in> set xs"
    then obtain k where k: "k < length xs" "xs ! k = x" by (auto simp: in_set_conv_nth)
    then have "r \<le> k" using r(2) by (meson leI less_irrefl)
    then have "r < length xs" "xs ! r \<le> xs ! k" using k assms by (auto simp: sorted_iff_nth_mono)
    with r(3) k show "r < length xs \<and> xs ! r = x" by fastforce
  qed auto
  then show ?thesis using r(1) by (auto simp: inPool_def Let_def r_def [symmetric])
qed

lemma sorted_publicPorts [simp]: "sorted (publicPorts t ps)"
  by (simp add: publicPorts_def)

lemma set_publicPorts: "set (publicPorts t ps) = {pm_PublicPort p | p. p \<in> set ps \<and> pm_Network p = t}"
  by (auto simp: publicPorts_def)

lemma SupportsPort_iff:
  assumes "Expand c = Inr ps" "1 \<le> port" "port \<le> 65535" "ts \<noteq> []" "set ts \<subseteq> {''tcp'', ''udp''}"
  shows "SupportsPort c port ts = Inr (\<forall>t \<in> set ts. \<exists>p \<in> set ps. pm_PublicPort p = port \<and> pm_Network p = t)"
proof -
  let ?pools = "\<lparr>pool_tcp = publicPorts ''tcp'' ps, pool_udp = publicPorts ''udp'' ps,
     pool_both = filter (\<lambda>p. p \<in> set (publicPorts ''udp'' ps)) (publicPorts ''tcp'' ps)\<rparr>"
  have pools: "Pools c = Inr ?pools" using assms(1) by (simp add: Pools_def Let_def)
  have "inPool (poolOf ?pools t) port \<longleftrightarrow> (\<exists>p \<in> set ps. pm_PublicPort p = port \<and> pm_Network p = t)"
    if "t \<in> set ts" for t
    using that assms(5) by (auto simp: poolOf_def inPool_iff set_publicPorts)
  then have "list_all (\<lambda>t. inPool (poolOf ?pools t) port) ts \<longleftrightarrow>
      (\<forall>t \<in> set ts. \<exists>p \<in> set ps. pm_PublicPort p = port \<and> pm_Network p = t)"
    by (auto simp: list_all_iff)
  moreover have "list_all (\<lambda>n. n = ''tcp'' \<or> n = ''udp'') ts" using assms(5) by (auto simp: list_all_iff)
  ultimately show ?thesis using assms(2,3,4) pools by (simp add: SupportsPort_def)
qed

lemma SupportsPort_error_iff:
  "(\<exists>e. SupportsPort c port ts = Inl e) \<longleftrightarrow>
     port < 1 \<or> port > 65535 \<or> ts = [] \<or> \<not> set ts \<subseteq> {''tcp'', ''udp''} \<or> (\<exists>e. Expand c = Inl e)"
  by (cases "Expand c") (auto simp: SupportsPort_def Pools_def Let_def list_all_iff)

lemma ProtocolNetworks_ok:
  assumes "ProtocolNetworks proto params = Inr ts"
  shows "ts = [''tcp''] \<or> ts = [''udp''] \<or> ts = [''tcp'', ''udp'']"
  using assms unfolding ProtocolNetworks_def
  by (simp only: sum.simps HOL.simp_thms split: if_split_asm option.split_asm param.split_asm)

section \<open>Reported status\<close>

text \<open>\<^verbatim>\<open>utf8.ValidString\<close>\<close>

definition byteIn :: "nat \<Rightarrow> nat \<Rightarrow> char \<Rightarrow> bool" where
  "byteIn lo hi c \<longleftrightarrow> lo \<le> (of_char c :: nat) \<and> (of_char c :: nat) \<le> hi"

abbreviation cont :: "char \<Rightarrow> bool" where
  "cont \<equiv> byteIn 128 191"

fun validUTF8 :: "string \<Rightarrow> bool" where
  "validUTF8 [] = True"
| "validUTF8 (a # s) =
     (if byteIn 0 127 a then validUTF8 s
      else if byteIn 194 223 a then (case s of b # t \<Rightarrow> cont b \<and> validUTF8 t | _ \<Rightarrow> False)
      else if byteIn 224 239 a then
        (case s of b # c # t \<Rightarrow>
           byteIn (if byteIn 224 224 a then 160 else 128) (if byteIn 237 237 a then 159 else 191) b \<and>
           cont c \<and> validUTF8 t | _ \<Rightarrow> False)
      else if byteIn 240 244 a then
        (case s of b # c # d # t \<Rightarrow>
           byteIn (if byteIn 240 240 a then 144 else 128) (if byteIn 244 244 a then 143 else 191) b \<and>
           cont c \<and> cont d \<and> validUTF8 t | _ \<Rightarrow> False)
      else False)"

definition NATVersion :: int where "NATVersion = 2"

record NATStatus =
  nt_Version :: int
  nt_Source :: string
  nt_Configured :: bool
  nt_Status :: string
  nt_Config :: "NatConfig option"
  nt_Error :: string

definition checkSource :: "NATStatus \<Rightarrow> unit res" where
  "checkSource s =
     (if nt_Source s = ''none'' then
        (if nt_Config s \<noteq> None \<or> nt_Configured s then Inl (Err ''an unconfigured status carries a configuration'') else Inr ())
      else if nt_Source s = ''local'' \<or> nt_Source s = ''controller'' then Inr ()
      else Inl (Err ''invalid source''))"

definition checkSnapshot :: "NATStatus \<Rightarrow> unit res" where
  "checkSnapshot s =
     (case nt_Config s of
        Some c \<Rightarrow>
          bindR (NatConfig_Validate c) (\<lambda>_.
            if nt_Configured s \<noteq> (nat_Mappings c \<noteq> []) then Inl (Err ''flag and configuration disagree'') else Inr ())
      | None \<Rightarrow> if nt_Configured s then Inl (Err ''configured without a snapshot'') else Inr ())"

definition checkStatus :: "NATStatus \<Rightarrow> unit res" where
  "checkStatus s =
     (if nt_Status s = ''disabled'' then
        (if nt_Configured s \<or> nt_Error s \<noteq> '''' then Inl (Err ''invalid disabled status'') else Inr ())
      else if nt_Status s = ''applied'' then
        (if \<not> nt_Configured s \<or> nt_Error s \<noteq> '''' then Inl (Err ''invalid applied status'') else Inr ())
      else if nt_Status s = ''error'' then
        (if nt_Error s = '''' then Inl (Err ''failure without a reason'') else Inr ())
      else if nt_Status s = ''pending'' then Inr ()
      else Inl (Err ''invalid status''))"

definition ValidateNAT :: "NATStatus option \<Rightarrow> unit res" where
  "ValidateNAT status =
     (case status of None \<Rightarrow> Inr ()
      | Some s \<Rightarrow>
        if nt_Version s \<noteq> NATVersion \<or> length (nt_Error s) > 512 \<or> \<not> validUTF8 (nt_Error s)
        then Inl (Err ''invalid version or error text'')
        else bindR (checkSource s) (\<lambda>_. bindR (checkSnapshot s) (\<lambda>_. bindR (checkStatus s) (\<lambda>_.
          if nt_Config s = None \<and> nt_Source s \<noteq> ''none'' \<and> nt_Status s \<noteq> ''error''
          then Inl (Err ''source without a current snapshot'') else Inr ()))))"

text \<open>An applied report carries a valid configuration with at least one mapping.\<close>

lemma ValidateNAT_applied:
  assumes "ValidateNAT (Some s) = Inr ()" "nt_Status s = ''applied''"
  shows "\<exists>c ps. nt_Config s = Some c \<and> nat_Mappings c \<noteq> [] \<and> Expand c = Inr ps \<and> nt_Source s \<noteq> ''none''"
proof -
  have s: "checkSource s = Inr ()" "checkSnapshot s = Inr ()" "checkStatus s = Inr ()"
    using assms(1) by (auto simp: ValidateNAT_def elim!: bindR_InrE split: if_splits)
  then have "nt_Configured s" using assms(2) by (auto simp: checkStatus_def split: if_splits)
  then show ?thesis using s
    by (auto simp: checkSnapshot_def checkSource_def NatConfig_Validate_def elim!: bindR_InrE split: option.splits if_splits)
qed

end
