(* ===== verification/Tables.thy ===== *)
theory Tables
  imports Topology NatConfig "HOL-Library.AList"
begin

text \<open>
  The part of the database the modelled packages read and write. A table is an association
  list from its primary key to its row, in insertion order; \<open>upsert\<close> is
  \<^verbatim>\<open>INSERT ... ON CONFLICT DO UPDATE\<close>. Timestamps kept as RFC 3339 text are instants; a
  column the code re-parses and tolerates as unreadable is a \<open>time option\<close>. Day and hour
  buckets, whose texts sort like the instants they name, are day and hour numbers.
  \<open>maintenance_active\<close> lists the servers with a queued or running maintenance job; \<open>audit_log\<close>
  holds the rows ingestion writes, \<open>audit_events\<close> those of \<^verbatim>\<open>addAudit\<close>.
\<close>

abbreviation upsert :: "'k \<Rightarrow> 'v \<Rightarrow> ('k \<times> 'v) list \<Rightarrow> ('k \<times> 'v) list" where
  "upsert \<equiv> AList.update"

abbreviation lookup :: "('k \<times> 'v) list \<Rightarrow> 'k \<Rightarrow> 'v option" where
  "lookup \<equiv> map_of"

text \<open>\<^verbatim>\<open>INSERT ... ON CONFLICT DO NOTHING\<close>\<close>

definition insertNew :: "'k \<Rightarrow> 'v \<Rightarrow> ('k \<times> 'v) list \<Rightarrow> ('k \<times> 'v) list" where
  "insertNew k v t = (case lookup t k of None \<Rightarrow> t @ [(k, v)] | Some _ \<Rightarrow> t)"

definition deleteWhere :: "('k \<times> 'v \<Rightarrow> bool) \<Rightarrow> ('k \<times> 'v) list \<Rightarrow> ('k \<times> 'v) list" where
  "deleteWhere P t = filter (\<lambda>r. \<not> P r) t"

definition keys_ok :: "('k \<times> 'v) list \<Rightarrow> bool" where
  "keys_ok t \<longleftrightarrow> distinct (map fst t)"

lemma lookup_upsert [simp]: "lookup (upsert k v t) k' = (if k' = k then Some v else lookup t k')"
  by (simp add: update_conv)

lemma set_upsert: "r \<in> set (upsert k v t) \<Longrightarrow> r = (k, v) \<or> r \<in> set t"
  by (induction t) (auto split: if_splits)

lemma lookup_insertNew: "lookup (insertNew k v t) k' =
  (if k' = k \<and> lookup t k = None then Some v else lookup t k')"
  by (auto simp: insertNew_def map_add_def split: option.splits)

lemma keys_ok_upsert [intro]: "keys_ok t \<Longrightarrow> keys_ok (upsert k v t)"
  by (simp add: keys_ok_def distinct_update)

lemma keys_ok_insertNew [intro]: "keys_ok t \<Longrightarrow> keys_ok (insertNew k v t)"
  by (auto simp: keys_ok_def insertNew_def map_of_eq_None_iff split: option.splits)

lemma keys_ok_deleteWhere [intro]: "keys_ok t \<Longrightarrow> keys_ok (deleteWhere P t)"
  by (simp add: keys_ok_def deleteWhere_def distinct_map_filter)

text \<open>Changing one row changes a sum over the table by that row's difference.\<close>

lemma sum_upsert:
  fixes f :: "'k \<times> 'v \<Rightarrow> int"
  assumes "keys_ok t"
  shows "(\<Sum>r \<leftarrow> upsert k v t. f r) =
    (\<Sum>r \<leftarrow> t. f r) - (case lookup t k of None \<Rightarrow> 0 | Some w \<Rightarrow> f (k, w)) + f (k, v)"
  using assms
proof (induction t)
  case Nil
  then show ?case by simp
next
  case (Cons r t)
  then have "keys_ok t" "fst r \<notin> fst ` set t" by (auto simp: keys_ok_def)
  with Cons.IH show ?case by (cases r) (auto split: option.splits)
qed

section \<open>Rows\<close>

record CounterState =
  cs_Epoch :: string
  cs_LastRx :: i64
  cs_LastTx :: i64
  cs_UpdatedAt :: "time option"

record TrafficSample =
  ts_ServerID :: i64
  ts_NodeID :: "i64 option"
  ts_TS :: time
  ts_RxBytes :: i64
  ts_TxBytes :: i64

record BillingState =
  bs_Current :: i64
  bs_Requested :: i64
  bs_RxTotal :: i64
  bs_TxTotal :: i64
  bs_Source :: string
  bs_Sequence :: i64
  bs_Status :: string
  bs_Error :: string
  bs_AppliedAt :: time
  bs_SampledAt :: time

record BillingBaseline =
  bb_Source :: string
  bb_Generation :: string
  bb_Sequence :: i64
  bb_Rx :: i64
  bb_Tx :: i64

record BillingAudit =
  au_TS :: time
  au_ServerID :: i64
  au_Revision :: i64
  au_Status :: string
  au_Error :: string
  au_SampledAt :: time

text \<open>The fields of a published forward that a receipt is checked against.\<close>

record ForwardRef =
  ff_ForwardID :: i64
  ff_Revision :: i64
  ff_Retired :: bool

text \<open>
  \<^verbatim>\<open>agentproto.DesiredState\<close>, what an agent is told to run. The fields no modelled function reads
  (versions, tuning, rendered protocol parameters) are kept as one text each.
\<close>

record CertSpec =
  cert_Mode :: string
  cert_Domain :: string
  cert_ID :: string

record NodeSpec =
  np_NodeID :: i64
  np_Name :: string
  np_Protocol :: string
  np_Core :: string
  np_ListenPort :: int
  np_ShareID :: "i64 option"
  np_Blocked :: bool
  np_ConnlogEnabled :: bool
  np_Params :: string
  np_Network :: string
  np_Cert :: "CertSpec option"

record DesiredState =
  ds_PublicationGeneration :: i64
  ds_NetworkForwardVersion :: int
  ds_NetworkGeneration :: i64
  ds_Revision :: i64
  ds_Hash :: string
  ds_ServerID :: i64
  ds_Nodes :: "NodeSpec list"
  ds_Forwards :: "ForwardRef list"
  ds_Rest :: string
  ds_GeneratedAt :: time

datatype DesiredStatus = DesiredPending | DesiredApplied | DesiredFailed | DesiredStale

record DesiredRow =
  dr_Payload :: DesiredState
  dr_Hash :: string
  dr_Status :: DesiredStatus
  dr_Error :: string
  dr_CreatedAt :: time
  dr_AppliedAt :: "time option"

record NodeApplicationContext =
  nc_PublicHost :: string
  nc_CoreMode :: string
  nc_IPv4Only :: bool
  nc_CertMode :: string

record NodeApplicationSnapshot =
  na_Node :: Node
  na_ServerParams :: string
  na_Context :: NodeApplicationContext
  na_Spec :: NodeSpec

record PortForward =
  pf_ServerID :: i64
  pf_Revision :: i64
  pf_Retired :: bool

record NetworkGeneration =
  ng_Generation :: i64
  ng_Published :: i64
  ng_Attempts :: int
  ng_Retry :: i64
  ng_NextAttempt :: time

record NetworkOperation =
  no_ID :: string
  no_ServerID :: i64
  no_Kind :: string
  no_ResourceID :: i64
  no_ResourceRevision :: i64
  no_Generation :: i64
  no_RequestHash :: string
  no_Status :: string
  no_DesiredRevision :: i64
  no_DesiredHash :: string
  no_Attempts :: int
  no_RetryRevision :: i64
  no_Republish :: bool
  no_NextAttemptAt :: time
  no_Message :: string
  no_CreatedAt :: time
  no_UpdatedAt :: time

record ListenerReservation =
  lr_ServerID :: i64
  lr_Kind :: string
  lr_ResourceID :: i64
  lr_ListenPort :: int

record MeterIdentity =
  mi_ServerID :: i64
  mi_NodeID :: i64
  mi_ListenPort :: int
  mi_Core :: string
  mi_ShareID :: "i64 option"

record Calibration =
  ca_PeriodStart :: int
  ca_CalibratedBytes :: i64
  ca_ObservedBytes :: i64
  ca_ObservedUp :: "i64 option"
  ca_ObservedDown :: "i64 option"
  ca_ProviderUp :: "i64 option"
  ca_ProviderDown :: "i64 option"
  ca_CalibratedAt :: time

text \<open>\<^verbatim>\<open>domain.AuditEvent\<close>, as \<^verbatim>\<open>addAudit\<close> stores it; the JSON detail is a text.\<close>

record AuditEvent =
  ae_TS :: time
  ae_UserID :: "i64 option"
  ae_Username :: string
  ae_Action :: string
  ae_Target :: string
  ae_Detail :: string
  ae_IP :: string

record ShareEvent =
  se_ID :: i64
  se_ShareID :: i64
  se_TS :: time
  se_Kind :: string
  se_Detail :: string

text \<open>The columns of a subscription that the share manager changes.\<close>

record Subscription =
  sb_ID :: i64
  sb_Name :: string
  sb_Kind :: string
  sb_Token :: string
  sb_TokenHash :: string
  sb_TokenHint :: string
  sb_ShortCode :: string
  sb_TemplateID :: "i64 option"
  sb_OwnerUserID :: i64
  sb_AllowedUserIDs :: "i64 list"
  sb_ShareID :: "i64 option"
  sb_Enabled :: bool
  sb_UpdatedAt :: time

text \<open>An agent's row, with the reported diagnostics decoded (\<open>None\<close> when unreadable).\<close>

record Diagnostics =
  di_NAT :: "NATStatus option"
  di_SecurityVersion :: int
  di_SecurityPolicy :: bool
  di_SecurityPaused :: bool
  di_NetworkConfigureAllowed :: bool

record Agent =
  ag_TokenHash :: string
  ag_LastSeenAt :: "time option"
  ag_Diagnostics :: "Diagnostics option"

record ServerNatConfig =
  sc_Revision :: i64
  sc_Config :: "NatConfig option"
  sc_UpdatedAt :: time

type_synonym bucket_key = "int \<times> string \<times> i64"
type_synonym bucket_table = "(bucket_key \<times> i64 \<times> i64) list"

record db =
  counter_state :: "((i64 \<times> string) \<times> CounterState) list"
  traffic_hourly :: bucket_table
  traffic_daily :: bucket_table
  traffic_samples :: "TrafficSample list"
  meter_settlements :: "((i64 \<times> string) \<times> time) list"
  network_billing_state :: "(i64 \<times> BillingState) list"
  network_billing_policies :: "((i64 \<times> i64) \<times> NetworkBillingPolicy) list"
  network_billing_sources :: "((i64 \<times> string) \<times> i64) list"
  network_billing_baselines :: "((i64 \<times> string) \<times> BillingBaseline) list"
  network_billing_settlements :: "((i64 \<times> string) \<times> string) list"
  audit_log :: "BillingAudit list"
  port_forwards :: "(i64 \<times> PortForward) list"
  port_forward_revisions :: "((i64 \<times> i64) \<times> int) list"
  forward_receipts :: "((i64 \<times> string) \<times> string) list"
  desired_states :: "((i64 \<times> i64) \<times> DesiredRow) list"
  node_application_candidates :: "((i64 \<times> i64 \<times> i64) \<times> NodeApplicationSnapshot) list"
  network_operations :: "NetworkOperation list"
  server_network_generations :: "(i64 \<times> NetworkGeneration) list"
  maintenance_active :: "i64 list"
  listener_reservations :: "ListenerReservation list"
  nodes :: "Node list"
  node_meter_identities :: "MeterIdentity list"
  managed_transits :: "i64 list"
  shares :: "(i64 \<times> Share) list"
  servers :: "(i64 \<times> Server) list"
  server_usage_calibrations :: "(i64 \<times> Calibration) list"
  audit_events :: "AuditEvent list"
  share_events :: "ShareEvent list"
  subscriptions :: "Subscription list"
  agents :: "(i64 \<times> Agent) list"
  server_nat_configs :: "(i64 \<times> ServerNatConfig) list"

definition empty_db :: db where
  "empty_db = \<lparr>counter_state = [], traffic_hourly = [], traffic_daily = [], traffic_samples = [],
     meter_settlements = [], network_billing_state = [], network_billing_policies = [],
     network_billing_sources = [], network_billing_baselines = [],
     network_billing_settlements = [], audit_log = [], port_forwards = [],
     port_forward_revisions = [], forward_receipts = [], desired_states = [],
     node_application_candidates = [], network_operations = [], server_network_generations = [],
     maintenance_active = [], listener_reservations = [], nodes = [],
     node_meter_identities = [], managed_transits = [], shares = [], servers = [],
     server_usage_calibrations = [],
     audit_events = [], share_events = [], subscriptions = [], agents = [], server_nat_configs = []\<rparr>"

text \<open>
  \<^verbatim>\<open>Store.Tx\<close>: the changes of the function are committed only if it succeeds. The result is
  the function's value or error and the database left behind.
\<close>

definition Tx :: "db \<Rightarrow> (db \<Rightarrow> ('a \<times> db) res) \<Rightarrow> 'a res \<times> db" where
  "Tx d f = (case f d of Inl e \<Rightarrow> (Inl e, d) | Inr (x, d') \<Rightarrow> (Inr x, d'))"

lemma Tx_error_rolls_back: "Tx d f = (Inl e, d') \<Longrightarrow> d' = d"
  by (auto simp: Tx_def split: sum.splits prod.splits)

lemma Tx_cases:
  obtains e where "f d = Inl e" "Tx d f = (Inl e, d)"
  | x d' where "f d = Inr (x, d')" "Tx d f = (Inr x, d')"
  by (cases "f d") (auto simp: Tx_def)

end
