(* ===== verification/Ledger.thy ===== *)
theory Ledger
  imports Tables "HOL-Library.Multiset"
begin

text \<open>
  The traffic ledger: hourly and daily buckets, raw samples and counter baselines
  (\<^verbatim>\<open>internal/store/traffic.go\<close>), and the overflow-checked addition every bucket goes
  through (\<^verbatim>\<open>addTrafficDirections\<close> of \<^verbatim>\<open>internal/traffic\<close>). The interface \<open>bucket_ledger\<close>
  states what a ledger promises; the daily and hourly tables interpret it.
\<close>

definition SubjectServer :: string where "SubjectServer = ''server''"
definition SubjectNode :: string where "SubjectNode = ''node''"
definition SubjectForward :: string where "SubjectForward = ''forward''"
definition SubjectExternal :: string where "SubjectExternal = ''external''"
definition SubjectShare :: string where "SubjectShare = ''share''"

section \<open>Checked addition\<close>

definition addTrafficDirections :: "i64 \<Rightarrow> i64 \<Rightarrow> i64 \<Rightarrow> i64 \<Rightarrow> (i64 \<times> i64) res" where
  "addTrafficDirections inbound outbound addInbound addOutbound =
     (if \<not> ValidTrafficTotals inbound outbound \<or> \<not> ValidTrafficTotals addInbound addOutbound \<or>
         addInbound > sub64 MaxInt64 inbound \<or> addOutbound > sub64 MaxInt64 outbound
      then Inl (Err ''traffic totals overflow or are invalid'')
      else
        let inbound' = add64 inbound addInbound; outbound' = add64 outbound addOutbound
        in if \<not> ValidTrafficTotals inbound' outbound'
           then Inl (Err ''traffic totals overflow'')
           else Inr (inbound', outbound'))"

definition validTrafficAddition :: "i64 \<Rightarrow> i64 \<Rightarrow> i64 \<Rightarrow> i64 \<Rightarrow> bool" where
  "validTrafficAddition inbound outbound addInbound addOutbound \<longleftrightarrow>
     ValidTrafficTotals inbound outbound \<and> ValidTrafficTotals addInbound addOutbound \<and>
     addInbound \<le> sub64 MaxInt64 inbound \<and> addOutbound \<le> sub64 MaxInt64 outbound \<and>
     ValidTrafficTotals (add64 inbound addInbound) (add64 outbound addOutbound)"

lemma ValidTrafficTotals_bounds:
  assumes "in64 a" "in64 b" "ValidTrafficTotals a b"
  shows "0 \<le> a" "0 \<le> b" "a \<le> MaxInt64" "b \<le> MaxInt64" "a + b \<le> MaxInt64"
  using assms by (auto simp: ValidTrafficTotals_iff)

lemma addTrafficDirections_iff:
  assumes "in64 a" "in64 b" "in64 c" "in64 d"
  shows "addTrafficDirections a b c d = Inr (x, y) \<longleftrightarrow>
    0 \<le> a \<and> 0 \<le> b \<and> 0 \<le> c \<and> 0 \<le> d \<and> a + b + c + d \<le> MaxInt64 \<and> x = a + c \<and> y = b + d"
proof (cases "ValidTrafficTotals a b \<and> ValidTrafficTotals c d")
  case True
  then have v: "0 \<le> a" "0 \<le> b" "a + b \<le> MaxInt64" "0 \<le> c" "0 \<le> d" "c + d \<le> MaxInt64"
    using assms by (auto simp: ValidTrafficTotals_iff)
  then have s: "sub64 MaxInt64 a = MaxInt64 - a" "sub64 MaxInt64 b = MaxInt64 - b"
    by (auto intro!: sub64_nonneg_exact)
  show ?thesis
  proof (cases "c \<le> MaxInt64 - a \<and> d \<le> MaxInt64 - b")
    case ok: True
    then have p: "add64 a c = a + c" "add64 b d = b + d"
      using v by (auto intro!: add64_nonneg_exact)
    then have "ValidTrafficTotals (add64 a c) (add64 b d) \<longleftrightarrow> a + b + c + d \<le> MaxInt64"
      using v ok unfolding p by (subst ValidTrafficTotals_iff) (auto simp: in64_def)
    then show ?thesis using True ok s p v
      by (auto simp: addTrafficDirections_def Let_def)
  next
    case False
    then show ?thesis using True s v by (auto simp: addTrafficDirections_def)
  qed
next
  case False
  then have "addTrafficDirections a b c d \<noteq> Inr (x, y)" by (auto simp: addTrafficDirections_def)
  moreover have "\<not> (0 \<le> a \<and> 0 \<le> b \<and> 0 \<le> c \<and> 0 \<le> d \<and> a + b + c + d \<le> MaxInt64)"
    using False assms by (auto simp: ValidTrafficTotals_iff)
  ultimately show ?thesis by blast
qed

lemma validTrafficAddition_iff:
  "validTrafficAddition a b c d \<longleftrightarrow> isOk (addTrafficDirections a b c d)"
  by (auto simp: validTrafficAddition_def addTrafficDirections_def Let_def)

section \<open>Buckets\<close>

definition bucket_get :: "bucket_table \<Rightarrow> bucket_key \<Rightarrow> i64 \<times> i64" where
  "bucket_get t k = (case lookup t k of None \<Rightarrow> (0, 0) | Some v \<Rightarrow> v)"

text \<open>One table of the upsert loop in \<^verbatim>\<open>Ingest\<close>'s \<^verbatim>\<open>add\<close>.\<close>

definition bucket_add :: "bucket_key \<Rightarrow> i64 \<Rightarrow> i64 \<Rightarrow> bucket_table \<Rightarrow> bucket_table res" where
  "bucket_add k rx tx t =
     (case bucket_get t k of (previousRx, previousTx) \<Rightarrow>
        bindR (addTrafficDirections previousRx previousTx rx tx)
          (\<lambda>_. Inr (upsert k (previousRx + rx, previousTx + tx) t)))"

definition ingest_add :: "time \<Rightarrow> string \<Rightarrow> i64 \<Rightarrow> i64 \<Rightarrow> i64 \<Rightarrow> db \<Rightarrow> db res" where
  "ingest_add ts subject sid rx tx d =
     bindR (bucket_add (hour_of ts, subject, sid) rx tx (traffic_hourly d)) (\<lambda>hourly.
     bindR (bucket_add (day_of ts, subject, sid) rx tx (traffic_daily d)) (\<lambda>daily.
       Inr (d\<lparr>traffic_hourly := hourly, traffic_daily := daily\<rparr>)))"

definition invalidTrafficTotals :: error where
  "invalidTrafficTotals = Err ''traffic statistics exceed the valid integer range''"

definition AddTraffic_bucket :: "bucket_key \<Rightarrow> i64 \<Rightarrow> i64 \<Rightarrow> bucket_table \<Rightarrow> bucket_table res" where
  "AddTraffic_bucket k up down t =
     (case bucket_get t k of (previousUp, previousDown) \<Rightarrow>
        if \<not> validTrafficAddition previousUp previousDown up down then Inl invalidTrafficTotals
        else Inr (upsert k (previousUp + up, previousDown + down) t))"

definition AddTraffic :: "string \<Rightarrow> i64 \<Rightarrow> time \<Rightarrow> i64 \<Rightarrow> i64 \<Rightarrow> db \<Rightarrow> unit res \<times> db" where
  "AddTraffic subject sid at up down d =
     (if \<not> ValidTrafficTotals up down then (Inl invalidTrafficTotals, d)
      else if up = 0 \<and> down = 0 then (Inr (), d)
      else Tx d (\<lambda>d.
        bindR (AddTraffic_bucket (hour_of at, subject, sid) up down (traffic_hourly d)) (\<lambda>hourly.
        bindR (AddTraffic_bucket (day_of at, subject, sid) up down (traffic_daily d)) (\<lambda>daily.
          Inr ((), d\<lparr>traffic_hourly := hourly, traffic_daily := daily\<rparr>)))))"

definition SetDailyTraffic :: "string \<Rightarrow> i64 \<Rightarrow> time \<Rightarrow> i64 \<Rightarrow> i64 \<Rightarrow> db \<Rightarrow> unit res \<times> db" where
  "SetDailyTraffic subject sid day up down d =
     (if \<not> ValidTrafficTotals up down then (Inl invalidTrafficTotals, d)
      else (Inr (), d\<lparr>traffic_daily := upsert (day_of day, subject, sid) (up, down) (traffic_daily d)\<rparr>))"

section \<open>Counter baselines and samples\<close>

definition GetCounterState :: "i64 \<Rightarrow> string \<Rightarrow> db \<Rightarrow> CounterState option" where
  "GetCounterState serverID key d = lookup (counter_state d) (serverID, key)"

definition PutCounterState :: "i64 \<Rightarrow> string \<Rightarrow> CounterState \<Rightarrow> db \<Rightarrow> db" where
  "PutCounterState serverID key st d =
     d\<lparr>counter_state := upsert (serverID, key) st (counter_state d)\<rparr>"

definition AddSample :: "TrafficSample \<Rightarrow> db \<Rightarrow> unit res \<times> db" where
  "AddSample sm d =
     (if \<not> ValidTrafficTotals (ts_RxBytes sm) (ts_TxBytes sm) then (Inl invalidTrafficTotals, d)
      else (Inr (), d\<lparr>traffic_samples := traffic_samples d @ [sm]\<rparr>))"

definition ListSamples :: "i64 \<Rightarrow> i64 option \<Rightarrow> time \<Rightarrow> db \<Rightarrow> TrafficSample list" where
  "ListSamples serverID nodeID since d =
     sort_key ts_TS (filter (\<lambda>sm. ts_ServerID sm = serverID \<and> ts_NodeID sm = nodeID \<and> ts_TS sm \<ge> since)
       (traffic_samples d))"

section \<open>Queries\<close>

text \<open>SQLite's integer \<^verbatim>\<open>SUM\<close> raises an error when the sum leaves the 64-bit range.\<close>

definition sqlAdd :: "i64 \<Rightarrow> i64 \<Rightarrow> i64 res" where
  "sqlAdd acc x = (if in64 (acc + x) then Inr (acc + x) else Inl (Err ''integer overflow''))"

definition sqlSum :: "i64 list \<Rightarrow> i64 res" where
  "sqlSum xs = foldE sqlAdd 0 xs"

definition sumRows :: "(bucket_key \<times> i64 \<times> i64) list \<Rightarrow> (i64 \<times> i64) res" where
  "sumRows rows =
     bindR (sqlSum (map (fst \<circ> snd) rows)) (\<lambda>up.
     bindR (sqlSum (map (snd \<circ> snd) rows)) (\<lambda>down. Inr (up, down)))"

definition sumRowsChecked :: "(bucket_key \<times> i64 \<times> i64) list \<Rightarrow> (i64 \<times> i64) res" where
  "sumRowsChecked rows =
     bindR (sumRows rows) (\<lambda>(up, down).
       if \<not> ValidTrafficTotals up down then Inl invalidTrafficTotals else Inr (up, down))"

definition rowsOf :: "string \<Rightarrow> (i64 \<Rightarrow> bool) \<Rightarrow> int \<Rightarrow> int \<Rightarrow> db \<Rightarrow> bucket_table" where
  "rowsOf subject ids from to d =
     filter (\<lambda>((b, s, i), _). s = subject \<and> ids i \<and> from \<le> b \<and> b \<le> to) (traffic_daily d)"

definition SumTraffic :: "string \<Rightarrow> i64 \<Rightarrow> time \<Rightarrow> time \<Rightarrow> db \<Rightarrow> (i64 \<times> i64) res" where
  "SumTraffic subject sid from to d =
     sumRowsChecked (rowsOf subject (\<lambda>i. i = sid) (day_of from) (day_of to) d)"

definition SumTrafficIDs :: "string \<Rightarrow> i64 list \<Rightarrow> time \<Rightarrow> time \<Rightarrow> db \<Rightarrow> (i64 \<times> i64) res" where
  "SumTrafficIDs subject ids from to d =
     (if ids = [] then Inr (0, 0)
      else sumRowsChecked (rowsOf subject (\<lambda>i. i \<in> set ids) (day_of from) (day_of to) d))"

text \<open>\<^verbatim>\<open>domain.TrafficBucket\<close> as the queries fill it: the day and the two directions.\<close>

type_synonym TrafficBucket = "int \<times> i64 \<times> i64"

definition checkBucket :: "TrafficBucket list \<Rightarrow> TrafficBucket \<Rightarrow> TrafficBucket list res" where
  "checkBucket out b =
     (case b of (day, up, down) \<Rightarrow>
        if \<not> ValidTrafficTotals up down then Inl invalidTrafficTotals else Inr (out @ [b]))"

definition DailyTraffic :: "string \<Rightarrow> i64 \<Rightarrow> time \<Rightarrow> time \<Rightarrow> db \<Rightarrow> TrafficBucket list res" where
  "DailyTraffic subject sid from to d =
     foldE checkBucket []
       (sort_key fst (map (\<lambda>((b, _, _), up, down). (b, up, down))
         (rowsOf subject (\<lambda>i. i = sid) (day_of from) (day_of to) d)))"

definition HourlyTraffic :: "string \<Rightarrow> i64 \<Rightarrow> time \<Rightarrow> db \<Rightarrow> TrafficBucket list res" where
  "HourlyTraffic subject sid from d =
     foldE checkBucket []
       (sort_key fst (map (\<lambda>((b, _, _), up, down). (b, up, down))
         (filter (\<lambda>((b, s, i), _). s = subject \<and> i = sid \<and> hour_of from \<le> b) (traffic_hourly d))))"

definition groupTotal :: "bucket_table \<Rightarrow> TrafficBucket list \<Rightarrow> int \<Rightarrow> TrafficBucket list res" where
  "groupTotal rows out day =
     bindR (sumRows (filter (\<lambda>((b, _, _), _). b = day) rows))
       (\<lambda>(up, down). checkBucket out (day, up, down))"

definition DailyTotals :: "string \<Rightarrow> time \<Rightarrow> time \<Rightarrow> db \<Rightarrow> TrafficBucket list res" where
  "DailyTotals subject from to d =
     (let rows = rowsOf subject (\<lambda>_. True) (day_of from) (day_of to) d
      in foldE (groupTotal rows) [] (sort (remdups (map (\<lambda>((b, _, _), _). b) rows))))"

definition PruneTraffic :: "time \<Rightarrow> int \<Rightarrow> int \<Rightarrow> db \<Rightarrow> db" where
  "PruneTraffic now sampleRetention hourlyRetention d =
     d\<lparr>traffic_samples := filter (\<lambda>sm. \<not> ts_TS sm < now - sampleRetention) (traffic_samples d),
       traffic_hourly := deleteWhere (\<lambda>((b, _, _), _). b < hour_of (now - hourlyRetention)) (traffic_hourly d)\<rparr>"

section \<open>What a ledger promises\<close>

locale bucket_ledger =
  fixes add :: "'k \<Rightarrow> int \<Rightarrow> int \<Rightarrow> 't \<Rightarrow> 't res"
    and get :: "'t \<Rightarrow> 'k \<Rightarrow> int \<times> int"
    and valid :: "'t \<Rightarrow> bool"
  assumes add_valid: "valid t \<Longrightarrow> in64 a \<Longrightarrow> in64 b \<Longrightarrow> add k a b t = Inr t' \<Longrightarrow> valid t'"
    and add_get: "valid t \<Longrightarrow> in64 a \<Longrightarrow> in64 b \<Longrightarrow> add k a b t = Inr t' \<Longrightarrow>
      get t' k' = (if k' = k then (fst (get t k) + a, snd (get t k) + b) else get t k')"
    and valid_get: "valid t \<Longrightarrow> 0 \<le> fst (get t k) \<and> 0 \<le> snd (get t k) \<and>
      fst (get t k) + snd (get t k) \<le> MaxInt64"
    and add_ok: "valid t \<Longrightarrow> 0 \<le> a \<Longrightarrow> 0 \<le> b \<Longrightarrow>
      fst (get t k) + snd (get t k) + a + b \<le> MaxInt64 \<Longrightarrow> \<exists>t'. add k a b t = Inr t'"
begin

text \<open>A run of additions: the bucket of a key grows by exactly what was added to that key.\<close>

definition post :: "'t \<Rightarrow> 'k \<times> int \<times> int \<Rightarrow> 't res" where
  "post t e = (case e of (k, a, b) \<Rightarrow> add k a b t)"

definition posted :: "('k \<times> int \<times> int) list \<Rightarrow> 'k \<Rightarrow> int \<times> int" where
  "posted es k = (\<Sum>(k', a, b) \<leftarrow> es. if k' = k then a else 0, \<Sum>(k', a, b) \<leftarrow> es. if k' = k then b else 0)"

lemma conservation:
  assumes "valid t" "\<forall>(k, a, b) \<in> set es. in64 a \<and> in64 b" "foldE post t es = Inr t'"
  shows "valid t' \<and> get t' k = (fst (get t k) + fst (posted es k), snd (get t k) + snd (posted es k))"
  using assms
proof (induction es arbitrary: t)
  case Nil
  then show ?case by (simp add: posted_def)
next
  case (Cons e es)
  obtain j a b where e: "e = (j, a, b)" by (cases e) auto
  obtain u where "post t e = Inr u" and u2: "foldE post u es = Inr t'"
    using Cons.prems(3) by (auto simp: bindR_eq_Inr)
  then have u: "add j a b t = Inr u" by (simp add: post_def e)
  have ab: "in64 a" "in64 b" using Cons.prems(2) e by auto
  have vu: "valid u" using Cons.prems(1) ab u by (rule add_valid)
  have gu: "get u k = (if k = j then (fst (get t j) + a, snd (get t j) + b) else get t k)"
    using Cons.prems(1) ab u by (rule add_get)
  have "valid t' \<and> get t' k = (fst (get u k) + fst (posted es k), snd (get u k) + snd (posted es k))"
    using Cons.IH [OF vu _ u2] Cons.prems(2) by simp
  with gu show ?case by (auto simp: posted_def e)
qed

end

definition valid_pair :: "i64 \<times> i64 \<Rightarrow> bool" where
  "valid_pair p \<longleftrightarrow> 0 \<le> fst p \<and> 0 \<le> snd p \<and> fst p + snd p \<le> MaxInt64"

definition valid_buckets :: "bucket_table \<Rightarrow> bool" where
  "valid_buckets t \<longleftrightarrow> keys_ok t \<and> (\<forall>r \<in> set t. valid_pair (snd r))"

lemma valid_buckets_get: "valid_buckets t \<Longrightarrow> valid_pair (bucket_get t k)"
  by (auto simp: valid_buckets_def bucket_get_def valid_pair_def split: option.splits
      dest!: map_of_SomeD)

lemma valid_pair_in64: "valid_pair p \<Longrightarrow> in64 (fst p) \<and> in64 (snd p)"
  by (auto simp: valid_pair_def in64_def)

lemma valid_buckets_upsert:
  "valid_buckets t \<Longrightarrow> valid_pair v \<Longrightarrow> valid_buckets (upsert k v t)"
  unfolding valid_buckets_def by (auto intro: keys_ok_upsert dest!: set_upsert)

lemma bucket_add_Inr:
  assumes "valid_buckets t" "in64 a" "in64 b"
  shows "bucket_add k a b t = Inr t' \<longleftrightarrow>
    0 \<le> a \<and> 0 \<le> b \<and> fst (bucket_get t k) + snd (bucket_get t k) + a + b \<le> MaxInt64 \<and>
    t' = upsert k (fst (bucket_get t k) + a, snd (bucket_get t k) + b) t"
proof -
  obtain x y where g: "bucket_get t k = (x, y)" by (cases "bucket_get t k")
  have v: "valid_pair (x, y)" using valid_buckets_get [OF assms(1), of k] g by simp
  then have xy: "in64 x" "in64 y" using valid_pair_in64 by fastforce+
  have "bucket_add k a b t = Inr t' \<longleftrightarrow>
    (\<exists>u w. addTrafficDirections x y a b = Inr (u, w)) \<and> t' = upsert k (x + a, y + b) t"
    by (auto simp: bucket_add_def g bindR_eq_Inr)
  also have "\<dots> \<longleftrightarrow> 0 \<le> a \<and> 0 \<le> b \<and> x + y + a + b \<le> MaxInt64 \<and> t' = upsert k (x + a, y + b) t"
    using v by (auto simp: addTrafficDirections_iff [OF xy assms(2,3)] valid_pair_def)
  finally show ?thesis by (simp add: g)
qed

interpretation bucket: bucket_ledger bucket_add bucket_get valid_buckets
proof (unfold_locales, goal_cases)
  case (1 t a b k t')
  then show ?case using valid_buckets_get [OF 1(1), of k]
    by (auto simp: bucket_add_Inr valid_pair_def intro!: valid_buckets_upsert)
next
  case (2 t a b k t' k')
  then show ?case by (auto simp: bucket_add_Inr) (auto simp: bucket_get_def)
next
  case (3 t k)
  then show ?case using valid_buckets_get [OF 3, of k] by (simp add: valid_pair_def)
next
  case (4 t a b k)
  then have "in64 a" "in64 b" using valid_buckets_get [OF 4(1), of k]
    by (auto simp: valid_pair_def in64_def)
  with 4 show ?case by (simp add: bucket_add_Inr)
qed

lemma AddTraffic_bucket_eq:
  "isOk (AddTraffic_bucket k a b t) = isOk (bucket_add k a b t) \<and>
   (isOk (bucket_add k a b t) \<longrightarrow> AddTraffic_bucket k a b t = bucket_add k a b t)"
  by (cases "bucket_get t k")
    (auto simp: AddTraffic_bucket_def bucket_add_def validTrafficAddition_iff isOk_iff bindR_eq_Inr)

end
