(* ===== verification/Meter.thy ===== *)
theory Meter
  imports Ledger
begin

text \<open>
  From cumulative counters to deltas: the identity of a boot and of a node's meter
  (\<^verbatim>\<open>counter_identity.go\<close>) and the closure \<^verbatim>\<open>delta\<close> of \<^verbatim>\<open>Ingest\<close>
  (\<^verbatim>\<open>internal/traffic/ingest.go\<close>), which turns one reading into the traffic since the
  last accepted reading and moves the baseline. The closure's captured variables are the
  record \<open>meter_ctx\<close>; its effects are on the baselines and on the set of accepted keys.
\<close>

section \<open>Boot epochs\<close>

definition linuxBootEpoch :: "string \<Rightarrow> string" where
  "linuxBootEpoch epoch =
     (case Cut epoch CHR '':'' of (boot, nonce, ok) \<Rightarrow>
        if \<not> ok \<or> nonce = '''' \<or> length boot \<noteq> 36 \<or> boot ! 8 \<noteq> CHR ''-'' \<or> boot ! 13 \<noteq> CHR ''-'' \<or>
           boot ! 18 \<noteq> CHR ''-'' \<or> boot ! 23 \<noteq> CHR ''-''
        then ''''
        else if hexDecodedLen (filter (\<lambda>c. c \<noteq> CHR ''-'') boot) \<noteq> Some 16 then ''''
        else map toLowerChar boot)"

section \<open>One live meter per node\<close>

text \<open>The readings of each known node, in the order the nodes first appear.\<close>

definition groupReading ::
  "(i64 \<Rightarrow> Node option) \<Rightarrow> (int \<Rightarrow> Node option) \<Rightarrow> (i64 \<times> PortCounter list) list \<Rightarrow> PortCounter \<Rightarrow>
   (i64 \<times> PortCounter list) list" where
  "groupReading byID byPort byNode counter =
     (case (if pc_NodeID counter > 0 then byID (pc_NodeID counter) else byPort (pc_Port counter)) of
        None \<Rightarrow> byNode
      | Some node \<Rightarrow>
          upsert (nd_ID node)
            ((case lookup byNode (nd_ID node) of None \<Rightarrow> [] | Some rs \<Rightarrow> rs) @ [counter]) byNode)"

definition migrationPair :: "i64 \<Rightarrow> PortCounter \<Rightarrow> PortCounter \<Rightarrow> bool" where
  "migrationPair nid r0 r1 =
     (let (legacy, identified) = (if pc_NodeID r1 = 0 then (r1, r0) else (r0, r1))
      in \<not> (pc_NodeID legacy \<noteq> 0 \<or> pc_Source legacy \<noteq> '''' \<or> pc_NodeID identified \<noteq> nid \<or>
            pc_Source identified \<noteq> ''systemd-legacy-v1'' \<or> pc_FromZero identified \<or>
            pc_Port legacy \<noteq> pc_Port identified \<or> pc_Rx legacy \<noteq> pc_Rx identified \<or>
            pc_Tx legacy \<noteq> pc_Tx identified))"

definition checkReadings :: "i64 list \<Rightarrow> i64 \<times> PortCounter list \<Rightarrow> i64 list res" where
  "checkReadings baselineOnly e =
     (case e of (nid, readings) \<Rightarrow>
      case readings of
        [r0, r1] \<Rightarrow>
          (if migrationPair nid r0 r1 then Inr (baselineOnly @ [nid])
           else Inl (Err ''overlapping node meter sources''))
      | _ \<Rightarrow> (if length readings < 2 then Inr baselineOnly
              else Inl (Err ''overlapping node meter sources'')))"

definition nodeCounterBaselines ::
  "PortCounter list \<Rightarrow> (i64 \<Rightarrow> Node option) \<Rightarrow> (int \<Rightarrow> Node option) \<Rightarrow> i64 list res" where
  "nodeCounterBaselines counters byID byPort =
     foldE checkReadings [] (foldl (groupReading byID byPort) [] counters)"

section \<open>The delta of one reading\<close>

record meter_ctx =
  mc_Server :: i64
  mc_TS :: time
  mc_Identified :: bool
  mc_Durable :: bool
  mc_BaselineOnly :: "i64 list"

record meter =
  m_db :: db
  m_accepted :: "string set"

definition sameEpoch :: "string \<Rightarrow> string \<Rightarrow> string \<Rightarrow> bool" where
  "sameEpoch key oldEpoch ep \<longleftrightarrow>
     oldEpoch = ep \<or> (key = ''nic'' \<and> SplitN2_0 oldEpoch CHR '':'' = SplitN2_0 ep CHR '':'')"

definition row_epoch :: "CounterState option \<Rightarrow> string" where
  "row_epoch r = (case r of None \<Rightarrow> '''' | Some c \<Rightarrow> cs_Epoch c)"

definition row_rx :: "CounterState option \<Rightarrow> i64" where
  "row_rx r = (case r of None \<Rightarrow> 0 | Some c \<Rightarrow> cs_LastRx c)"

definition row_tx :: "CounterState option \<Rightarrow> i64" where
  "row_tx r = (case r of None \<Rightarrow> 0 | Some c \<Rightarrow> cs_LastTx c)"

lemma row_simps [simp]:
  "row_epoch None = ''''" "row_epoch (Some c) = cs_Epoch c"
  "row_rx None = 0" "row_rx (Some c) = cs_LastRx c"
  "row_tx None = 0" "row_tx (Some c) = cs_LastTx c"
  by (simp_all add: row_epoch_def row_rx_def row_tx_def)

text \<open>An early return with the given \<^verbatim>\<open>ok\<close>, or going on with a baseline timestamp.\<close>

datatype verdict = Return bool | Continue time

definition staleCheck :: "meter_ctx \<Rightarrow> bool \<Rightarrow> CounterState option \<Rightarrow> i64 \<Rightarrow> i64 \<Rightarrow> verdict res" where
  "staleCheck c same row rx tx =
     (case row of None \<Rightarrow> Inr (Continue (mc_TS c))
      | Some old \<Rightarrow>
        (case cs_UpdatedAt old of None \<Rightarrow> Inr (Continue (mc_TS c))
         | Some prev \<Rightarrow>
           let ts = mc_TS c; oldRx = cs_LastRx old; oldTx = cs_LastTx old
           in if ts = prev \<and> same \<and> rx = oldRx \<and> tx = oldTx then Inr (Return True)
              else if ts = prev \<and> same \<and> \<not> mc_Durable c \<and> mc_Identified c \<and> (rx < oldRx \<or> tx < oldTx)
              then Inl (Err ''traffic sample timestamp reused with different counters'')
              else if ts < prev then
                (if \<not> mc_Durable c then Inr (Return False)
                 else if \<not> same \<or> rx < oldRx \<or> tx < oldTx
                 then Inl (Err ''final meter conflicts with newer baseline'')
                 else Inr (Continue prev))
              else Inr (Continue ts)))"

definition retiredBoot :: "meter_ctx \<Rightarrow> string \<Rightarrow> string \<Rightarrow> bool \<Rightarrow> CounterState option \<Rightarrow> db \<Rightarrow> bool" where
  "retiredBoot c key ep same row d \<longleftrightarrow>
     key = ''nic'' \<and> linuxBootEpoch ep \<noteq> '''' \<and> row \<noteq> None \<and> \<not> same \<and>
     lookup (counter_state d) (mc_Server c, ''nic-boot:'' @ linuxBootEpoch ep) \<noteq> None"

definition computeDelta ::
  "string \<Rightarrow> string \<Rightarrow> bool \<Rightarrow> bool \<Rightarrow> CounterState option \<Rightarrow> i64 \<Rightarrow> i64 \<Rightarrow> (i64 \<times> i64 \<times> bool) res" where
  "computeDelta boot oldBoot fromZero same row rx tx =
     (let found = row \<noteq> None; oldRx = row_rx row; oldTx = row_tx row
      in if found \<and> same then
           (if rx < oldRx \<or> tx < oldTx then
              (if fromZero then Inl (Err ''counter reset without a new epoch'')
               else
                 let dr = sub64 rx oldRx; dt = sub64 tx oldTx
                 in Inr (if dr < 0 then rx else dr, if dt < 0 then tx else dt, True))
            else Inr (sub64 rx oldRx, sub64 tx oldTx, True))
         else if fromZero \<or> (found \<and> boot \<noteq> '''' \<and> oldBoot \<noteq> '''' \<and> boot \<noteq> oldBoot) \<or>
                 (found \<and> (rx < oldRx \<or> tx < oldTx))
         then Inr (rx, tx, True)
         else Inr (0, 0, False))"

definition legacyKey :: "i64 \<Rightarrow> string" where
  "legacyKey nid = ''node:'' @ show_int nid @ '':systemd-legacy-v1:''"

definition settlesOnlyBaseline :: "meter_ctx \<Rightarrow> string \<Rightarrow> bool" where
  "settlesOnlyBaseline c key = list_ex (\<lambda>nid. HasPrefix key (legacyKey nid)) (mc_BaselineOnly c)"

definition writeBaseline ::
  "meter_ctx \<Rightarrow> string \<Rightarrow> string \<Rightarrow> bool \<Rightarrow> CounterState option \<Rightarrow> i64 \<Rightarrow> i64 \<Rightarrow> time \<Rightarrow> db \<Rightarrow> db" where
  "writeBaseline c key ep same row rx tx baselineTS d =
     (let new = \<lparr>cs_Epoch = ep, cs_LastRx = rx, cs_LastTx = tx, cs_UpdatedAt = Some baselineTS\<rparr>;
          boot = (if key = ''nic'' then linuxBootEpoch ep else '''');
          oldBoot = (if key = ''nic'' then linuxBootEpoch (row_epoch row) else '''');
          t1 = upsert (mc_Server c, key) new (counter_state d);
          t2 = (if boot \<noteq> '''' \<and> oldBoot \<noteq> '''' \<and> \<not> same
                then (case row of None \<Rightarrow> t1
                      | Some old \<Rightarrow> insertNew (mc_Server c, ''nic-boot:'' @ oldBoot) old t1)
                else t1);
          t3 = (if boot \<noteq> '''' then upsert (mc_Server c, ''nic-boot:'' @ boot) new t2 else t2)
      in d\<lparr>counter_state := t3\<rparr>)"

definition delta ::
  "meter_ctx \<Rightarrow> string \<Rightarrow> string \<Rightarrow> i64 \<Rightarrow> i64 \<Rightarrow> bool \<Rightarrow> 'z meter_scheme \<Rightarrow>
   ((i64 \<times> i64 \<times> bool) \<times> 'z meter_scheme) res" where
  "delta c key ep rx tx fromZero m =
     (if rx < 0 \<or> tx < 0 \<or> rx > maxCounter \<or> tx > maxCounter
      then Inl (Err ''invalid traffic counters'')
      else
        let row = lookup (counter_state (m_db m)) (mc_Server c, key);
            same = sameEpoch key (row_epoch row) ep;
            boot = (if key = ''nic'' then linuxBootEpoch ep else '''');
            oldBoot = (if key = ''nic'' then linuxBootEpoch (row_epoch row) else '''')
        in bindR (staleCheck c same row rx tx) (\<lambda>v.
           case v of
             Return ok \<Rightarrow> Inr ((0, 0, ok), m)
           | Continue baselineTS \<Rightarrow>
               if retiredBoot c key ep same row (m_db m) then
                 (if mc_Durable c then Inl (Err ''billing snapshot belongs to a retired NIC boot'')
                  else Inr ((0, 0, False), m))
               else
                 bindR (computeDelta boot oldBoot fromZero same row rx tx) (\<lambda>r.
                   Inr (if settlesOnlyBaseline c key then (0, 0, False) else r,
                     m\<lparr>m_db := writeBaseline c key ep same row rx tx baselineTS (m_db m),
                       m_accepted := insert key (m_accepted m)\<rparr>))))"

section \<open>Case analysis\<close>

lemma delta_cases:
  assumes "delta c key ep rx tx fz m = Inr (r, m')"
  obtains (unchanged) ok where "r = (0, 0, ok)" "m' = m"
  | (moved) row same ts r0 where
      "row = lookup (counter_state (m_db m)) (mc_Server c, key)"
      "same = sameEpoch key (row_epoch row) ep"
      "staleCheck c same row rx tx = Inr (Continue ts)"
      "\<not> retiredBoot c key ep same row (m_db m)"
      "computeDelta (if key = ''nic'' then linuxBootEpoch ep else '''')
         (if key = ''nic'' then linuxBootEpoch (row_epoch row) else '''') fz same row rx tx = Inr r0"
      "r = (if settlesOnlyBaseline c key then (0, 0, False) else r0)"
      "m' = m\<lparr>m_db := writeBaseline c key ep same row rx tx ts (m_db m),
              m_accepted := insert key (m_accepted m)\<rparr>"
      "0 \<le> rx" "0 \<le> tx" "rx \<le> maxCounter" "tx \<le> maxCounter"
proof -
  define row where "row = lookup (counter_state (m_db m)) (mc_Server c, key)"
  define same where "same = sameEpoch key (row_epoch row) ep"
  define boot where "boot = (if key = ''nic'' then linuxBootEpoch ep else '''')"
  define old where "old = (if key = ''nic'' then linuxBootEpoch (row_epoch row) else '''')"
  note folded = row_def [symmetric] same_def [symmetric] boot_def [symmetric] old_def [symmetric]
  have g: "0 \<le> rx" "0 \<le> tx" "rx \<le> maxCounter" "tx \<le> maxCounter"
    using assms by (auto simp: delta_def split: if_splits)
  then have d: "\<not> (rx < 0 \<or> tx < 0 \<or> rx > maxCounter \<or> tx > maxCounter)" by linarith
  note run = assms [unfolded delta_def if_not_P [OF d] Let_def folded]
  obtain v where v: "staleCheck c same row rx tx = Inr v" using run by (rule bindR_InrE)
  note run2 = run [unfolded v bindR.simps]
  show ?thesis
  proof (cases v)
    case (Return ok)
    with run2 show ?thesis by (auto intro: unchanged)
  next
    case (Continue ts)
    show ?thesis
    proof (cases "retiredBoot c key ep same row (m_db m)")
      case True
      with run2 Continue show ?thesis by (auto split: if_splits intro: unchanged)
    next
      case False
      with run2 Continue obtain r0 where
        r0: "computeDelta boot old fz same row rx tx = Inr r0"
          "r = (if settlesOnlyBaseline c key then (0, 0, False) else r0)"
          "m' = m\<lparr>m_db := writeBaseline c key ep same row rx tx ts (m_db m),
              m_accepted := insert key (m_accepted m)\<rparr>"
        by (auto elim!: bindR_InrE)
      show ?thesis
        by (rule moved [OF row_def same_def _ False r0(1) [unfolded boot_def old_def] r0(2,3) g])
          (use v Continue in simp)
    qed
  qed
qed

lemma writeBaseline_frame:
  "traffic_hourly (writeBaseline c key ep same row rx tx ts d) = traffic_hourly d"
  "traffic_daily (writeBaseline c key ep same row rx tx ts d) = traffic_daily d"
  "shares (writeBaseline c key ep same row rx tx ts d) = shares d"
  "meter_settlements (writeBaseline c key ep same row rx tx ts d) = meter_settlements d"
  by (simp_all add: writeBaseline_def Let_def)

lemma lookup_writeBaseline_self:
  "key \<noteq> '''' \<Longrightarrow> lookup (counter_state (writeBaseline c key ep same row rx tx ts d)) (mc_Server c, key) =
     Some \<lparr>cs_Epoch = ep, cs_LastRx = rx, cs_LastTx = tx, cs_UpdatedAt = Some ts\<rparr>"
  by (cases row) (auto simp: writeBaseline_def Let_def lookup_insertNew)

section \<open>Baselines stay in range\<close>

definition valid_counter :: "CounterState \<Rightarrow> bool" where
  "valid_counter r \<longleftrightarrow> 0 \<le> cs_LastRx r \<and> cs_LastRx r \<le> maxCounter \<and>
     0 \<le> cs_LastTx r \<and> cs_LastTx r \<le> maxCounter"

definition valid_counter_table :: "('k \<times> CounterState) list \<Rightarrow> bool" where
  "valid_counter_table t \<longleftrightarrow> keys_ok t \<and> (\<forall>r \<in> set t. valid_counter (snd r))"

abbreviation valid_counters :: "db \<Rightarrow> bool" where
  "valid_counters d \<equiv> valid_counter_table (counter_state d)"

lemma valid_counters_row:
  "valid_counter_table t \<Longrightarrow> lookup t k = Some r \<Longrightarrow> valid_counter r"
  using map_of_SomeD [of t k r] by (auto simp: valid_counter_table_def)

lemma valid_counters_row_bounds:
  assumes "valid_counter_table t"
  shows "0 \<le> row_rx (lookup t k) \<and> row_rx (lookup t k) \<le> maxCounter \<and>
    0 \<le> row_tx (lookup t k) \<and> row_tx (lookup t k) \<le> maxCounter"
  using valid_counters_row [OF assms, of k]
  by (cases "lookup t k") (auto simp: valid_counter_def)

lemma valid_counters_upsert [intro]:
  "valid_counter_table t \<Longrightarrow> valid_counter v \<Longrightarrow> valid_counter_table (upsert k v t)"
  by (auto simp: valid_counter_table_def dest!: set_upsert)

lemma valid_counters_insertNew [intro]:
  "valid_counter_table t \<Longrightarrow> valid_counter v \<Longrightarrow> valid_counter_table (insertNew k v t)"
  by (auto simp: valid_counter_table_def insertNew_def map_of_eq_None_iff keys_ok_def
      split: option.splits)

lemma writeBaseline_valid:
  assumes "valid_counters d" "0 \<le> rx" "0 \<le> tx" "rx \<le> maxCounter" "tx \<le> maxCounter"
    and row: "row = lookup (counter_state d) (mc_Server c, key)"
  shows "valid_counters (writeBaseline c key ep same row rx tx ts d)"
proof -
  have v: "valid_counter \<lparr>cs_Epoch = ep, cs_LastRx = rx, cs_LastTx = tx, cs_UpdatedAt = Some ts\<rparr>"
    using assms by (simp add: valid_counter_def)
  show ?thesis
  proof (cases row)
    case None
    then show ?thesis using assms(1) v by (auto simp: writeBaseline_def Let_def)
  next
    case (Some old)
    then have "valid_counter old" using valid_counters_row [OF assms(1)] row by metis
    with Some show ?thesis using assms(1) v by (auto simp: writeBaseline_def Let_def)
  qed
qed

lemma delta_valid:
  assumes "delta c key ep rx tx fz m = Inr (r, m')" "valid_counters (m_db m)"
  shows "valid_counters (m_db m')"
  using assms by (cases rule: delta_cases) (auto intro: writeBaseline_valid)

lemma delta_frame:
  assumes "delta c key ep rx tx fz m = Inr (r, m')"
  shows "traffic_hourly (m_db m') = traffic_hourly (m_db m)"
    "traffic_daily (m_db m') = traffic_daily (m_db m)" "shares (m_db m') = shares (m_db m)"
    "meter_settlements (m_db m') = meter_settlements (m_db m)"
  using assms by (cases rule: delta_cases; simp add: writeBaseline_frame)+

section \<open>A delta is never negative and never exceeds the reading\<close>

lemma computeDelta_bounds:
  assumes "computeDelta boot oldBoot fz same row rx tx = Inr (dr, dt, ok)"
    and "0 \<le> rx" "0 \<le> tx" "rx \<le> maxCounter" "tx \<le> maxCounter"
    and "0 \<le> row_rx row" "row_rx row \<le> maxCounter" "0 \<le> row_tx row" "row_tx row \<le> maxCounter"
  shows "0 \<le> dr \<and> dr \<le> rx \<and> 0 \<le> dt \<and> dt \<le> tx"
proof -
  have "sub64 rx (row_rx row) = rx - row_rx row" "sub64 tx (row_tx row) = tx - row_tx row"
    using assms by (auto intro!: sub64_nonneg_exact)
  then show ?thesis using assms
    by (auto simp: computeDelta_def Let_def split: if_splits)
qed

lemma delta_bounds:
  assumes "delta c key ep rx tx fz m = Inr ((dr, dt, ok), m')" "valid_counters (m_db m)"
  shows "0 \<le> dr \<and> 0 \<le> dt \<and> dr \<le> maxCounter \<and> dt \<le> maxCounter"
  using assms(1)
proof (cases rule: delta_cases)
  case (unchanged ok)
  then show ?thesis by simp
next
  case (moved row same ts r0)
  obtain a b k where r0: "r0 = (a, b, k)" by (cases r0)
  note b = valid_counters_row_bounds [OF assms(2), of "(mc_Server c, key)"]
  have "0 \<le> a \<and> a \<le> rx \<and> 0 \<le> b \<and> b \<le> tx"
    by (rule computeDelta_bounds [OF moved(5) [unfolded r0]]) (use moved b in auto)
  with moved r0 show ?thesis by (auto split: if_splits)
qed

section \<open>Conservation: a meter read from zero is billed exactly once\<close>

text \<open>
  For a counter that starts at zero with its key (every identified node and forward
  counter) the delta is exactly the movement of the baseline, whatever mixture of fresh,
  repeated, late or frozen reports arrives.
\<close>

lemma computeDelta_fromZero:
  assumes "computeDelta boot oldBoot True same row rx tx = Inr (dr, dt, ok)"
    and "row \<noteq> None \<Longrightarrow> same"
    and "0 \<le> rx" "0 \<le> tx" "rx \<le> maxCounter" "tx \<le> maxCounter"
    and "0 \<le> row_rx row" "row_rx row \<le> maxCounter" "0 \<le> row_tx row" "row_tx row \<le> maxCounter"
  shows "dr = rx - row_rx row \<and> dt = tx - row_tx row \<and> ok"
proof -
  have s: "sub64 rx (row_rx row) = rx - row_rx row" "sub64 tx (row_tx row) = tx - row_tx row"
    using assms by (auto intro!: sub64_nonneg_exact)
  show ?thesis
  proof (cases row)
    case None
    then show ?thesis using assms(1) by (simp add: computeDelta_def Let_def)
  next
    case (Some r)
    then show ?thesis using assms(1,2) s
      by (auto simp: computeDelta_def Let_def split: if_splits)
  qed
qed

definition row_of :: "meter_ctx \<Rightarrow> string \<Rightarrow> 'z meter_scheme \<Rightarrow> CounterState option" where
  "row_of c key m = lookup (counter_state (m_db m)) (mc_Server c, key)"

definition keyed_epoch :: "meter_ctx \<Rightarrow> string \<Rightarrow> string \<Rightarrow> 'z meter_scheme \<Rightarrow> bool" where
  "keyed_epoch c key ep m \<longleftrightarrow>
     valid_counters (m_db m) \<and> (\<forall>r. row_of c key m = Some r \<longrightarrow> cs_Epoch r = ep)"

lemma delta_conserves:
  assumes d: "delta c key ep rx tx True m = Inr ((dr, dt, ok), m')"
    and k: "keyed_epoch c key ep m" and "key \<noteq> ''''" and s: "\<not> settlesOnlyBaseline c key"
  shows "dr = row_rx (row_of c key m') - row_rx (row_of c key m) \<and>
    dt = row_tx (row_of c key m') - row_tx (row_of c key m) \<and> keyed_epoch c key ep m'"
  using d
proof (cases rule: delta_cases)
  case (unchanged ok)
  then show ?thesis using k by simp
next
  case (moved row same ts r0)
  have v: "valid_counters (m_db m)" using k by (simp add: keyed_epoch_def)
  note b = valid_counters_row_bounds [OF v, of "(mc_Server c, key)"]
  have "row \<noteq> None \<Longrightarrow> same"
    using moved(1,2) k by (auto simp: keyed_epoch_def row_of_def sameEpoch_def)
  then have "dr = rx - row_rx row \<and> dt = tx - row_tx row \<and> ok"
    using computeDelta_fromZero [of _ _ same row rx tx dr dt ok] moved s b by auto
  moreover have "row_of c key m' =
    Some \<lparr>cs_Epoch = ep, cs_LastRx = rx, cs_LastTx = tx, cs_UpdatedAt = Some ts\<rparr>"
    using moved \<open>key \<noteq> ''''\<close> by (simp add: row_of_def lookup_writeBaseline_self)
  moreover have "valid_counters (m_db m')" using delta_valid [OF d v] .
  ultimately show ?thesis using moved(1) by (simp add: keyed_epoch_def row_of_def)
qed

section \<open>Replays\<close>

text \<open>Once a reading has been accepted, the same reading moves nothing and bills nothing.\<close>

lemma sameEpoch_refl [simp]: "sameEpoch key ep ep"
  by (simp add: sameEpoch_def)

lemma computeDelta_repeat:
  assumes "cs_LastRx old = rx" "cs_LastTx old = tx"
  shows "computeDelta boot oldBoot fz True (Some old) rx tx = Inr (0, 0, True)"
  using assms by (simp add: computeDelta_def sub64_def wrap64_id in64_def)

lemma lookup_writeBaseline_boot:
  assumes "key = ''nic''" "linuxBootEpoch ep \<noteq> ''''"
  shows "lookup (counter_state (writeBaseline c key ep same row rx tx ts d))
      (mc_Server c, ''nic-boot:'' @ linuxBootEpoch ep) =
    Some \<lparr>cs_Epoch = ep, cs_LastRx = rx, cs_LastTx = tx, cs_UpdatedAt = Some ts\<rparr>"
  using assms by (simp add: writeBaseline_def Let_def)

lemma writeBaseline_repeat:
  assumes "lookup (counter_state d) (mc_Server c, key) = Some new"
    and "key = ''nic'' \<Longrightarrow> linuxBootEpoch ep \<noteq> '''' \<Longrightarrow>
      lookup (counter_state d) (mc_Server c, ''nic-boot:'' @ linuxBootEpoch ep) = Some new"
    and "new = \<lparr>cs_Epoch = ep, cs_LastRx = rx, cs_LastTx = tx, cs_UpdatedAt = Some ts\<rparr>"
  shows "writeBaseline c key ep True (Some new) rx tx ts d = d"
  using assms by (auto simp: writeBaseline_def Let_def update_triv)

lemma staleCheck_after:
  assumes "staleCheck c same row rx tx = Inr (Continue ts)"
    and "new = \<lparr>cs_Epoch = ep, cs_LastRx = rx, cs_LastTx = tx, cs_UpdatedAt = Some ts\<rparr>"
  shows "staleCheck c True (Some new) rx tx = Inr (Return True) \<or>
    staleCheck c True (Some new) rx tx = Inr (Continue ts)"
  using assms by (auto simp: staleCheck_def Let_def split: option.splits if_splits)

lemma delta_repeat:
  assumes "delta c key ep rx tx fz m = Inr (r, m')" "key \<noteq> ''''"
  shows "\<exists>ok. delta c key ep rx tx fz m' = Inr ((0, 0, ok), m')"
  using assms(1)
proof (cases rule: delta_cases)
  case (unchanged ok)
  then show ?thesis using assms(1) by auto
next
  case (moved row same ts r0)
  define new where "new = \<lparr>cs_Epoch = ep, cs_LastRx = rx, cs_LastTx = tx, cs_UpdatedAt = Some ts\<rparr>"
  have l: "lookup (counter_state (m_db m')) (mc_Server c, key) = Some new"
    using moved assms(2) by (simp add: lookup_writeBaseline_self new_def)
  have b: "key = ''nic'' \<Longrightarrow> linuxBootEpoch ep \<noteq> '''' \<Longrightarrow>
      lookup (counter_state (m_db m')) (mc_Server c, ''nic-boot:'' @ linuxBootEpoch ep) = Some new"
    using lookup_writeBaseline_boot [of key ep c same row rx tx ts "m_db m"] moved(7)
    by (simp add: new_def)
  have w: "writeBaseline c key ep True (Some new) rx tx ts (m_db m') = m_db m'"
    using l b new_def by (rule writeBaseline_repeat)
  have a: "key \<in> m_accepted m'" using moved by simp
  have sm: "sameEpoch key (row_epoch (Some new)) ep" by (simp add: new_def)
  have cd: "computeDelta bo ob fz True (Some new) rx tx = Inr (0, 0, True)" for bo ob
    by (rule computeDelta_repeat) (simp_all add: new_def)
  have nr: "\<not> retiredBoot c key ep True (Some new) (m_db m')" by (simp add: retiredBoot_def)
  have g: "\<not> (rx < 0 \<or> tx < 0 \<or> rx > maxCounter \<or> tx > maxCounter)" using moved by linarith
  have i: "m'\<lparr>m_accepted := insert key (m_accepted m')\<rparr> = m'"
    using a by (simp add: insert_absorb)
  note run = delta_def [of c key ep rx tx fz m', unfolded if_not_P [OF g] Let_def l eqTrueI [OF sm]]
  from staleCheck_after [OF moved(3) new_def] show ?thesis
  proof
    assume "staleCheck c True (Some new) rx tx = Inr (Return True)"
    then show ?thesis by (auto simp: run)
  next
    assume "staleCheck c True (Some new) rx tx = Inr (Continue ts)"
    then show ?thesis by (auto simp: run nr cd w i)
  qed
qed

section \<open>A retired boot never bills again\<close>

text \<open>
  A report from a boot that has been left behind (its epoch has a \<^verbatim>\<open>nic-boot\<close> row, but it
  is not the epoch of the current baseline) is dropped, or refused when it is durable.
\<close>

lemma delta_retired:
  assumes "lookup (counter_state (m_db m)) (mc_Server c, ''nic'') = Some old"
    and "\<not> sameEpoch ''nic'' (cs_Epoch old) ep" "linuxBootEpoch ep \<noteq> ''''"
    and "lookup (counter_state (m_db m)) (mc_Server c, ''nic-boot:'' @ linuxBootEpoch ep) \<noteq> None"
    and "delta c ''nic'' ep rx tx fz m = Inr (r, m')"
  shows "\<not> mc_Durable c \<and> r = (0, 0, False) \<and> m' = m"
proof -
  have rb: "retiredBoot c ''nic'' ep False (Some old) (m_db m)"
    using assms by (simp add: retiredBoot_def)
  have "\<not> (rx < 0 \<or> tx < 0 \<or> rx > maxCounter \<or> tx > maxCounter)"
    using assms(5) by (auto simp: delta_def split: if_splits)
  note run = assms(5) [unfolded delta_def if_not_P [OF this] Let_def assms(1) row_simps]
  from run obtain v where v: "staleCheck c False (Some old) rx tx = Inr v"
    using assms(2) by (auto elim: bindR_InrE)
  then have "v = Return False \<and> \<not> mc_Durable c \<or> (\<exists>ts. v = Continue ts)"
    by (auto simp: staleCheck_def Let_def split: option.splits if_splits)
  with run v rb assms(2) show ?thesis by (auto split: if_splits)
qed

end
