(* ===== verification/Heartbeat.thy ===== *)
theory Heartbeat
  imports Meter
begin

text \<open>
  One heartbeat on its way into the store (\<^verbatim>\<open>Ingest\<close> of \<^verbatim>\<open>internal/traffic/ingest.go\<close>): the
  report, the result the caller gets, and the closures \<^verbatim>\<open>add\<close>, \<^verbatim>\<open>sample\<close> and \<^verbatim>\<open>legacy\<close> that
  the settlement code shares. What the closures capture and change is the record \<open>run\<close>;
  what they only read is the record \<open>ictx\<close>.
\<close>

section \<open>The report and the result\<close>

text \<open>\<^verbatim>\<open>agentproto.Metrics\<close> and \<^verbatim>\<open>agentproto.Heartbeat\<close>: the fields accounting reads.\<close>

record Metrics =
  me_NetRx :: i64
  me_NetTx :: i64
  me_Network :: "NetworkSnapshot option"

definition no_metrics :: Metrics where
  "no_metrics = \<lparr>me_NetRx = 0, me_NetTx = 0, me_Network = None\<rparr>"

record Heartbeat =
  hb_NetworkBillingHeld :: bool
  hb_NetworkBillingRevision :: i64
  hb_NetworkBillingLegacy :: "LegacyNetworkCounters option"
  hb_NetworkBillingSwitch :: "NetworkBillingSwitch option"
  hb_FinalMeters :: "MeterSettlement option"
  hb_Epoch :: string
  hb_TS :: time
  hb_Metrics :: Metrics
  hb_Ports :: "PortCounter list"
  hb_ForwardCounters :: "ForwardCounter list"
  hb_ForwardReceipt :: "ForwardReceipt option"

record ShareDelta =
  sd_PeriodReset :: bool
  sd_ShareID :: i64
  sd_Up :: i64
  sd_Down :: i64

record Result =
  rs_ForwardReceiptAck :: string
  rs_NetworkBillingAck :: string
  rs_FinalMeterAck :: string
  rs_ServerUp :: i64
  rs_ServerDown :: i64
  rs_NodeDeltas :: "(i64 \<times> i64 \<times> i64) list"
  rs_Shares :: "ShareDelta list"
  rs_Reset :: bool

definition no_result :: Result where
  "no_result = \<lparr>rs_ForwardReceiptAck = '''', rs_NetworkBillingAck = '''', rs_FinalMeterAck = '''',
     rs_ServerUp = 0, rs_ServerDown = 0, rs_NodeDeltas = [], rs_Shares = [], rs_Reset = False\<rparr>"

record run = meter +
  r_res :: Result

text \<open>
  \<open>ic_order\<close> is the order in which a Go map with the given keys is iterated: any
  rearrangement of them.
\<close>

record ictx =
  ic_env :: env
  ic_meter :: meter_ctx
  ic_hb :: Heartbeat
  ic_now :: time
  ic_epoch :: string
  ic_byID :: "i64 \<Rightarrow> Node option"
  ic_byPort :: "int \<Rightarrow> Node option"
  ic_order :: "i64 list \<Rightarrow> i64 list"

abbreviation ic_server :: "ictx \<Rightarrow> i64" where
  "ic_server c \<equiv> mc_Server (ic_meter c)"

abbreviation ic_ts :: "ictx \<Rightarrow> time" where
  "ic_ts c \<equiv> mc_TS (ic_meter c)"

abbreviation ic_switch :: "ictx \<Rightarrow> NetworkBillingSwitch option" where
  "ic_switch c \<equiv> hb_NetworkBillingSwitch (ic_hb c)"

lemmas subjects [simp] = SubjectServer_def SubjectNode_def SubjectShare_def SubjectForward_def

section \<open>The closures of the settlement transaction\<close>

definition add :: "ictx \<Rightarrow> string \<Rightarrow> i64 \<Rightarrow> i64 \<Rightarrow> i64 \<Rightarrow> 'z meter_scheme \<Rightarrow> 'z meter_scheme res" where
  "add c subject sid rx tx s =
     bindR (ingest_add (ic_ts c) subject sid rx tx (m_db s)) (\<lambda>d. Inr (s\<lparr>m_db := d\<rparr>))"

definition sample :: "ictx \<Rightarrow> i64 option \<Rightarrow> i64 \<Rightarrow> i64 \<Rightarrow> 'z meter_scheme \<Rightarrow> 'z meter_scheme res" where
  "sample c node rx tx s =
     (if \<not> ValidTrafficTotals rx tx then Inl (Err ''traffic sample totals overflow or are invalid'')
      else
        let row = \<lparr>ts_ServerID = ic_server c, ts_NodeID = node, ts_TS = ic_ts c,
                   ts_RxBytes = rx, ts_TxBytes = tx\<rparr>;
            s1 = s\<lparr>m_db := (m_db s)\<lparr>traffic_samples := traffic_samples (m_db s) @ [row]\<rparr>\<rparr>
        in case node of
             Some nodeID \<Rightarrow> add c SubjectNode nodeID 0 0 s1
           | None \<Rightarrow> add c SubjectServer (ic_server c) 0 0 s1)"

definition legacy :: "ictx \<Rightarrow> run \<Rightarrow> (bool \<times> run) res" where
  "legacy c s =
     (let me = hb_Metrics (ic_hb c)
      in bindR
        (if me_NetRx me > 0 \<or> me_NetTx me > 0 then
           bindR (delta (ic_meter c) ''nic'' (ic_epoch c) (me_NetRx me) (me_NetTx me) False s)
             (\<lambda>((rx, tx, ok), s1).
               if ok then
                 add c SubjectServer (ic_server c) rx tx
                   (s1\<lparr>r_res := (r_res s1)\<lparr>rs_ServerUp := rx, rs_ServerDown := tx\<rparr>\<rparr>)
               else Inr (s1\<lparr>r_res := (r_res s1)\<lparr>rs_Reset := True\<rparr>\<rparr>))
         else Inr s)
        (\<lambda>s2. Inr (''nic'' \<in> m_accepted s2, s2)))"

section \<open>The books\<close>

text \<open>
  The invariant of the accounting tables: every hourly and daily bucket holds a pair of
  non-negative totals whose sum is a 64-bit integer, every baseline is a counter in range,
  and every table has one row per key.
\<close>

definition books_ok :: "db \<Rightarrow> bool" where
  "books_ok d \<longleftrightarrow> valid_buckets (traffic_hourly d) \<and> valid_buckets (traffic_daily d) \<and> valid_counters d"

abbreviation run_ok :: "'z meter_scheme \<Rightarrow> bool" where
  "run_ok s \<equiv> books_ok (m_db s)"

lemma ingest_add_Inr:
  assumes "valid_buckets (traffic_hourly d)" "valid_buckets (traffic_daily d)" "in64 rx" "in64 tx"
    and "ingest_add ts subject sid rx tx d = Inr d'"
  shows "0 \<le> rx \<and> 0 \<le> tx \<and>
    d' = d\<lparr>traffic_hourly := traffic_hourly d', traffic_daily := traffic_daily d'\<rparr> \<and>
    bucket_add (hour_of ts, subject, sid) rx tx (traffic_hourly d) = Inr (traffic_hourly d') \<and>
    bucket_add (day_of ts, subject, sid) rx tx (traffic_daily d) = Inr (traffic_daily d')"
  using assms by (auto simp: ingest_add_def bindR_eq_Inr bucket_add_Inr)

lemma ingest_add_ok:
  assumes "books_ok d" "in64 rx" "in64 tx" "ingest_add ts subject sid rx tx d = Inr d'"
  shows "books_ok d'"
proof -
  note a = ingest_add_Inr [OF _ _ assms(2,3,4)]
  have "valid_buckets (traffic_hourly d')" "valid_buckets (traffic_daily d')"
    using a assms(1-3) by (auto simp: books_ok_def intro: bucket.add_valid)
  moreover have "counter_state d' = counter_state d"
    using assms(4) by (auto simp: ingest_add_def bindR_eq_Inr)
  ultimately show ?thesis using assms(1) by (simp add: books_ok_def)
qed

lemma in64_counter: "0 \<le> x \<Longrightarrow> x \<le> maxCounter \<Longrightarrow> in64 x"
  by (simp add: in64_def)

lemma in64_0 [simp]: "in64 0"
  by (simp add: in64_def)

lemma add_ok:
  assumes "run_ok s" "in64 rx" "in64 tx" "add c subject sid rx tx s = Inr s'"
  shows "run_ok s'"
  using assms by (auto simp: add_def bindR_eq_Inr intro: ingest_add_ok)

lemma sample_ok:
  assumes "run_ok s" "sample c node rx tx s = Inr s'"
  shows "run_ok s'"
proof -
  let ?s = "s\<lparr>m_db := (m_db s)\<lparr>traffic_samples := traffic_samples (m_db s) @
    [\<lparr>ts_ServerID = ic_server c, ts_NodeID = node, ts_TS = ic_ts c, ts_RxBytes = rx, ts_TxBytes = tx\<rparr>]\<rparr>\<rparr>"
  have "run_ok ?s" using assms(1) by (simp add: books_ok_def)
  moreover obtain sub i where "add c sub i 0 0 ?s = Inr s'"
    using assms(2) by (auto simp: sample_def Let_def split: if_splits option.splits)
  ultimately show ?thesis using in64_0 by (metis add_ok)
qed

lemma delta_ok:
  assumes "run_ok s" "delta c key ep rx tx fz s = Inr (r, s')"
  shows "run_ok s'"
  using assms delta_valid [OF assms(2)] delta_frame [OF assms(2)] by (simp add: books_ok_def)

lemma delta_in64:
  assumes "run_ok s" "delta c key ep rx tx fz s = Inr ((dr, dt, ok), s')"
  shows "in64 dr \<and> in64 dt \<and> 0 \<le> dr \<and> 0 \<le> dt"
  using delta_bounds [OF assms(2)] assms(1) by (auto simp: books_ok_def in64_def)

lemma run_ok_res [simp]: "run_ok (s\<lparr>r_res := r\<rparr>) = run_ok s"
  by simp

lemma legacy_ok:
  assumes "run_ok s" "legacy c s = Inr (acc, s')"
  shows "run_ok s'"
proof (cases "me_NetRx (hb_Metrics (ic_hb c)) > 0 \<or> me_NetTx (hb_Metrics (ic_hb c)) > 0")
  case False
  then show ?thesis using assms by (simp add: legacy_def)
next
  case True
  then obtain rx tx ok s1 where
    d: "delta (ic_meter c) ''nic'' (ic_epoch c) (me_NetRx (hb_Metrics (ic_hb c)))
        (me_NetTx (hb_Metrics (ic_hb c))) False s = Inr ((rx, tx, ok), s1)"
    and r: "(if ok then add c SubjectServer (ic_server c) rx tx
              (s1\<lparr>r_res := (r_res s1)\<lparr>rs_ServerUp := rx, rs_ServerDown := tx\<rparr>\<rparr>)
            else Inr (s1\<lparr>r_res := (r_res s1)\<lparr>rs_Reset := True\<rparr>\<rparr>)) = Inr s'"
    using assms(2) by (auto simp: legacy_def Let_def bindR_eq_Inr)
  note k = delta_ok [OF assms(1) d] delta_in64 [OF assms(1) d]
  show ?thesis
  proof (cases ok)
    case True
    then have "add c SubjectServer (ic_server c) rx tx
      (s1\<lparr>r_res := (r_res s1)\<lparr>rs_ServerUp := rx, rs_ServerDown := tx\<rparr>\<rparr>) = Inr s'"
      using r by simp
    from add_ok [OF _ _ _ this] k show ?thesis by simp
  next
    case False
    with r k show ?thesis by auto
  qed
qed

end
