(* ===== verification/Billing.thy ===== *)
theory Billing
  imports Heartbeat
begin

text \<open>
  Billing by selected interfaces (\<^verbatim>\<open>internal/traffic/network_billing.go\<close> and
  \<^verbatim>\<open>BillingPolicy\<close> of \<^verbatim>\<open>internal/store/network_billing.go\<close>): the policy in force, the movement of
  the interface baselines, and the settlement of one heartbeat, which may carry the
  cutover to a new policy.
\<close>

section \<open>Policies and interface baselines\<close>

definition BillingPolicy :: "i64 \<Rightarrow> i64 \<Rightarrow> db \<Rightarrow> NetworkBillingPolicy res" where
  "BillingPolicy serverID revision d =
     (if revision = 0 then Inr LegacyNetworkBilling
      else case lookup (network_billing_policies d) (serverID, revision) of
             None \<Rightarrow> Inl ErrNoRows
           | Some p \<Rightarrow> Inr p)"

type_synonym baseline_table = "((i64 \<times> string) \<times> BillingBaseline) list"

record ifstate =
  if_rx :: i64
  if_out :: i64
  if_missing :: nat
  if_table :: baseline_table

definition sampled :: "NetworkSnapshot option \<Rightarrow> NetworkSnapshot option" where
  "sampled so = (case so of None \<Rightarrow> None
     | Some sn \<Rightarrow> if ns_Status sn \<noteq> ''ok'' \<and> ns_Status sn \<noteq> ''incomplete'' then None else Some sn)"

definition snapshotSource :: "NetworkSnapshot \<Rightarrow> string" where
  "snapshotSource sn = ns_CollectorID sn @ '':'' @ ns_BootID sn"

definition continuous :: "NetworkSnapshot \<Rightarrow> NetworkInterface \<Rightarrow> BillingBaseline option \<Rightarrow> bool" where
  "continuous sn n row = (case row of None \<Rightarrow> False
     | Some b \<Rightarrow> bb_Source b = snapshotSource sn \<and> bb_Generation b = ni_Generation n \<and>
                ni_Rx n \<ge> bb_Rx b \<and> ni_Tx n \<ge> bb_Tx b)"

definition seenSample :: "NetworkSnapshot \<Rightarrow> BillingBaseline option \<Rightarrow> bool" where
  "seenSample sn row = (case row of None \<Rightarrow> False
     | Some b \<Rightarrow> SplitN2_0 (bb_Source b) CHR '':'' = ns_CollectorID sn \<and> ns_Sequence sn \<le> bb_Sequence b)"

definition interfaceStep ::
  "i64 \<Rightarrow> NetworkSnapshot \<Rightarrow> bool \<Rightarrow> ifstate \<Rightarrow> string \<Rightarrow> ifstate res" where
  "interfaceStep serverID sn baseline st iid =
     (case lastBy ni_ID (ns_Interfaces sn) iid of
        None \<Rightarrow> Inr (st\<lparr>if_missing := if_missing st + 1\<rparr>)
      | Some n \<Rightarrow>
        if \<not> ni_CountersValid n then Inr (st\<lparr>if_missing := if_missing st + 1\<rparr>)
        else
          let row = lookup (if_table st) (serverID, iid);
              cont = continuous sn n row;
              oldRx = (case row of None \<Rightarrow> 0 | Some b \<Rightarrow> bb_Rx b);
              oldTx = (case row of None \<Rightarrow> 0 | Some b \<Rightarrow> bb_Tx b);
              new = \<lparr>bb_Source = snapshotSource sn, bb_Generation = ni_Generation n,
                     bb_Sequence = ns_Sequence sn, bb_Rx = ni_Rx n, bb_Tx = ni_Tx n\<rparr>
          in if seenSample sn row then Inr st
             else if \<not> baseline \<and> cont \<and>
                     (sub64 (ni_Rx n) oldRx > sub64 MaxInt64 (if_rx st) \<or>
                      sub64 (ni_Tx n) oldTx > sub64 MaxInt64 (if_out st))
             then Inl (Err ''billing delta overflow'')
             else Inr (st\<lparr>if_missing := (if \<not> baseline \<and> \<not> cont then if_missing st + 1 else if_missing st),
                         if_rx := (if \<not> baseline \<and> cont then add64 (if_rx st) (sub64 (ni_Rx n) oldRx) else if_rx st),
                         if_out := (if \<not> baseline \<and> cont then add64 (if_out st) (sub64 (ni_Tx n) oldTx) else if_out st),
                         if_table := upsert (serverID, iid) new (if_table st)\<rparr>))"

definition billingInterfaceDelta ::
  "env \<Rightarrow> i64 \<Rightarrow> NetworkBillingPolicy \<Rightarrow> NetworkSnapshot option \<Rightarrow> bool \<Rightarrow> db \<Rightarrow>
   ((i64 \<times> i64 \<times> nat) \<times> db) res" where
  "billingInterfaceDelta E serverID policy snapshot baseline d =
     (case sampled snapshot of
        None \<Rightarrow> Inr ((0, 0, length (bp_InterfaceIDs policy)), d)
      | Some sn \<Rightarrow>
          bindR (ValidateNetwork E (Some sn)) (\<lambda>_.
          bindR (foldE (interfaceStep serverID sn baseline)
                  \<lparr>if_rx = 0, if_out = 0, if_missing = 0, if_table = network_billing_baselines d\<rparr>
                  (bp_InterfaceIDs policy))
            (\<lambda>st. Inr ((if_rx st, if_out st, if_missing st),
                       d\<lparr>network_billing_baselines := if_table st\<rparr>))))"

section \<open>One heartbeat's settlement\<close>

definition no_state :: BillingState where
  "no_state = \<lparr>bs_Current = 0, bs_Requested = 0, bs_RxTotal = 0, bs_TxTotal = 0, bs_Source = '''',
     bs_Sequence = 0, bs_Status = '''', bs_Error = '''', bs_AppliedAt = 0, bs_SampledAt = 0\<rparr>"

abbreviation stateRow :: "ictx \<Rightarrow> db \<Rightarrow> BillingState option" where
  "stateRow c d \<equiv> lookup (network_billing_state d) (ic_server c)"

definition updateState :: "ictx \<Rightarrow> (BillingState \<Rightarrow> BillingState) \<Rightarrow> db \<Rightarrow> db" where
  "updateState c f d =
     (case stateRow c d of None \<Rightarrow> d
      | Some row \<Rightarrow> d\<lparr>network_billing_state := upsert (ic_server c) (f row) (network_billing_state d)\<rparr>)"

text \<open>The closure \<^verbatim>\<open>health\<close>: one audit record per change of status.\<close>

definition health :: "ictx \<Rightarrow> BillingState option \<Rightarrow> string \<Rightarrow> string \<Rightarrow> db \<Rightarrow> db" where
  "health c row status detail d =
     (case row of None \<Rightarrow> d
      | Some b \<Rightarrow>
        if bs_Status b = status \<and> bs_Error b = detail then d
        else d\<lparr>audit_log := audit_log d @
          [\<lparr>au_TS = ic_now c, au_ServerID = ic_server c,
            au_Revision = (case ic_switch c of None \<Rightarrow> bs_Current b | Some sw \<Rightarrow> bp_Revision (sw_Next sw)),
            au_Status = status, au_Error = detail, au_SampledAt = ic_ts c\<rparr>]\<rparr>)"

definition heldDetail :: string where
  "heldDetail = ''waiting for the persisted cutover snapshot; node metering continues''"

definition unconfirmedDetail :: string where
  "unconfirmedDetail = ''agent has not confirmed the current billing policy; not falling back''"

definition missingDetail :: "nat \<Rightarrow> string" where
  "missingDetail n = show_nat n @ '' billing interfaces lack a continuous sample; only confirmed deltas recorded''"

text \<open>The first part: a replayed, misplaced or altered cutover. \<open>True\<close> is a replay.\<close>

definition checkSwitch :: "ictx \<Rightarrow> BillingState option \<Rightarrow> NetworkBillingSwitch \<Rightarrow> db \<Rightarrow> bool res" where
  "checkSwitch c row sw d =
     (case lookup (network_billing_settlements d) (ic_server c, sw_ID sw) of
        Some previous \<Rightarrow>
          if previous \<noteq> digestSwitch (ic_env c) sw
          then Inl (Err ''billing settlement ID reused with different content'') else Inr True
      | None \<Rightarrow>
          (case row of None \<Rightarrow> Inl (Err ''billing transition does not match current policy'')
           | Some b \<Rightarrow>
             if sw_PreviousRevision sw \<noteq> bs_Current b \<or> bp_Revision (sw_Next sw) > bs_Requested b
             then Inl (Err ''billing transition does not match current policy'')
             else bindR (BillingPolicy (ic_server c) (bp_Revision (sw_Next sw)) d) (\<lambda>next.
                    if \<not> NetworkBillingPolicy_Equal next (sw_Next sw)
                    then Inl (Err ''billing transition changed policy'') else Inr False)))"

text \<open>
  The second part: the snapshot's collector and sequence number. \<open>None\<close> is an early
  return; otherwise the source and sequence number to record.
\<close>

definition admitSnapshot ::
  "ictx \<Rightarrow> BillingState option \<Rightarrow> NetworkBillingPolicy \<Rightarrow> db \<Rightarrow> ((string \<times> i64) option \<times> db) res" where
  "admitSnapshot c row policy d =
     (let b = (case row of None \<Rightarrow> no_state | Some b \<Rightarrow> b)
      in case (if row = None then None else sampled (me_Network (hb_Metrics (ic_hb c)))) of
        None \<Rightarrow> Inr (Some (bs_Source b, bs_Sequence b), d)
      | Some sn \<Rightarrow>
          bindR (ValidateNetwork (ic_env c) (Some sn)) (\<lambda>_.
            let known = lookup (network_billing_sources d) (ic_server c, ns_CollectorID sn);
                previous = (case known of None \<Rightarrow> 0 | Some p \<Rightarrow> p);
                retired = (known \<noteq> None \<and> SplitN2_0 (bs_Source b) CHR '':'' \<noteq> ns_CollectorID sn);
                stale = (known \<noteq> None \<and> ns_Sequence sn \<le> previous);
                count = length (filter (\<lambda>((s, _), _). s = ic_server c) (network_billing_sources d))
            in if retired \<or> stale then
                 (case ic_switch c of
                    Some _ \<Rightarrow>
                      if retired \<or> ns_Sequence sn < previous
                      then Inl (Err ''billing switch conflicts with newer sampling source'')
                      else Inr (Some (bs_Source b, bs_Sequence b), d)
                  | None \<Rightarrow>
                      if bp_Mode policy = ''interfaces'' then Inr (None, d)
                      else Inr (Some (bs_Source b, bs_Sequence b), d))
               else if previous = 0 \<and> count \<ge> 4096
               then Inl (Err ''billing collector registry capacity exceeded'')
               else Inr (Some (snapshotSource sn, ns_Sequence sn),
                 d\<lparr>network_billing_sources :=
                     upsert (ic_server c, ns_CollectorID sn) (ns_Sequence sn) (network_billing_sources d)\<rparr>)))"

text \<open>What a settled heartbeat leaves in the state row.\<close>

record settled =
  se_Rx :: i64
  se_Tx :: i64
  se_Status :: string
  se_Detail :: string

definition overflows :: "i64 \<Rightarrow> i64 \<Rightarrow> i64 \<Rightarrow> i64 \<Rightarrow> bool" where
  "overflows rx tx totalRx totalTx \<longleftrightarrow> rx > sub64 MaxInt64 totalRx \<or> tx > sub64 MaxInt64 totalTx"

definition settleLegacy :: "ictx \<Rightarrow> BillingState \<Rightarrow> run \<Rightarrow> (settled \<times> run) res" where
  "settleLegacy c b s =
     bindR (legacy c s) (\<lambda>(accepted, s1).
       let nic = lookup (counter_state (m_db s1)) (ic_server c, ''nic'');
           up = rs_ServerUp (r_res s1); down = rs_ServerDown (r_res s1)
       in bindR
         (if bs_Current b = 0 then
            Inr (case nic of None \<Rightarrow> (bs_RxTotal b, bs_TxTotal b) | Some r \<Rightarrow> (cs_LastRx r, cs_LastTx r))
          else if accepted then
            (if overflows up down (bs_RxTotal b) (bs_TxTotal b)
             then Inl (Err ''server billing totals overflow'')
             else Inr (add64 (bs_RxTotal b) up, add64 (bs_TxTotal b) down))
          else Inr (bs_RxTotal b, bs_TxTotal b))
         (\<lambda>(totalRx, totalTx).
           bindR (if accepted then sample c None totalRx totalTx s1 else Inr s1) (\<lambda>s2.
             Inr (\<lparr>se_Rx = totalRx, se_Tx = totalTx,
                   se_Status = (if bs_Current b = 0 then ''legacy'' else ''active''),
                   se_Detail = ''''\<rparr>, s2))))"

definition topologyDetail :: "error \<Rightarrow> string" where
  "topologyDetail e = (case e of Err m \<Rightarrow> m | ErrNoRows \<Rightarrow> ''no rows'' | ErrNotFound \<Rightarrow> ''not found'')"

definition deleteBaselines :: "i64 \<Rightarrow> db \<Rightarrow> db" where
  "deleteBaselines serverID d =
     d\<lparr>network_billing_baselines := deleteWhere (\<lambda>((s, _), _). s = serverID) (network_billing_baselines d)\<rparr>"

definition settleInterfaces ::
  "ictx \<Rightarrow> BillingState \<Rightarrow> NetworkBillingPolicy \<Rightarrow> run \<Rightarrow> (settled \<times> run) res" where
  "settleInterfaces c b policy s =
     (let snapshot = me_Network (hb_Metrics (ic_hb c)); ids = length (bp_InterfaceIDs policy)
      in bindR
        (case ValidateBillingTopology snapshot policy of
           Inl e \<Rightarrow> Inr ((0, 0, ids, topologyDetail e), deleteBaselines (ic_server c) (m_db s))
         | Inr _ \<Rightarrow> bindR (billingInterfaceDelta (ic_env c) (ic_server c) policy snapshot False (m_db s))
                     (\<lambda>((rx, out, missing), d). Inr ((rx, out, missing, ''''), d)))
        (\<lambda>((rx, out, missing, detail), d).
          let s1 = s\<lparr>m_db := d, r_res := (r_res s)\<lparr>rs_ServerUp := rx, rs_ServerDown := out\<rparr>\<rparr>
          in bindR (add c SubjectServer (ic_server c) rx out s1) (\<lambda>s2.
             if overflows rx out (bs_RxTotal b) (bs_TxTotal b)
             then Inl (Err ''server billing totals overflow'')
             else
               let totalRx = add64 (bs_RxTotal b) rx; totalTx = add64 (bs_TxTotal b) out
               in bindR (if missing < ids then sample c None totalRx totalTx s2 else Inr s2) (\<lambda>s3.
                    Inr (\<lparr>se_Rx = totalRx, se_Tx = totalTx,
                          se_Status = (if missing > 0 then ''incomplete'' else ''active''),
                          se_Detail = (if missing > 0 \<and> detail = '''' then missingDetail missing else detail)\<rparr>,
                         s3)))))"

text \<open>The cutover: the old set is settled, the new one baselined, the settlement recorded.\<close>

definition rebaseline :: "ictx \<Rightarrow> NetworkBillingSwitch \<Rightarrow> db \<Rightarrow> db res" where
  "rebaseline c sw d =
     (let d0 = deleteBaselines (ic_server c) d
      in if bp_Mode (sw_Next sw) = ''interfaces'' then
           bindR (billingInterfaceDelta (ic_env c) (ic_server c) (sw_Next sw) (sw_Snapshot sw) True d0)
             (\<lambda>((_, _, missing), d1). if missing \<noteq> 0 then Inl (Err ''new billing baseline incomplete'') else Inr d1)
         else
           Inr (d0\<lparr>counter_state := upsert (ic_server c, ''nic'')
                 \<lparr>cs_Epoch = lc_Epoch (sw_Legacy sw), cs_LastRx = lc_Rx (sw_Legacy sw),
                  cs_LastTx = lc_Tx (sw_Legacy sw), cs_UpdatedAt = Some (ic_ts c)\<rparr> (counter_state d0)\<rparr>))"

definition recordSwitch :: "ictx \<Rightarrow> NetworkBillingSwitch \<Rightarrow> db \<Rightarrow> db" where
  "recordSwitch c sw d =
     (let d1 = updateState c (\<lambda>b. b\<lparr>bs_Current := bp_Revision (sw_Next sw), bs_AppliedAt := ic_ts c\<rparr>) d
      in d1\<lparr>network_billing_settlements :=
             upsert (ic_server c, sw_ID sw) (digestSwitch (ic_env c) sw) (network_billing_settlements d1)\<rparr>)"

definition applySwitch :: "ictx \<Rightarrow> NetworkBillingSwitch \<Rightarrow> settled \<Rightarrow> run \<Rightarrow> (settled \<times> run) res" where
  "applySwitch c sw se s =
     bindR (rebaseline c sw (m_db s)) (\<lambda>d.
       Inr (if se_Detail se = '''' then se\<lparr>se_Status := ''active''\<rparr> else se,
            s\<lparr>m_db := recordSwitch c sw d, r_res := (r_res s)\<lparr>rs_NetworkBillingAck := sw_ID sw\<rparr>\<rparr>))"

definition finishBilling :: "ictx \<Rightarrow> BillingState option \<Rightarrow> settled \<Rightarrow> string \<Rightarrow> i64 \<Rightarrow> run \<Rightarrow> run" where
  "finishBilling c row se source sequence s =
     s\<lparr>m_db := updateState c
        (\<lambda>b. b\<lparr>bs_RxTotal := se_Rx se, bs_TxTotal := se_Tx se, bs_Status := se_Status se,
               bs_Error := se_Detail se, bs_SampledAt := ic_ts c, bs_Source := source,
               bs_Sequence := sequence\<rparr>)
        (health c row (se_Status se) (se_Detail se) (m_db s))\<rparr>"

definition settleBilling :: "ictx \<Rightarrow> BillingState option \<Rightarrow> NetworkBillingPolicy \<Rightarrow> run \<Rightarrow> run res" where
  "settleBilling c row policy s =
     bindR (admitSnapshot c row policy (m_db s)) (\<lambda>(admitted, d).
       let b = (case row of None \<Rightarrow> no_state | Some b \<Rightarrow> b); s1 = s\<lparr>m_db := d\<rparr>
       in case admitted of
         None \<Rightarrow> Inr s1
       | Some (source, sequence) \<Rightarrow>
           bindR (if bp_Mode policy = ''legacy'' then settleLegacy c b s1 else settleInterfaces c b policy s1)
             (\<lambda>(se, s2).
           bindR (case ic_switch c of None \<Rightarrow> Inr (se, s2) | Some sw \<Rightarrow> applySwitch c sw se s2)
             (\<lambda>(se', s3). Inr (if row = None then s3 else finishBilling c row se' source sequence s3))))"

definition setStatus :: "ictx \<Rightarrow> BillingState option \<Rightarrow> string \<Rightarrow> string \<Rightarrow> run \<Rightarrow> run" where
  "setStatus c row status detail s =
     s\<lparr>m_db := updateState c (\<lambda>b. b\<lparr>bs_Status := status, bs_Error := detail\<rparr>)
        (health c row status detail (m_db s))\<rparr>"

definition ingestNetworkBilling :: "ictx \<Rightarrow> run \<Rightarrow> run res" where
  "ingestNetworkBilling c s =
     (let row = stateRow c (m_db s); b = (case row of None \<Rightarrow> no_state | Some b \<Rightarrow> b)
      in bindR (BillingPolicy (ic_server c) (bs_Current b) (m_db s)) (\<lambda>policy.
         case ic_switch c of
           Some sw \<Rightarrow>
             bindR (checkSwitch c row sw (m_db s)) (\<lambda>replay.
               if replay then Inr (s\<lparr>r_res := (r_res s)\<lparr>rs_NetworkBillingAck := sw_ID sw\<rparr>\<rparr>)
               else settleBilling c row policy s)
         | None \<Rightarrow>
             if hb_NetworkBillingHeld (ic_hb c) then
               Inr (if row = None then s else setStatus c row ''switching'' heldDetail s)
             else if bs_Current b > 0 \<and> hb_NetworkBillingRevision (ic_hb c) \<noteq> bs_Current b then
               Inr (setStatus c row ''incomplete'' unconfirmedDetail s)
             else settleBilling c row policy s))"

section \<open>Validated snapshots\<close>

lemma ValidateInterface_Inr:
  "ValidateInterface E (ids, idx) n = Inr st' \<Longrightarrow>
   0 \<le> ni_Rx n \<and> ni_Rx n \<le> maxCounter \<and> 0 \<le> ni_Tx n \<and> ni_Tx n \<le> maxCounter \<and>
   ni_ID n \<notin> ids \<and> ni_Index n \<notin> idx \<and> networkIdentity (ni_ID n) \<and>
   st' = (insert (ni_ID n) ids, insert (ni_Index n) idx)"
  by (auto simp: ValidateInterface_def split: if_splits)

lemma ValidateInterface_loop:
  "foldE (ValidateInterface E) (ids, idx) ns = Inr st \<Longrightarrow>
   (\<forall>n \<in> set ns. 0 \<le> ni_Rx n \<and> ni_Rx n \<le> maxCounter \<and> 0 \<le> ni_Tx n \<and> ni_Tx n \<le> maxCounter) \<and>
   distinct (map ni_ID ns) \<and> ids \<inter> set (map ni_ID ns) = {}"
proof (induction ns arbitrary: ids idx)
  case Nil
  then show ?case by simp
next
  case (Cons n ns)
  then obtain st' where st': "ValidateInterface E (ids, idx) n = Inr st'"
    and r: "foldE (ValidateInterface E) st' ns = Inr st"
    by (auto simp: bindR_eq_Inr)
  note n = ValidateInterface_Inr [OF st']
  then have "foldE (ValidateInterface E) (insert (ni_ID n) ids, insert (ni_Index n) idx) ns = Inr st"
    using r by simp
  from Cons.IH [OF this] n show ?case by auto
qed

lemma ValidateNetwork_interfaces:
  assumes "ValidateNetwork E (Some sn) = Inr u"
  shows "\<exists>st. foldE (ValidateInterface E) ({}, {}) (ns_Interfaces sn) = Inr st"
  using assms by (simp add: ValidateNetwork_def bindR_eq_Inr split: if_splits)

lemma ValidateNetwork_counters:
  assumes "ValidateNetwork E (Some sn) = Inr u" "n \<in> set (ns_Interfaces sn)"
  shows "0 \<le> ni_Rx n \<and> ni_Rx n \<le> maxCounter \<and> 0 \<le> ni_Tx n \<and> ni_Tx n \<le> maxCounter"
  using ValidateNetwork_interfaces [OF assms(1)] assms(2) by (auto dest!: ValidateInterface_loop)

section \<open>What the interfaces are billed\<close>

text \<open>
  The specification of a settled snapshot: an interface is billed the movement of its
  counters since its baseline when the sample continues the baseline, and nothing
  otherwise. The loop computes the sum over the policy's interfaces.
\<close>

definition readable :: "NetworkSnapshot \<Rightarrow> string \<Rightarrow> NetworkInterface option" where
  "readable sn iid = (case lastBy ni_ID (ns_Interfaces sn) iid of None \<Rightarrow> None
     | Some n \<Rightarrow> if ni_CountersValid n then Some n else None)"

definition moved :: "i64 \<Rightarrow> NetworkSnapshot \<Rightarrow> baseline_table \<Rightarrow> string \<Rightarrow> i64 \<times> i64" where
  "moved serverID sn t iid =
     (case (readable sn iid, lookup t (serverID, iid)) of
        (Some n, Some b) \<Rightarrow>
          if \<not> seenSample sn (Some b) \<and> continuous sn n (Some b)
          then (ni_Rx n - bb_Rx b, ni_Tx n - bb_Tx b) else (0, 0)
      | _ \<Rightarrow> (0, 0))"

definition gap :: "i64 \<Rightarrow> NetworkSnapshot \<Rightarrow> baseline_table \<Rightarrow> string \<Rightarrow> bool" where
  "gap serverID sn t iid =
     (case readable sn iid of None \<Rightarrow> True
      | Some n \<Rightarrow> let row = lookup t (serverID, iid) in \<not> seenSample sn row \<and> \<not> continuous sn n row)"

definition baselines_ok :: "baseline_table \<Rightarrow> bool" where
  "baselines_ok t \<longleftrightarrow> keys_ok t \<and>
     (\<forall>r \<in> set t. 0 \<le> bb_Rx (snd r) \<and> bb_Rx (snd r) \<le> maxCounter \<and>
        0 \<le> bb_Tx (snd r) \<and> bb_Tx (snd r) \<le> maxCounter)"

lemma baselines_ok_row:
  "baselines_ok t \<Longrightarrow> lookup t k = Some b \<Longrightarrow>
   0 \<le> bb_Rx b \<and> bb_Rx b \<le> maxCounter \<and> 0 \<le> bb_Tx b \<and> bb_Tx b \<le> maxCounter"
  using map_of_SomeD [of t k b] by (auto simp: baselines_ok_def)

lemma baselines_ok_upsert:
  "baselines_ok t \<Longrightarrow> 0 \<le> bb_Rx b \<Longrightarrow> bb_Rx b \<le> maxCounter \<Longrightarrow> 0 \<le> bb_Tx b \<Longrightarrow>
   bb_Tx b \<le> maxCounter \<Longrightarrow> baselines_ok (upsert k b t)"
  by (auto simp: baselines_ok_def dest!: set_upsert)

definition if_ok :: "ifstate \<Rightarrow> bool" where
  "if_ok st \<longleftrightarrow> 0 \<le> if_rx st \<and> if_rx st \<le> MaxInt64 \<and> 0 \<le> if_out st \<and> if_out st \<le> MaxInt64 \<and>
     baselines_ok (if_table st)"

lemma readable_bounds:
  assumes "ValidateNetwork E (Some sn) = Inr u" "readable sn iid = Some n"
  shows "0 \<le> ni_Rx n \<and> ni_Rx n \<le> maxCounter \<and> 0 \<le> ni_Tx n \<and> ni_Tx n \<le> maxCounter"
  using assms ValidateNetwork_counters [OF assms(1)]
  by (auto simp: readable_def split: option.splits if_splits dest!: lastBy_SomeD)

text \<open>One iteration, in terms of the specification.\<close>

lemma interfaceStep_billing:
  assumes v: "ValidateNetwork E (Some sn) = Inr u" and ok: "if_ok st"
    and step: "interfaceStep sid sn False st iid = Inr st'"
  shows "if_rx st' = if_rx st + fst (moved sid sn (if_table st) iid) \<and>
    if_out st' = if_out st + snd (moved sid sn (if_table st) iid) \<and>
    if_missing st' = if_missing st + (if gap sid sn (if_table st) iid then 1 else 0) \<and>
    (\<forall>k. k \<noteq> (sid, iid) \<longrightarrow> lookup (if_table st') k = lookup (if_table st) k) \<and> if_ok st'"
proof (cases "readable sn iid")
  case None
  then have "st' = st\<lparr>if_missing := if_missing st + 1\<rparr>"
    using step by (auto simp: interfaceStep_def readable_def split: option.splits if_splits)
  with None ok show ?thesis by (simp add: moved_def gap_def if_ok_def)
next
  case (Some n)
  note nb = readable_bounds [OF v Some]
  have rd: "lastBy ni_ID (ns_Interfaces sn) iid = Some n" "ni_CountersValid n"
    using Some by (auto simp: readable_def split: option.splits if_splits)
  let ?row = "lookup (if_table st) (sid, iid)"
  show ?thesis
  proof (cases "seenSample sn ?row")
    case True
    then have "st' = st" using step rd by (simp add: interfaceStep_def Let_def)
    with True Some ok show ?thesis
      by (auto simp: moved_def gap_def seenSample_def Let_def split: option.splits)
  next
    case fresh: False
    let ?new = "\<lparr>bb_Source = snapshotSource sn, bb_Generation = ni_Generation n,
      bb_Sequence = ns_Sequence sn, bb_Rx = ni_Rx n, bb_Tx = ni_Tx n\<rparr>"
    have t: "baselines_ok (upsert (sid, iid) ?new (if_table st))"
      using ok nb by (intro baselines_ok_upsert) (auto simp: if_ok_def)
    show ?thesis
    proof (cases "continuous sn n ?row")
      case False
      then have "st' = st\<lparr>if_missing := if_missing st + 1,
        if_table := upsert (sid, iid) ?new (if_table st)\<rparr>"
        using step rd fresh by (simp add: interfaceStep_def Let_def)
      with False Some ok t fresh show ?thesis
        by (auto simp: moved_def gap_def if_ok_def Let_def split: option.splits)
    next
      case True
      then obtain b where b: "?row = Some b" "bb_Rx b \<le> ni_Rx n" "bb_Tx b \<le> ni_Tx n"
        by (auto simp: continuous_def split: option.splits)
      note bb = baselines_ok_row [OF _ b(1)]
      have e: "sub64 (ni_Rx n) (bb_Rx b) = ni_Rx n - bb_Rx b" "sub64 (ni_Tx n) (bb_Tx b) = ni_Tx n - bb_Tx b"
        "sub64 MaxInt64 (if_rx st) = MaxInt64 - if_rx st" "sub64 MaxInt64 (if_out st) = MaxInt64 - if_out st"
        using bb nb ok by (auto intro!: sub64_nonneg_exact simp: if_ok_def)
      have le: "ni_Rx n - bb_Rx b \<le> MaxInt64 - if_rx st" "ni_Tx n - bb_Tx b \<le> MaxInt64 - if_out st"
        using step rd fresh True b(1) e by (auto simp: interfaceStep_def Let_def split: if_splits)
      then have a: "add64 (if_rx st) (ni_Rx n - bb_Rx b) = if_rx st + (ni_Rx n - bb_Rx b)"
        "add64 (if_out st) (ni_Tx n - bb_Tx b) = if_out st + (ni_Tx n - bb_Tx b)"
        using ok b by (auto intro!: add64_nonneg_exact simp: if_ok_def)
      have "st' = st\<lparr>if_rx := if_rx st + (ni_Rx n - bb_Rx b), if_out := if_out st + (ni_Tx n - bb_Tx b),
        if_table := upsert (sid, iid) ?new (if_table st)\<rparr>"
        using step rd fresh True b(1) e le a by (simp add: interfaceStep_def Let_def)
      then show ?thesis using True Some ok t fresh b le
        by (auto simp: moved_def gap_def if_ok_def Let_def)
    qed
  qed
qed

lemma moved_frame:
  "lookup t' (sid, iid) = lookup t (sid, iid) \<Longrightarrow> moved sid sn t' iid = moved sid sn t iid"
  "lookup t' (sid, iid) = lookup t (sid, iid) \<Longrightarrow> gap sid sn t' iid = gap sid sn t iid"
  by (simp_all add: moved_def gap_def Let_def split: option.splits)

lemma interface_loop:
  assumes v: "ValidateNetwork E (Some sn) = Inr u"
  shows "if_ok st \<Longrightarrow> distinct ids \<Longrightarrow> foldE (interfaceStep sid sn False) st ids = Inr st' \<Longrightarrow>
    if_rx st' = if_rx st + (\<Sum>i \<leftarrow> ids. fst (moved sid sn (if_table st) i)) \<and>
    if_out st' = if_out st + (\<Sum>i \<leftarrow> ids. snd (moved sid sn (if_table st) i)) \<and>
    if_missing st' = if_missing st + length (filter (gap sid sn (if_table st)) ids) \<and> if_ok st'"
proof (induction ids arbitrary: st)
  case Nil
  then show ?case by simp
next
  case (Cons i ids)
  then obtain s1 where s1: "interfaceStep sid sn False st i = Inr s1"
    and r: "foldE (interfaceStep sid sn False) s1 ids = Inr st'"
    by (auto simp: bindR_eq_Inr)
  note one = interfaceStep_billing [OF v Cons.prems(1) s1]
  have fr: "lookup (if_table s1) (sid, j) = lookup (if_table st) (sid, j)" if "j \<in> set ids" for j
    using one that Cons.prems(2) by auto
  have m: "map (\<lambda>i. f (moved sid sn (if_table s1) i)) ids = map (\<lambda>i. f (moved sid sn (if_table st) i)) ids"
    for f :: "i64 \<times> i64 \<Rightarrow> i64"
    using moved_frame(1) [OF fr] by simp
  have g: "filter (gap sid sn (if_table s1)) ids = filter (gap sid sn (if_table st)) ids"
    using moved_frame(2) [OF fr] by (simp cong: filter_cong)
  from Cons.IH [OF _ _ r] one Cons.prems(2) m [of fst] m [of snd] g show ?case by simp
qed

text \<open>The rebaselining run of a cutover bills nothing and misses nothing it can read.\<close>

lemma interfaceStep_baseline:
  assumes v: "ValidateNetwork E (Some sn) = Inr u" and ok: "if_ok st"
    and step: "interfaceStep sid sn True st iid = Inr st'"
  shows "if_ok st' \<and> if_rx st' = if_rx st \<and> if_out st' = if_out st"
proof (cases "readable sn iid")
  case None
  then have "st' = st\<lparr>if_missing := if_missing st + 1\<rparr>"
    using step by (auto simp: interfaceStep_def readable_def split: option.splits if_splits)
  with ok show ?thesis by (simp add: if_ok_def)
next
  case (Some n)
  note nb = readable_bounds [OF v Some]
  have rd: "lastBy ni_ID (ns_Interfaces sn) iid = Some n" "ni_CountersValid n"
    using Some by (auto simp: readable_def split: option.splits if_splits)
  then show ?thesis using step ok nb
    by (auto simp: interfaceStep_def Let_def if_ok_def intro!: baselines_ok_upsert split: if_splits)
qed

interpretation cutover: loop_invariant "interfaceStep sid sn True"
  "\<lambda>st. isOk (ValidateNetwork E (Some sn)) \<longrightarrow> if_ok st"
  by unfold_locales (auto simp: isOk_iff dest: interfaceStep_baseline)

lemma billingInterfaceDelta_spec:
  assumes r: "billingInterfaceDelta E sid policy (Some sn) False d = Inr ((rx, out, missing), d')"
    and st: "sampled (Some sn) = Some sn"
    and ok: "baselines_ok (network_billing_baselines d)" and ids: "distinct (bp_InterfaceIDs policy)"
  shows "rx = (\<Sum>i \<leftarrow> bp_InterfaceIDs policy. fst (moved sid sn (network_billing_baselines d) i)) \<and>
    out = (\<Sum>i \<leftarrow> bp_InterfaceIDs policy. snd (moved sid sn (network_billing_baselines d) i)) \<and>
    missing = length (filter (gap sid sn (network_billing_baselines d)) (bp_InterfaceIDs policy)) \<and>
    baselines_ok (network_billing_baselines d') \<and>
    0 \<le> rx \<and> rx \<le> MaxInt64 \<and> 0 \<le> out \<and> out \<le> MaxInt64"
proof -
  let ?s0 = "\<lparr>if_rx = 0, if_out = 0, if_missing = 0, if_table = network_billing_baselines d\<rparr>"
  obtain u stt where v: "ValidateNetwork E (Some sn) = Inr u"
    and l: "foldE (interfaceStep sid sn False) ?s0 (bp_InterfaceIDs policy) = Inr stt"
    and e: "rx = if_rx stt" "out = if_out stt" "missing = if_missing stt"
      "d' = d\<lparr>network_billing_baselines := if_table stt\<rparr>"
    using r by (auto simp: billingInterfaceDelta_def st bindR_eq_Inr)
  have "if_ok ?s0" using ok by (simp add: if_ok_def)
  from interface_loop [OF v this ids l] e show ?thesis by (simp add: if_ok_def)
qed

text \<open>Facts every call keeps, whatever the sample.\<close>

lemma interface_baseline_loop:
  assumes v: "ValidateNetwork E (Some sn) = Inr u" and ok: "if_ok st"
    and l: "foldE (interfaceStep sid sn True) st ids = Inr st'"
  shows "if_ok st'"
  using cutover.loop_inv [where E = E, OF l] v ok by simp

lemma billingInterfaceDelta_frame:
  assumes "billingInterfaceDelta E sid policy so base d = Inr (r, d')"
  shows "d' = d\<lparr>network_billing_baselines := network_billing_baselines d'\<rparr>"
  using assms by (auto simp: billingInterfaceDelta_def bindR_eq_Inr split: option.splits)

lemma sampled_Some: "sampled so = Some sn \<Longrightarrow> so = Some sn"
  by (auto simp: sampled_def split: option.splits if_splits)

lemma billingInterfaceDelta_ok:
  assumes r: "billingInterfaceDelta E sid policy so base d = Inr ((rx, out, missing), d')"
    and ok: "baselines_ok (network_billing_baselines d)" and ids: "distinct (bp_InterfaceIDs policy)"
  shows "baselines_ok (network_billing_baselines d') \<and> in64 rx \<and> in64 out"
proof (cases "sampled so")
  case None
  then show ?thesis using r ok by (auto simp: billingInterfaceDelta_def)
next
  case (Some sn)
  note so = sampled_Some [OF Some]
  show ?thesis
  proof (cases base)
    case True
    let ?s0 = "\<lparr>if_rx = 0, if_out = 0, if_missing = 0, if_table = network_billing_baselines d\<rparr>"
    obtain u stt where v: "ValidateNetwork E (Some sn) = Inr u"
      and l: "foldE (interfaceStep sid sn True) ?s0 (bp_InterfaceIDs policy) = Inr stt"
      and e: "rx = if_rx stt" "out = if_out stt" "d' = d\<lparr>network_billing_baselines := if_table stt\<rparr>"
      using r True by (auto simp: billingInterfaceDelta_def Some bindR_eq_Inr)
    have "if_ok ?s0" using ok by (simp add: if_ok_def)
    from interface_baseline_loop [OF v this l] e show ?thesis by (simp add: if_ok_def in64_def)
  next
    case False
    then show ?thesis using billingInterfaceDelta_spec [of E sid policy sn d rx out missing d'] r ok ids so Some
      by (simp add: in64_def)
  qed
qed

end
