(* ===== verification/Cutover.thy ===== *)
theory Cutover
  imports Billing
begin

text \<open>
  What a billing settlement keeps and what a cutover promises: the accounting tables stay
  in range, the policy revision only moves forward, and a cutover sent twice is settled
  once.
\<close>

section \<open>Settlements keep the books\<close>

definition billing_ok :: "db \<Rightarrow> bool" where
  "billing_ok d \<longleftrightarrow> books_ok d \<and> baselines_ok (network_billing_baselines d) \<and>
     (\<forall>r \<in> set (network_billing_policies d). NetworkBillingPolicy_Validate (snd r) = Inr ())"

abbreviation billed_ok :: "'z meter_scheme \<Rightarrow> bool" where
  "billed_ok s \<equiv> billing_ok (m_db s)"

lemma policy_loop_distinct:
  "foldE ValidatePolicyInterface seen ids = Inr t \<Longrightarrow> distinct ids \<and> seen \<inter> set ids = {}"
proof (induction ids arbitrary: seen)
  case Nil
  then show ?case by simp
next
  case (Cons i ids)
  then obtain s1 where s1: "ValidatePolicyInterface seen i = Inr s1"
    and r: "foldE ValidatePolicyInterface s1 ids = Inr t" by (auto simp: bindR_eq_Inr)
  then have "s1 = insert i seen" "i \<notin> seen" by (auto simp: ValidatePolicyInterface_def split: if_splits)
  with Cons.IH [OF r] show ?case by auto
qed

lemma policy_distinct: "NetworkBillingPolicy_Validate p = Inr () \<Longrightarrow> distinct (bp_InterfaceIDs p)"
  by (auto simp: NetworkBillingPolicy_Validate_def bindR_eq_Inr split: if_splits dest: policy_loop_distinct)

lemma BillingPolicy_distinct:
  assumes "billing_ok d" "BillingPolicy sid rv d = Inr p"
  shows "distinct (bp_InterfaceIDs p)"
proof (cases "rv = 0")
  case True
  then show ?thesis using assms(2) by (auto simp: BillingPolicy_def LegacyNetworkBilling_def)
next
  case False
  then have "((sid, rv), p) \<in> set (network_billing_policies d)"
    using assms(2) by (auto simp: BillingPolicy_def split: option.splits dest: map_of_SomeD)
  with assms(1) have "NetworkBillingPolicy_Validate p = Inr ()" by (force simp: billing_ok_def)
  then show ?thesis by (rule policy_distinct)
qed

text \<open>The tables of interface billing, which the shared closures leave alone.\<close>

definition billing_part :: "db \<Rightarrow> _" where
  "billing_part d = (network_billing_state d, network_billing_policies d, network_billing_sources d,
     network_billing_baselines d, network_billing_settlements d)"

lemma billing_partD:
  assumes "billing_part d' = billing_part d"
  shows "network_billing_state d' = network_billing_state d"
    "network_billing_policies d' = network_billing_policies d"
    "network_billing_sources d' = network_billing_sources d"
    "network_billing_baselines d' = network_billing_baselines d"
    "network_billing_settlements d' = network_billing_settlements d"
  using assms by (simp_all add: billing_part_def)

lemma billing_ok_part:
  "billing_part d' = billing_part d \<Longrightarrow> books_ok d' \<Longrightarrow> billing_ok d \<Longrightarrow> billing_ok d'"
  unfolding billing_ok_def by (frule billing_partD(2), drule billing_partD(4)) simp

lemma add_part: "add c sub i rx tx s = Inr s' \<Longrightarrow> billing_part (m_db s') = billing_part (m_db s)"
  by (auto simp: add_def ingest_add_def bindR_eq_Inr billing_part_def)

lemma sample_part:
  assumes "sample c node rx tx s = Inr s'"
  shows "billing_part (m_db s') = billing_part (m_db s)"
  using assms by (auto simp: sample_def Let_def billing_part_def split: if_splits option.splits
      dest!: add_part)

lemma delta_part:
  assumes "delta c key ep rx tx fz s = Inr (r, s')"
  shows "billing_part (m_db s') = billing_part (m_db s)"
  using assms by (cases rule: delta_cases) (simp_all add: writeBaseline_def Let_def billing_part_def)

lemma legacy_part:
  assumes "legacy c s = Inr (acc, s')"
  shows "billing_part (m_db s') = billing_part (m_db s)"
  using assms unfolding legacy_def Let_def
  by (fastforce simp: bindR_eq_Inr split: if_splits dest: add_part delta_part)

lemma settleLegacy_steps:
  assumes "settleLegacy c b s = Inr (se, s')"
  obtains acc s1 where "legacy c s = Inr (acc, s1)"
    "s' = s1 \<or> sample c None (se_Rx se) (se_Tx se) s1 = Inr s'"
  using assms unfolding settleLegacy_def Let_def
  by (fastforce simp: bindR_eq_Inr split: if_splits)

lemma settleLegacy_ok:
  assumes "settleLegacy c b s = Inr (se, s')" "billed_ok s"
  shows "billed_ok s' \<and> billing_part (m_db s') = billing_part (m_db s)"
proof -
  obtain acc s1 where l: "legacy c s = Inr (acc, s1)"
    and e: "s' = s1 \<or> sample c None (se_Rx se) (se_Tx se) s1 = Inr s'"
    using assms(1) by (rule settleLegacy_steps)
  have "books_ok (m_db s1)" using l assms(2) by (auto simp: billing_ok_def intro: legacy_ok)
  with e have "books_ok (m_db s')" by (auto intro: sample_ok)
  moreover have "billing_part (m_db s') = billing_part (m_db s)"
    using e legacy_part [OF l] sample_part [of c None _ _ s1 s'] by auto
  ultimately show ?thesis using billing_ok_part assms(2) by blast
qed

lemma billing_ok_baselines:
  "billing_ok d \<Longrightarrow> baselines_ok t \<Longrightarrow> billing_ok (d\<lparr>network_billing_baselines := t\<rparr>)"
  by (simp add: billing_ok_def books_ok_def)

lemma baselines_ok_delete: "baselines_ok t \<Longrightarrow> baselines_ok (deleteWhere P t)"
  unfolding baselines_ok_def by (intro conjI ballI) (auto simp: deleteWhere_def keys_ok_def distinct_map_filter)

lemma deleteBaselines_ok: "billing_ok d \<Longrightarrow> billing_ok (deleteBaselines sid d)"
  unfolding deleteBaselines_def
  by (rule billing_ok_baselines) (auto simp: billing_ok_def intro: baselines_ok_delete)

lemma billingInterfaceDelta_billing_ok:
  assumes "billingInterfaceDelta E sid p so base d = Inr ((rx, out, missing), d')" "billing_ok d"
    "distinct (bp_InterfaceIDs p)"
  shows "billing_ok d' \<and> in64 rx \<and> in64 out"
proof -
  have "baselines_ok (network_billing_baselines d') \<and> in64 rx \<and> in64 out"
    using billingInterfaceDelta_ok [OF assms(1) _ assms(3)] assms(2) by (simp add: billing_ok_def)
  then show ?thesis
    using billingInterfaceDelta_frame [OF assms(1)] billing_ok_baselines [OF assms(2)] by metis
qed

lemma settleInterfaces_steps:
  assumes "settleInterfaces c b p s = Inr (se, s')"
  obtains rx out missing d s2 where
    "d = deleteBaselines (ic_server c) (m_db s) \<and> rx = 0 \<and> out = 0 \<or>
     billingInterfaceDelta (ic_env c) (ic_server c) p (me_Network (hb_Metrics (ic_hb c))) False (m_db s) =
       Inr ((rx, out, missing), d)"
    "add c SubjectServer (ic_server c) rx out
       (s\<lparr>m_db := d, r_res := (r_res s)\<lparr>rs_ServerUp := rx, rs_ServerDown := out\<rparr>\<rparr>) = Inr s2"
    "s' = s2 \<or> sample c None (se_Rx se) (se_Tx se) s2 = Inr s'"
proof -
  let ?ids = "length (bp_InterfaceIDs p)"
  obtain rx out missing detail d where
    q: "(case ValidateBillingTopology (me_Network (hb_Metrics (ic_hb c))) p of
           Inl e \<Rightarrow> Inr ((0, 0, ?ids, topologyDetail e), deleteBaselines (ic_server c) (m_db s))
         | Inr _ \<Rightarrow> bindR (billingInterfaceDelta (ic_env c) (ic_server c) p
                        (me_Network (hb_Metrics (ic_hb c))) False (m_db s))
                     (\<lambda>((rx, out, missing), d). Inr ((rx, out, missing, ''''), d))) =
        Inr ((rx, out, missing, detail), d)"
    and q2: "bindR (add c SubjectServer (ic_server c) rx out
         (s\<lparr>m_db := d, r_res := (r_res s)\<lparr>rs_ServerUp := rx, rs_ServerDown := out\<rparr>\<rparr>)) (\<lambda>s2.
       if overflows rx out (bs_RxTotal b) (bs_TxTotal b) then Inl (Err ''server billing totals overflow'')
       else bindR (if missing < ?ids then sample c None (add64 (bs_RxTotal b) rx) (add64 (bs_TxTotal b) out) s2
                   else Inr s2) (\<lambda>s3.
         Inr (\<lparr>se_Rx = add64 (bs_RxTotal b) rx, se_Tx = add64 (bs_TxTotal b) out,
               se_Status = (if missing > 0 then ''incomplete'' else ''active''),
               se_Detail = (if missing > 0 \<and> detail = '''' then missingDetail missing else detail)\<rparr>, s3))) =
       Inr (se, s')"
    using assms unfolding settleInterfaces_def Let_def by (auto elim!: bindR_InrE)
  obtain s2 where s2: "add c SubjectServer (ic_server c) rx out
       (s\<lparr>m_db := d, r_res := (r_res s)\<lparr>rs_ServerUp := rx, rs_ServerDown := out\<rparr>\<rparr>) = Inr s2"
    and e: "s' = s2 \<or> sample c None (se_Rx se) (se_Tx se) s2 = Inr s'"
    using q2 by (auto simp: bindR_eq_Inr split: if_splits)
  have "d = deleteBaselines (ic_server c) (m_db s) \<and> rx = 0 \<and> out = 0 \<or>
     billingInterfaceDelta (ic_env c) (ic_server c) p (me_Network (hb_Metrics (ic_hb c))) False (m_db s) =
       Inr ((rx, out, missing), d)"
    using q by (auto simp: bindR_eq_Inr split: sum.splits)
  then show ?thesis using s2 e by (rule that)
qed

lemma settleInterfaces_ok:
  assumes "settleInterfaces c b p s = Inr (se, s')" "billed_ok s" "distinct (bp_InterfaceIDs p)"
  shows "billed_ok s' \<and> network_billing_state (m_db s') = network_billing_state (m_db s) \<and>
    network_billing_policies (m_db s') = network_billing_policies (m_db s)"
  using assms(1)
proof (rule settleInterfaces_steps)
  fix rx out missing d s2
  assume q: "d = deleteBaselines (ic_server c) (m_db s) \<and> rx = 0 \<and> out = 0 \<or>
     billingInterfaceDelta (ic_env c) (ic_server c) p (me_Network (hb_Metrics (ic_hb c))) False (m_db s) =
       Inr ((rx, out, missing), d)"
    and a: "add c SubjectServer (ic_server c) rx out
       (s\<lparr>m_db := d, r_res := (r_res s)\<lparr>rs_ServerUp := rx, rs_ServerDown := out\<rparr>\<rparr>) = Inr s2"
    and e: "s' = s2 \<or> sample c None (se_Rx se) (se_Tx se) s2 = Inr s'"
  have d: "billing_ok d \<and> in64 rx \<and> in64 out"
    using q deleteBaselines_ok [OF assms(2)] billingInterfaceDelta_billing_ok [OF _ assms(2,3)] by auto
  have f: "network_billing_state d = network_billing_state (m_db s) \<and>
      network_billing_policies d = network_billing_policies (m_db s)"
    using q by (auto simp: deleteBaselines_def billingInterfaceDelta_def bindR_eq_Inr split: option.splits)
  have "books_ok d" using d by (simp add: billing_ok_def)
  then have b2: "books_ok (m_db s2)" using add_ok [OF _ _ _ a] d by simp
  have p2: "billing_part (m_db s2) = billing_part d" using add_part [OF a] by simp
  have "books_ok (m_db s')" using e b2 by (auto intro: sample_ok)
  moreover have "billing_part (m_db s') = billing_part d" using e p2 by (auto dest: sample_part)
  ultimately show ?thesis using billing_ok_part d f billing_partD by metis
qed

lemma updateState_ok [simp]: "billing_ok (updateState c f d) = billing_ok d"
  by (simp add: updateState_def billing_ok_def books_ok_def split: option.splits)

lemma health_ok [simp]: "billing_ok (health c row st det d) = billing_ok d"
  by (simp add: health_def billing_ok_def books_ok_def split: option.splits)

lemma finishBilling_ok [simp]: "billed_ok (finishBilling c row se src sq s) = billed_ok s"
  by (simp add: finishBilling_def)

lemma setStatus_ok [simp]: "billed_ok (setStatus c row st det s) = billed_ok s"
  by (simp add: setStatus_def)

lemma NetworkBillingSwitch_ValidateD:
  assumes "NetworkBillingSwitch_Validate E sw = Inr u"
  shows "valid_counter \<lparr>cs_Epoch = e, cs_LastRx = lc_Rx (sw_Legacy sw), cs_LastTx = lc_Tx (sw_Legacy sw),
      cs_UpdatedAt = t\<rparr>"
    "distinct (bp_InterfaceIDs (sw_Next sw))" "sw_PreviousRevision sw < bp_Revision (sw_Next sw)"
    "0 \<le> sw_PreviousRevision sw"
  using assms
  by (auto simp: NetworkBillingSwitch_Validate_def LegacyNetworkCounters_Validate_def bindR_eq_Inr
      valid_counter_def isOk_iff intro: policy_distinct split: if_splits)

lemma billing_ok_counters:
  "billing_ok d \<Longrightarrow> valid_counter_table t \<Longrightarrow> billing_ok (d\<lparr>counter_state := t\<rparr>)"
  by (simp add: billing_ok_def books_ok_def)

lemma rebaseline_ok:
  assumes "rebaseline c sw d = Inr d'" "billing_ok d" "NetworkBillingSwitch_Validate E sw = Inr u"
  shows "billing_ok d'"
proof (cases "bp_Mode (sw_Next sw) = ''interfaces''")
  case True
  with assms(1) obtain rx out where
    "billingInterfaceDelta (ic_env c) (ic_server c) (sw_Next sw) (sw_Snapshot sw) True
       (deleteBaselines (ic_server c) d) = Inr ((rx, out, 0), d')"
    by (auto simp: rebaseline_def Let_def bindR_eq_Inr split: if_splits)
  then show ?thesis
    using billingInterfaceDelta_billing_ok deleteBaselines_ok [OF assms(2)]
      NetworkBillingSwitch_ValidateD(2) [OF assms(3)] by blast
next
  case False
  have "valid_counters (deleteBaselines (ic_server c) d)"
    using deleteBaselines_ok [OF assms(2)] by (simp add: billing_ok_def books_ok_def)
  with False assms show ?thesis
    by (auto simp: rebaseline_def Let_def intro!: billing_ok_counters deleteBaselines_ok
        NetworkBillingSwitch_ValidateD(1))
qed

lemma rebaseline_frame:
  assumes "rebaseline c sw d = Inr d'"
  shows "network_billing_state d' = network_billing_state d"
    "network_billing_policies d' = network_billing_policies d"
    "network_billing_settlements d' = network_billing_settlements d"
  using assms by (auto simp: rebaseline_def deleteBaselines_def billingInterfaceDelta_def Let_def
      bindR_eq_Inr split: if_splits option.splits)

lemma recordSwitch_ok [simp]: "billing_ok (recordSwitch c sw d) = billing_ok d"
proof -
  have "billing_ok (d1\<lparr>network_billing_settlements := x\<rparr>) = billing_ok d1" for d1 x
    by (simp add: billing_ok_def books_ok_def)
  then show ?thesis by (simp add: recordSwitch_def Let_def)
qed

lemma admitSnapshot_frame:
  assumes "admitSnapshot c row p d = Inr (a, d')"
  shows "d' = d\<lparr>network_billing_sources := network_billing_sources d'\<rparr>"
  using assms by (auto simp: admitSnapshot_def Let_def bindR_eq_Inr split: option.splits if_splits)

lemma admitSnapshot_ok:
  assumes "admitSnapshot c row p d = Inr (a, d')" "billing_ok d"
  shows "billing_ok d'"
proof -
  have "billing_ok (d\<lparr>network_billing_sources := x\<rparr>) = billing_ok d" for x
    by (simp add: billing_ok_def books_ok_def)
  then show ?thesis using admitSnapshot_frame [OF assms(1)] assms(2) by metis
qed

text \<open>One settlement, step by step.\<close>

lemma settleBilling_cases:
  assumes "settleBilling c row p s = Inr s'"
  obtains (skipped) d where "admitSnapshot c row p (m_db s) = Inr (None, d)" "s' = s\<lparr>m_db := d\<rparr>"
  | (settled) src sq d se s2 where
      "admitSnapshot c row p (m_db s) = Inr (Some (src, sq), d)"
      "(if bp_Mode p = ''legacy'' then settleLegacy c (case row of None \<Rightarrow> no_state | Some b \<Rightarrow> b) (s\<lparr>m_db := d\<rparr>)
        else settleInterfaces c (case row of None \<Rightarrow> no_state | Some b \<Rightarrow> b) p (s\<lparr>m_db := d\<rparr>)) = Inr (se, s2)"
      "ic_switch c = None" "s' = (if row = None then s2 else finishBilling c row se src sq s2)"
  | (switched) src sq d se s2 sw d1 where
      "admitSnapshot c row p (m_db s) = Inr (Some (src, sq), d)"
      "(if bp_Mode p = ''legacy'' then settleLegacy c (case row of None \<Rightarrow> no_state | Some b \<Rightarrow> b) (s\<lparr>m_db := d\<rparr>)
        else settleInterfaces c (case row of None \<Rightarrow> no_state | Some b \<Rightarrow> b) p (s\<lparr>m_db := d\<rparr>)) = Inr (se, s2)"
      "ic_switch c = Some sw" "rebaseline c sw (m_db s2) = Inr d1"
      "s' = (let se' = (if se_Detail se = '''' then se\<lparr>se_Status := ''active''\<rparr> else se);
                 s3 = s2\<lparr>m_db := recordSwitch c sw d1, r_res := (r_res s2)\<lparr>rs_NetworkBillingAck := sw_ID sw\<rparr>\<rparr>
             in if row = None then s3 else finishBilling c row se' src sq s3)"
proof -
  obtain a d where a: "admitSnapshot c row p (m_db s) = Inr (a, d)"
    using assms by (auto simp: settleBilling_def elim: bindR_InrE)
  note run = assms [unfolded settleBilling_def a bindR.simps Let_def split_conv]
  show ?thesis
  proof (cases a)
    case None
    with a run show ?thesis by (intro skipped) auto
  next
    case (Some q)
    obtain src sq where q: "q = (src, sq)" by (cases q)
    show ?thesis
    proof (cases "ic_switch c")
      case None
      with run \<open>a = Some q\<close> q show ?thesis
        by (auto simp: a elim!: bindR_InrE intro!: settled)
    next
      case (Some sw)
      with run \<open>a = Some q\<close> q show ?thesis
        by (auto simp: a applySwitch_def Let_def elim!: bindR_InrE intro!: switched)
    qed
  qed
qed

lemma settle_mode_ok:
  assumes "(if bp_Mode p = ''legacy'' then settleLegacy c b s else settleInterfaces c b p s) = Inr (se, s')"
    and "billed_ok s" "distinct (bp_InterfaceIDs p)"
  shows "billed_ok s' \<and> network_billing_state (m_db s') = network_billing_state (m_db s) \<and>
    network_billing_policies (m_db s') = network_billing_policies (m_db s)"
proof (cases "bp_Mode p = ''legacy''")
  case True
  then show ?thesis using settleLegacy_ok [of c b s se s'] assms(1,2) by (auto dest: billing_partD)
next
  case False
  then show ?thesis using settleInterfaces_ok [of c b p s se s'] assms by auto
qed

lemma settleBilling_ok:
  assumes "settleBilling c row p s = Inr s'" "billed_ok s" "distinct (bp_InterfaceIDs p)"
    and "\<And>sw. ic_switch c = Some sw \<Longrightarrow> NetworkBillingSwitch_Validate (ic_env c) sw = Inr ()"
  shows "billed_ok s'"
  using assms(1)
proof (cases rule: settleBilling_cases)
  case (skipped d)
  then show ?thesis using admitSnapshot_ok assms(2) by fastforce
next
  case (settled src sq d se s2)
  have "billed_ok (s\<lparr>m_db := d\<rparr>)" using admitSnapshot_ok [OF settled(1) assms(2)] by simp
  from settle_mode_ok [OF settled(2) this assms(3)] settled(4) show ?thesis by simp
next
  case (switched src sq d se s2 sw d1)
  have "billed_ok (s\<lparr>m_db := d\<rparr>)" using admitSnapshot_ok [OF switched(1) assms(2)] by simp
  from settle_mode_ok [OF switched(2) this assms(3)] have "billing_ok d1"
    using rebaseline_ok [OF switched(4)] assms(4) [OF switched(3)] by blast
  then show ?thesis using switched(5) by (simp add: Let_def)
qed

lemma ingestNetworkBilling_ok:
  assumes r: "ingestNetworkBilling c s = Inr s'" and ok: "billed_ok s"
    and sw: "\<And>sw. ic_switch c = Some sw \<Longrightarrow> NetworkBillingSwitch_Validate (ic_env c) sw = Inr ()"
  shows "billed_ok s'"
proof -
  define row where "row = stateRow c (m_db s)"
  define b where "b = (case row of None \<Rightarrow> no_state | Some b \<Rightarrow> b)"
  obtain p where p: "BillingPolicy (ic_server c) (bs_Current b) (m_db s) = Inr p"
    using r by (auto simp: ingestNetworkBilling_def Let_def row_def b_def elim: bindR_InrE)
  have "distinct (bp_InterfaceIDs p)" by (rule BillingPolicy_distinct [OF ok p])
  note settle = settleBilling_ok [OF _ ok this sw]
  note run = r [unfolded ingestNetworkBilling_def Let_def, folded row_def, folded b_def, unfolded p bindR.simps]
  show ?thesis
  proof (cases "ic_switch c")
    case None
    then show ?thesis using run ok settle by (auto split: if_splits)
  next
    case (Some x)
    then show ?thesis using run ok settle by (auto elim!: bindR_InrE split: if_splits)
  qed
qed

section \<open>Cutovers\<close>

text \<open>
  A cutover that went through is recorded: the revision moves to the next policy, which is
  newer, and the same cutover sent again is acknowledged without touching the database.
\<close>

lemma updateState_lookup:
  "stateRow c (updateState c f d) = map_option f (stateRow c d)"
  by (simp add: updateState_def split: option.splits)

lemma updateState_frame [simp]:
  "network_billing_settlements (updateState c f d) = network_billing_settlements d"
  "network_billing_policies (updateState c f d) = network_billing_policies d"
  by (simp_all add: updateState_def split: option.splits)

lemma health_frame [simp]:
  "network_billing_settlements (health c row st det d) = network_billing_settlements d"
  "network_billing_policies (health c row st det d) = network_billing_policies d"
  "network_billing_state (health c row st det d) = network_billing_state d"
  by (simp_all add: health_def split: option.splits)

lemma finishBilling_lookup:
  "stateRow c (m_db (finishBilling c row se src sq s)) =
     map_option (\<lambda>b. b\<lparr>bs_RxTotal := se_Rx se, bs_TxTotal := se_Tx se, bs_Status := se_Status se,
               bs_Error := se_Detail se, bs_SampledAt := ic_ts c, bs_Source := src, bs_Sequence := sq\<rparr>)
       (stateRow c (m_db s))"
  "network_billing_settlements (m_db (finishBilling c row se src sq s)) = network_billing_settlements (m_db s)"
  "network_billing_policies (m_db (finishBilling c row se src sq s)) = network_billing_policies (m_db s)"
  "r_res (finishBilling c row se src sq s) = r_res s"
  by (simp_all add: finishBilling_def updateState_lookup)

lemma recordSwitch_frame:
  "stateRow c (recordSwitch c sw d) =
     map_option (\<lambda>b. b\<lparr>bs_Current := bp_Revision (sw_Next sw), bs_AppliedAt := ic_ts c\<rparr>) (stateRow c d)"
  "lookup (network_billing_settlements (recordSwitch c sw d)) (ic_server c, sw_ID sw) =
     Some (digestSwitch (ic_env c) sw)"
  "network_billing_policies (recordSwitch c sw d) = network_billing_policies d"
  by (simp_all add: recordSwitch_def Let_def updateState_lookup)

lemma checkSwitch_new:
  assumes "checkSwitch c row sw d = Inr False"
  obtains b where "row = Some b" "sw_PreviousRevision sw = bs_Current b"
    "bp_Revision (sw_Next sw) \<le> bs_Requested b"
    "BillingPolicy (ic_server c) (bp_Revision (sw_Next sw)) d = Inr (sw_Next sw)"
  using assms by (auto simp: checkSwitch_def bindR_eq_Inr NetworkBillingPolicy_Equal_def
      split: option.splits if_splits)

lemma settleBilling_switch:
  assumes r: "settleBilling c (Some b) p s = Inr s'" and sw: "ic_switch c = Some sw"
    and row: "stateRow c (m_db s) = Some b" and ok: "billed_ok s" "distinct (bp_InterfaceIDs p)"
  shows "(\<exists>b'. stateRow c (m_db s') = Some b' \<and> bs_Current b' = bp_Revision (sw_Next sw) \<and>
      bs_Requested b' = bs_Requested b) \<and>
    lookup (network_billing_settlements (m_db s')) (ic_server c, sw_ID sw) = Some (digestSwitch (ic_env c) sw) \<and>
    network_billing_policies (m_db s') = network_billing_policies (m_db s) \<and>
    rs_NetworkBillingAck (r_res s') = sw_ID sw"
  using r
proof (cases rule: settleBilling_cases)
  case (skipped d)
  then show ?thesis using sw
    by (auto simp: admitSnapshot_def Let_def bindR_eq_Inr split: option.splits if_splits)
next
  case (settled src sq d se s2)
  then show ?thesis using sw by simp
next
  case (switched src sq d se s2 sw' d1)
  have o: "billed_ok (s\<lparr>m_db := d\<rparr>)" using admitSnapshot_ok [OF switched(1) ok(1)] by simp
  note m = settle_mode_ok [OF switched(2) o ok(2)]
  have ad: "network_billing_state d = network_billing_state (m_db s)"
    "network_billing_policies d = network_billing_policies (m_db s)"
    by (subst admitSnapshot_frame [OF switched(1)], simp)+
  have "stateRow c d1 = Some b" "network_billing_policies d1 = network_billing_policies (m_db s)"
    using m ad row rebaseline_frame [OF switched(4)] by simp_all
  then show ?thesis using switched(3,5) sw
    by (simp add: Let_def finishBilling_lookup recordSwitch_frame)
qed

lemma ingestNetworkBilling_switch_cases:
  assumes r: "ingestNetworkBilling c s = Inr s'" and sw: "ic_switch c = Some sw"
  obtains (replay) "lookup (network_billing_settlements (m_db s)) (ic_server c, sw_ID sw) =
      Some (digestSwitch (ic_env c) sw)"
      "s' = s\<lparr>r_res := (r_res s)\<lparr>rs_NetworkBillingAck := sw_ID sw\<rparr>\<rparr>"
  | (fresh) b p where "stateRow c (m_db s) = Some b" "sw_PreviousRevision sw = bs_Current b"
      "BillingPolicy (ic_server c) (bs_Current b) (m_db s) = Inr p"
      "BillingPolicy (ic_server c) (bp_Revision (sw_Next sw)) (m_db s) = Inr (sw_Next sw)"
      "settleBilling c (Some b) p s = Inr s'"
      "lookup (network_billing_settlements (m_db s)) (ic_server c, sw_ID sw) = None"
proof -
  define row where "row = stateRow c (m_db s)"
  define b where "b = (case row of None \<Rightarrow> no_state | Some b \<Rightarrow> b)"
  obtain p where p: "BillingPolicy (ic_server c) (bs_Current b) (m_db s) = Inr p"
    using r by (auto simp: ingestNetworkBilling_def Let_def row_def b_def elim: bindR_InrE)
  note run = r [unfolded ingestNetworkBilling_def Let_def, folded row_def, folded b_def, unfolded p bindR.simps]
  obtain q where q: "checkSwitch c row sw (m_db s) = Inr q"
    using run sw by (auto elim: bindR_InrE)
  show ?thesis
  proof (cases q)
    case True
    then show ?thesis using q run sw
      by (auto simp: checkSwitch_def bindR_eq_Inr split: option.splits if_splits intro!: replay)
  next
    case False
    then obtain b' where n: "row = Some b'" "sw_PreviousRevision sw = bs_Current b'"
      "BillingPolicy (ic_server c) (bp_Revision (sw_Next sw)) (m_db s) = Inr (sw_Next sw)"
      using q checkSwitch_new by metis
    have "lookup (network_billing_settlements (m_db s)) (ic_server c, sw_ID sw) = None"
      using q False by (auto simp: checkSwitch_def split: option.splits if_splits)
    moreover have "b = b'" using n(1) by (simp add: b_def)
    ultimately show ?thesis using fresh [OF _ n(2) _ n(3)] p n(1) run q False sw by (simp add: row_def)
  qed
qed

lemma cutover_replay:
  assumes r: "ingestNetworkBilling c s = Inr s'" and sw: "ic_switch c = Some sw" and ok: "billed_ok s"
  shows "rs_NetworkBillingAck (r_res s') = sw_ID sw \<and> ingestNetworkBilling c s' = Inr s'"
  using r sw
proof (cases rule: ingestNetworkBilling_switch_cases)
  case replay
  then have m: "m_db s' = m_db s" by simp
  show ?thesis using r replay sw
    by (simp add: ingestNetworkBilling_def checkSwitch_def Let_def m)
next
  case (fresh b p)
  note fin = settleBilling_switch [OF fresh(5) sw fresh(1) ok BillingPolicy_distinct [OF ok fresh(3)]]
  then obtain b' where b': "stateRow c (m_db s') = Some b'" "bs_Current b' = bp_Revision (sw_Next sw)"
    by blast
  have "BillingPolicy (ic_server c) (bs_Current b') (m_db s') = Inr (sw_Next sw)"
    using fresh(4) fin b'(2) by (simp add: BillingPolicy_def split: if_splits)
  moreover have "s'\<lparr>r_res := (r_res s')\<lparr>rs_NetworkBillingAck := sw_ID sw\<rparr>\<rparr> = s'"
    using fin by simp
  ultimately show ?thesis using fin b'(1) sw
    by (simp add: ingestNetworkBilling_def checkSwitch_def Let_def)
qed

lemma cutover_advances:
  assumes r: "ingestNetworkBilling c s = Inr s'" and sw: "ic_switch c = Some sw" and ok: "billed_ok s"
    and v: "NetworkBillingSwitch_Validate (ic_env c) sw = Inr ()"
    and new: "lookup (network_billing_settlements (m_db s)) (ic_server c, sw_ID sw) = None"
  shows "\<exists>b b'. stateRow c (m_db s) = Some b \<and> stateRow c (m_db s') = Some b' \<and>
    bs_Current b' = bp_Revision (sw_Next sw) \<and> bs_Current b < bs_Current b'"
  using r sw
proof (cases rule: ingestNetworkBilling_switch_cases)
  case replay
  then show ?thesis using new by simp
next
  case (fresh b p)
  then show ?thesis
    using settleBilling_switch [OF fresh(5) sw fresh(1) ok BillingPolicy_distinct [OF ok fresh(3)]]
      NetworkBillingSwitch_ValidateD(3) [OF v] by auto
qed

end
