(* ===== verification/Generations.thy ===== *)
theory Generations
  imports Tables
begin

text \<open>
  The publication barrier: every server has a network generation, and the database
  triggers of \<^verbatim>\<open>internal/store/schema.go\<close>, \<^verbatim>\<open>node_application_schema.go\<close>,
  \<^verbatim>\<open>share_node_quota_schema.go\<close> and \<^verbatim>\<open>forward_schema.go\<close> advance it whenever a row changes
  that the server's desired state is built from. A write to a share, node or server row is
  the new row together with the triggers it fires. Two triggers react to a generation that
  moves; SQLite runs the one created last first, so \<^verbatim>\<open>network_generation_supersedes\<close> has the
  last word on the retry columns.
\<close>

section \<open>Generations\<close>

definition supersedes :: "i64 \<Rightarrow> i64 \<Rightarrow> time \<Rightarrow> NetworkOperation \<Rightarrow> NetworkOperation" where
  "supersedes serverID generation now op =
     (if no_ServerID op = serverID \<and> no_Generation op < generation \<and>
         no_Status op \<notin> {''saved'', ''applied'', ''superseded''}
      then op\<lparr>no_Status := ''superseded'', no_Message := ''replaced by a newer network configuration'',
              no_UpdatedAt := now\<rparr> else op)"

definition advanceRow :: "NetworkGeneration \<Rightarrow> NetworkGeneration" where
  "advanceRow g = g\<lparr>ng_Generation := ng_Generation g + 1, ng_Attempts := 0, ng_Retry := 0,
     ng_NextAttempt := unix_epoch\<rparr>"

definition firstGeneration :: NetworkGeneration where
  "firstGeneration = \<lparr>ng_Generation = 1, ng_Published = 0, ng_Attempts = 0, ng_Retry = 0,
     ng_NextAttempt = unix_epoch\<rparr>"

text \<open>\<^verbatim>\<open>UPDATE server_network_generations SET generation=generation+1 WHERE server_id=?\<close>\<close>

definition bumpGeneration :: "time \<Rightarrow> i64 \<Rightarrow> db \<Rightarrow> db" where
  "bumpGeneration now sid d =
     (case lookup (server_network_generations d) sid of None \<Rightarrow> d
      | Some g \<Rightarrow>
          d\<lparr>server_network_generations := upsert sid (advanceRow g) (server_network_generations d),
            network_operations := map (supersedes sid (ng_Generation g + 1) now) (network_operations d)\<rparr>)"

text \<open>... \<^verbatim>\<open>WHERE server_id IN (...)\<close>: each matching row moves once.\<close>

definition bumpGenerations :: "time \<Rightarrow> i64 list \<Rightarrow> db \<Rightarrow> db" where
  "bumpGenerations now sids d = fold (bumpGeneration now) (remdups sids) d"

text \<open>\<^verbatim>\<open>INSERT INTO ... VALUES(?,1) ON CONFLICT(server_id) DO UPDATE SET generation=generation+1\<close>\<close>

definition advanceGeneration :: "i64 \<Rightarrow> time \<Rightarrow> db \<Rightarrow> db" where
  "advanceGeneration serverID now d =
     (case lookup (server_network_generations d) serverID of
        None \<Rightarrow> d\<lparr>server_network_generations := upsert serverID firstGeneration (server_network_generations d)\<rparr>
      | Some _ \<Rightarrow> bumpGeneration now serverID d)"

definition networkGeneration :: "i64 \<Rightarrow> db \<Rightarrow> i64" where
  "networkGeneration sid d =
     (case lookup (server_network_generations d) sid of None \<Rightarrow> 0 | Some g \<Rightarrow> ng_Generation g)"

section \<open>Shares\<close>

text \<open>\<^verbatim>\<open>SELECT server_id FROM nodes WHERE share_id=? AND source='deployed'\<close>\<close>

definition shareServers :: "i64 \<Rightarrow> db \<Rightarrow> i64 list" where
  "shareServers shareID d =
     List.map_filter nd_ServerID
       (filter (\<lambda>n. nd_ShareID n = Some shareID \<and> nd_Source n = NodeDeployed) (nodes d))"

definition usageBilled :: "string \<Rightarrow> (i64 \<rightharpoonup> i64 \<times> i64) \<Rightarrow> i64 \<Rightarrow> int" where
  "usageBilled mode usage nid =
     (case (case usage nid of None \<Rightarrow> (0, 0) | Some p \<Rightarrow> p) of (up, down) \<Rightarrow>
        if mode = BillingUp then up else if mode = BillingDown then down
        else if mode = BillingMax then max up down else up + down)"

definition quotaCrossed :: "Share \<Rightarrow> Share \<Rightarrow> Node \<Rightarrow> bool" where
  "quotaCrossed old new n \<longleftrightarrow>
     list_ex (\<lambda>t. nd_ServerID n = Some (st_ServerID t) \<and>
       list_ex (\<lambda>(proto, quota). nd_Protocol n = proto \<and> quota > 0 \<and>
         (usageBilled (sh_BillingMode old) (sh_NodeUsage old) (nd_ID n) \<ge> quota) \<noteq>
         (usageBilled (sh_BillingMode new) (sh_NodeUsage new) (nd_ID n) \<ge> quota)) (st_QuotaBytes t))
       (sh_Targets new)"

definition network_generation_share_update :: "time \<Rightarrow> Share \<Rightarrow> Share \<Rightarrow> db \<Rightarrow> db" where
  "network_generation_share_update now old new d =
     (if sh_Status new \<noteq> sh_Status old \<or> sh_ConnlogEnabled new \<noteq> sh_ConnlogEnabled old
      then bumpGenerations now (shareServers (sh_ID new) d) d else d)"

definition network_generation_share_access :: "time \<Rightarrow> Share \<Rightarrow> Share \<Rightarrow> db \<Rightarrow> db" where
  "network_generation_share_access now old new d =
     (if sh_ExpiresAt new \<noteq> sh_ExpiresAt old \<or> sh_QuotaBytes new \<noteq> sh_QuotaBytes old \<or>
         sh_BillingMode new \<noteq> sh_BillingMode old
      then bumpGenerations now (shareServers (sh_ID new) d) d else d)"

definition network_generation_share_targets :: "time \<Rightarrow> Share \<Rightarrow> Share \<Rightarrow> db \<Rightarrow> db" where
  "network_generation_share_targets now old new d =
     (if sh_Targets new \<noteq> sh_Targets old then bumpGenerations now (shareServers (sh_ID new) d) d else d)"

text \<open>
  Fired only by the statements that assign \<^verbatim>\<open>node_usage\<close>; none of them assigns the billing
  mode, so a usage that did not change crosses no quota and the trigger's guard is implied.
\<close>

definition network_generation_share_node_usage :: "time \<Rightarrow> Share \<Rightarrow> Share \<Rightarrow> db \<Rightarrow> db" where
  "network_generation_share_node_usage now old new d =
     bumpGenerations now
       (List.map_filter nd_ServerID
          (filter (\<lambda>n. nd_ShareID n = Some (sh_ID new) \<and> nd_Source n = NodeDeployed \<and> quotaCrossed old new n)
            (nodes d))) d"

definition shareTriggers :: "time \<Rightarrow> Share \<Rightarrow> Share \<Rightarrow> db \<Rightarrow> db" where
  "shareTriggers now old new d =
     network_generation_share_targets now old new
       (network_generation_share_access now old new (network_generation_share_update now old new d))"

text \<open>An \<^verbatim>\<open>UPDATE shares ... WHERE id=?\<close>; \<open>writeUsage\<close> when it assigns \<^verbatim>\<open>node_usage\<close>.\<close>

definition writeShare :: "time \<Rightarrow> Share \<Rightarrow> db \<Rightarrow> db" where
  "writeShare now v d =
     (case lookup (shares d) (sh_ID v) of None \<Rightarrow> d
      | Some old \<Rightarrow> shareTriggers now old v (d\<lparr>shares := upsert (sh_ID v) v (shares d)\<rparr>))"

definition writeUsage :: "time \<Rightarrow> Share \<Rightarrow> db \<Rightarrow> db" where
  "writeUsage now v d =
     (case lookup (shares d) (sh_ID v) of None \<Rightarrow> d
      | Some old \<Rightarrow> network_generation_share_node_usage now old v (writeShare now v d))"

section \<open>Servers\<close>

definition network_generation_server_update :: "time \<Rightarrow> Server \<Rightarrow> Server \<Rightarrow> db \<Rightarrow> db" where
  "network_generation_server_update now old new d =
     (if sv_Name new \<noteq> sv_Name old \<or> sv_PublicHost new \<noteq> sv_PublicHost old \<or> sv_CoreMode new \<noteq> sv_CoreMode old \<or>
         sv_IPv4Only new \<noteq> sv_IPv4Only old \<or> sv_CertMode new \<noteq> sv_CertMode old \<or> sv_Enabled new \<noteq> sv_Enabled old
      then bumpGeneration now (sv_ID new) d else d)"

definition writeServer :: "time \<Rightarrow> Server \<Rightarrow> db \<Rightarrow> db" where
  "writeServer now v d =
     (case lookup (servers d) (sv_ID v) of None \<Rightarrow> d
      | Some old \<Rightarrow> network_generation_server_update now old v (d\<lparr>servers := upsert (sv_ID v) v (servers d)\<rparr>))"

section \<open>What a trigger touches\<close>

text \<open>\<open>gen_frame d d'\<close>: only the generations and the operations differ.\<close>

definition gen_frame :: "db \<Rightarrow> db \<Rightarrow> bool" where
  "gen_frame d d' \<longleftrightarrow> (\<exists>g ops. d' = d\<lparr>server_network_generations := g, network_operations := ops\<rparr>)"

lemma gen_frame_E:
  assumes "gen_frame d d'"
  obtains g ops where "d' = d\<lparr>server_network_generations := g, network_operations := ops\<rparr>"
  using assms unfolding gen_frame_def by blast

lemma gen_frame_upd [simp, intro]:
  "gen_frame d (d\<lparr>server_network_generations := g, network_operations := ops\<rparr>)"
  by (auto simp: gen_frame_def)

lemma gen_frame_refl [simp, intro]: "gen_frame d d"
  using gen_frame_upd [where d = d and g = "server_network_generations d" and ops = "network_operations d"] by simp

lemma gen_frame_trans: "gen_frame a b \<Longrightarrow> gen_frame b c \<Longrightarrow> gen_frame a c"
  by (elim gen_frame_E) simp

lemma bumpGeneration_frame: "gen_frame d (bumpGeneration now sid d)"
  by (simp add: bumpGeneration_def split: option.splits)

lemma bumpGenerations_frame: "gen_frame d (bumpGenerations now sids d)"
proof -
  have "gen_frame d (fold (bumpGeneration now) xs d)" for xs
    by (induction xs arbitrary: d) (auto intro: gen_frame_trans bumpGeneration_frame)
  then show ?thesis by (simp add: bumpGenerations_def)
qed

lemma shareTrigger_frames:
  "gen_frame d (network_generation_share_update now old new d)"
  "gen_frame d (network_generation_share_access now old new d)"
  "gen_frame d (network_generation_share_targets now old new d)"
  "gen_frame d (network_generation_share_node_usage now old new d)"
  by (simp_all add: network_generation_share_targets_def network_generation_share_access_def
      network_generation_share_update_def network_generation_share_node_usage_def bumpGenerations_frame)

lemma shareTriggers_frame: "gen_frame d (shareTriggers now old new d)"
  unfolding shareTriggers_def
  by (rule gen_frame_trans [OF gen_frame_trans [OF shareTrigger_frames(1) shareTrigger_frames(2)] shareTrigger_frames(3)])

lemma writeShare_frame: "gen_frame (d\<lparr>shares := shares (writeShare now v d)\<rparr>) (writeShare now v d)"
proof (cases "lookup (shares d) (sh_ID v)")
  case None
  then show ?thesis by (simp add: writeShare_def)
next
  case (Some old)
  then show ?thesis
    using shareTriggers_frame [of "d\<lparr>shares := upsert (sh_ID v) v (shares d)\<rparr>" now old v]
    by (auto simp: writeShare_def elim!: gen_frame_E)
qed

lemma writeShare_shares [simp]:
  "shares (writeShare now v d) =
     (if lookup (shares d) (sh_ID v) = None then shares d else upsert (sh_ID v) v (shares d))"
proof (cases "lookup (shares d) (sh_ID v)")
  case None
  then show ?thesis by (simp add: writeShare_def)
next
  case (Some old)
  then show ?thesis
    using shareTriggers_frame [of "d\<lparr>shares := upsert (sh_ID v) v (shares d)\<rparr>" now old v]
    by (auto simp: writeShare_def elim!: gen_frame_E)
qed

lemma writeUsage_frame: "gen_frame (writeShare now v d) (writeUsage now v d)"
  by (simp add: writeUsage_def writeShare_def network_generation_share_node_usage_def bumpGenerations_frame
      split: option.splits)

lemma writeUsage_shares [simp]: "shares (writeUsage now v d) = shares (writeShare now v d)"
  using writeUsage_frame [where now = now and v = v and d = d] by (auto elim!: gen_frame_E simp del: writeShare_shares)

text \<open>A write to a share changes the shares, the generations and the operations only.\<close>

definition share_frame :: "db \<Rightarrow> db \<Rightarrow> bool" where
  "share_frame d d' \<longleftrightarrow>
     (\<exists>x g ops. d' = d\<lparr>shares := x, server_network_generations := g, network_operations := ops\<rparr>)"

lemma share_frame_E:
  assumes "share_frame d d'"
  obtains x g ops where "d' = d\<lparr>shares := x, server_network_generations := g, network_operations := ops\<rparr>"
  using assms unfolding share_frame_def by blast

lemma share_frame_refl [simp, intro]: "share_frame d d"
proof -
  have "d = d\<lparr>shares := shares d, server_network_generations := server_network_generations d,
    network_operations := network_operations d\<rparr>" by simp
  then show ?thesis unfolding share_frame_def by blast
qed

lemma share_frame_trans: "share_frame a b \<Longrightarrow> share_frame b c \<Longrightarrow> share_frame a c"
  by (elim share_frame_E) (auto simp: share_frame_def)

lemma gen_frame_share_frame:
  assumes "gen_frame a b"
  shows "share_frame a b"
proof -
  obtain g ops where b: "b = a\<lparr>server_network_generations := g, network_operations := ops\<rparr>"
    using assms by (rule gen_frame_E)
  then have "b = a\<lparr>shares := shares a, server_network_generations := g, network_operations := ops\<rparr>" by simp
  then show ?thesis unfolding share_frame_def by blast
qed

lemma writeShare_share_frame: "share_frame d (writeShare now v d)"
  using writeShare_frame [where now = now and v = v and d = d]
  by (auto simp: share_frame_def elim!: gen_frame_E)

lemma writeUsage_share_frame: "share_frame d (writeUsage now v d)"
  by (rule share_frame_trans [OF writeShare_share_frame gen_frame_share_frame [OF writeUsage_frame]])

lemma writeServer_frame: "gen_frame (d\<lparr>servers := servers (writeServer now v d)\<rparr>) (writeServer now v d)"
  by (auto simp: writeServer_def network_generation_server_update_def bumpGeneration_def split: option.splits)

lemma writeServer_servers [simp]:
  "servers (writeServer now v d) =
     (if lookup (servers d) (sv_ID v) = None then servers d else upsert (sv_ID v) v (servers d))"
  by (auto simp: writeServer_def network_generation_server_update_def bumpGeneration_def split: option.splits)

section \<open>Which generations move\<close>

lemma bumpGeneration_lookup:
  "lookup (server_network_generations (bumpGeneration now sid d)) i =
     (if i = sid then map_option advanceRow (lookup (server_network_generations d) i)
      else lookup (server_network_generations d) i)"
  by (auto simp: bumpGeneration_def split: option.splits)

lemma bumpGenerations_lookup:
  "lookup (server_network_generations (bumpGenerations now sids d)) i =
     (if i \<in> set sids then map_option advanceRow (lookup (server_network_generations d) i)
      else lookup (server_network_generations d) i)"
proof -
  have "lookup (server_network_generations (fold (bumpGeneration now) xs d)) i =
     (if i \<in> set xs then map_option advanceRow (lookup (server_network_generations d) i)
      else lookup (server_network_generations d) i)" if "distinct xs" for xs
    using that by (induction xs arbitrary: d) (auto simp: bumpGeneration_lookup)
  from this [of "remdups sids"] show ?thesis by (simp add: bumpGenerations_def)
qed

lemma networkGeneration_bump:
  "networkGeneration i (bumpGenerations now sids d) =
     networkGeneration i d + (if i \<in> set sids \<and> lookup (server_network_generations d) i \<noteq> None then 1 else 0)"
  by (auto simp: networkGeneration_def bumpGenerations_lookup advanceRow_def split: option.splits)

lemma networkGeneration_bump_mono: "networkGeneration i d \<le> networkGeneration i (bumpGenerations now sids d)"
  by (simp add: networkGeneration_bump)

lemma bump_keeps_row:
  "(lookup (server_network_generations (bumpGenerations now sids d)) i = None) =
   (lookup (server_network_generations d) i = None)"
  by (simp add: bumpGenerations_lookup)

section \<open>Invariants under the triggers\<close>

text \<open>
  What a fact about the database has to satisfy to survive every write to a share or server
  row: it does not depend on those rows, and a generation that moves keeps it.
\<close>

locale trigger_invariant =
  fixes inv :: "db \<Rightarrow> bool"
  assumes bump_inv: "inv d \<Longrightarrow> inv (bumpGenerations now sids d)"
    and shares_inv: "inv d \<Longrightarrow> inv (d\<lparr>shares := x\<rparr>)"
    and servers_inv: "inv d \<Longrightarrow> inv (d\<lparr>servers := y\<rparr>)"
begin

lemma bump1_inv: "inv d \<Longrightarrow> inv (bumpGeneration now sid d)"
  using bump_inv [of d now "[sid]"] by (simp add: bumpGenerations_def)

lemma shareTriggers_inv: "inv d \<Longrightarrow> inv (shareTriggers now old new d)"
  by (simp add: shareTriggers_def network_generation_share_update_def network_generation_share_access_def
      network_generation_share_targets_def bump_inv)

lemma writeShare_inv: "inv d \<Longrightarrow> inv (writeShare now v d)"
  by (simp add: writeShare_def shareTriggers_inv shares_inv split: option.splits)

lemma writeUsage_inv: "inv d \<Longrightarrow> inv (writeUsage now v d)"
  by (simp add: writeUsage_def network_generation_share_node_usage_def bump_inv writeShare_inv split: option.splits)

lemma writeServer_inv: "inv d \<Longrightarrow> inv (writeServer now v d)"
  by (simp add: writeServer_def network_generation_server_update_def bump1_inv servers_inv split: option.splits)

end

lemma networkGeneration_frame [simp]:
  "networkGeneration sid (d\<lparr>shares := x\<rparr>) = networkGeneration sid d"
  "networkGeneration sid (d\<lparr>servers := y\<rparr>) = networkGeneration sid d"
  by (simp_all add: networkGeneration_def)

interpretation generation_mono: trigger_invariant "\<lambda>d. n \<le> networkGeneration sid d"
  by unfold_locales (simp_all add: order_trans [OF _ networkGeneration_bump_mono])

lemmas generation_mono_writes =
  generation_mono.writeShare_inv [OF order_refl] generation_mono.writeUsage_inv [OF order_refl]
  generation_mono.writeServer_inv [OF order_refl]

end
