(* ===== verification/Receipts.thy ===== *)
theory Receipts
  imports Cutover Generations
begin

text \<open>
  Port forwards in the books: the counters of forwards (\<^verbatim>\<open>internal/traffic/forward.go\<close>) and the
  receipts by which an agent confirms a published forward configuration
  (\<^verbatim>\<open>internal/store/forward_receipt.go\<close>), with the triggers of \<^verbatim>\<open>forward_schema.go\<close> that a
  retired forward fires.
\<close>

section \<open>Forward counters\<close>

definition forwardKey :: "ForwardCounter \<Rightarrow> string" where
  "forwardKey counter =
     ''forward:'' @ show_int (fc_ForwardID counter) @ '':nft-forward-v1:'' @ fc_Epoch counter"

definition ingestForwardCounter :: "ictx \<Rightarrow> run \<Rightarrow> ForwardCounter \<Rightarrow> run res" where
  "ingestForwardCounter c s counter =
     (case lookup (port_forwards (m_db s)) (fc_ForwardID counter) of
        None \<Rightarrow> Inl (Err ''unknown or foreign forward counter identity'')
      | Some fwd \<Rightarrow>
        if pf_ServerID fwd \<noteq> ic_server c
        then Inl (Err ''unknown or foreign forward counter identity'')
        else
          bindR (delta (ic_meter c) (forwardKey counter) (fc_Epoch counter) (fc_Rx counter) (fc_Tx counter) True s)
            (\<lambda>((rx, tx, ok), s1).
              if ok \<and> (rx \<noteq> 0 \<or> tx \<noteq> 0) then add c SubjectForward (fc_ForwardID counter) rx tx s1
              else Inr s1))"

definition ingestForwardCounters :: "ictx \<Rightarrow> ForwardCounter list \<Rightarrow> run \<Rightarrow> run res" where
  "ingestForwardCounters c counters s = foldE (ingestForwardCounter c) s counters"

section \<open>Receipts\<close>

definition NetworkForwardVersion :: int where "NetworkForwardVersion = 1"

definition checkPublished :: "i64 \<Rightarrow> ForwardReceipt \<Rightarrow> db \<Rightarrow> unit \<Rightarrow> ForwardRef \<Rightarrow> unit res" where
  "checkPublished serverID r d u f =
     (if \<not> list_ex (\<lambda>k. fc_ForwardID k = ff_ForwardID f) (fr_Counters r)
      then Inl (Err ''forward receipt lacks a meter identity'')
      else case lookup (port_forwards d) (ff_ForwardID f) of
             None \<Rightarrow> Inl ErrNoRows
           | Some row \<Rightarrow>
               if pf_ServerID row \<noteq> serverID \<or> pf_Revision row < ff_Revision f
               then Inl (Err ''forward receipt uses another server or a future revision'')
               else Inr ())"

definition CheckForwardReceipt :: "env \<Rightarrow> i64 \<Rightarrow> ForwardReceipt \<Rightarrow> db \<Rightarrow> (bool \<times> ForwardRef list) res" where
  "CheckForwardReceipt E serverID r d =
     bindR (ForwardReceipt_Validate r) (\<lambda>_.
       case lookup (forward_receipts d) (serverID, fr_ID r) of
         Some digest \<Rightarrow>
           if digest \<noteq> digestReceipt E r then Inl (Err ''forward receipt ID conflicts in content'')
           else Inr (True, [])
       | None \<Rightarrow>
           (case lookup (desired_states d) (serverID, fr_Revision r) of
              None \<Rightarrow> Inl ErrNoRows
            | Some ds \<Rightarrow>
              if dr_Hash ds \<noteq> fr_Hash r \<or>
                 ds_NetworkForwardVersion (dr_Payload ds) \<noteq> NetworkForwardVersion \<or>
                 length (ds_Forwards (dr_Payload ds)) \<noteq> length (fr_Counters r)
              then Inl (Err ''forward receipt differs from the published configuration'')
              else bindR (foldE (checkPublished serverID r d) () (ds_Forwards (dr_Payload ds)))
                     (\<lambda>_. Inr (False, ds_Forwards (dr_Payload ds)))))"

text \<open>The trigger chain of a deleted forward: its reservations go, and the server's network
  generation moves on if the server still exists, superseding the operations that were
  waiting for an older one.\<close>

definition deleteForward :: "i64 \<Rightarrow> i64 \<Rightarrow> time \<Rightarrow> db \<Rightarrow> db" where
  "deleteForward serverID fid now d =
     (if lookup (servers d) serverID = None then (\<lambda>x. x) else advanceGeneration serverID now)
       (d\<lparr>port_forwards := deleteWhere (\<lambda>(i, _). i = fid) (port_forwards d),
          port_forward_revisions := deleteWhere (\<lambda>((i, _), _). i = fid) (port_forward_revisions d),
          listener_reservations :=
            filter (\<lambda>l. \<not> (lr_Kind l = ''forward'' \<and> lr_ResourceID l = fid)) (listener_reservations d)\<rparr>)"

definition releaseListeners :: "i64 \<Rightarrow> ForwardRef \<Rightarrow> db \<Rightarrow> db" where
  "releaseListeners serverID f d =
     (let kept = map snd (filter (\<lambda>((i, revision), _). i = ff_ForwardID f \<and> revision \<ge> ff_Revision f)
                    (port_forward_revisions d))
      in d\<lparr>listener_reservations :=
             filter (\<lambda>l. \<not> (lr_ServerID l = serverID \<and> lr_Kind l = ''forward'' \<and>
                           lr_ResourceID l = ff_ForwardID f \<and> lr_ListenPort l \<notin> set kept))
               (listener_reservations d)\<rparr>)"

definition retireForward :: "i64 \<Rightarrow> time \<Rightarrow> db \<Rightarrow> ForwardRef \<Rightarrow> db res" where
  "retireForward serverID now d f =
     (if ff_Retired f then
        (case lookup (port_forwards d) (ff_ForwardID f) of
           None \<Rightarrow> Inl (Err ''retired forward revision mismatch'')
         | Some row \<Rightarrow>
             if pf_ServerID row = serverID \<and> pf_Revision row = ff_Revision f \<and> pf_Retired row
             then Inr (deleteForward serverID (ff_ForwardID f) now d)
             else Inl (Err ''retired forward revision mismatch''))
      else Inr (releaseListeners serverID f d))"

definition completeOperation :: "i64 \<Rightarrow> ForwardReceipt \<Rightarrow> time \<Rightarrow> NetworkOperation \<Rightarrow> NetworkOperation" where
  "completeOperation serverID r now op =
     (if no_ServerID op = serverID \<and> no_DesiredRevision op = fr_Revision r \<and> no_DesiredHash op = fr_Hash r \<and>
         no_Status op \<in> {''waiting_agent'', ''apply_failed''}
      then op\<lparr>no_Status := ''applied'', no_Message := ''configuration and forward cleanup confirmed'',
              no_UpdatedAt := now\<rparr> else op)"

definition CommitForwardReceipt ::
  "env \<Rightarrow> i64 \<Rightarrow> ForwardReceipt \<Rightarrow> ForwardRef list \<Rightarrow> time \<Rightarrow> db \<Rightarrow> db res" where
  "CommitForwardReceipt E serverID r applied now d =
     foldE (retireForward serverID now)
       (d\<lparr>forward_receipts := upsert (serverID, fr_ID r) (digestReceipt E r) (forward_receipts d),
          network_operations := map (completeOperation serverID r now) (network_operations d)\<rparr>)
       applied"

section \<open>Forward counters keep the books and reach only forward buckets\<close>

lemma ingestForwardCounter_cases:
  assumes "ingestForwardCounter c s k = Inr s'"
  obtains rx tx ok s1 fwd where
    "lookup (port_forwards (m_db s)) (fc_ForwardID k) = Some fwd" "pf_ServerID fwd = ic_server c"
    "delta (ic_meter c) (forwardKey k) (fc_Epoch k) (fc_Rx k) (fc_Tx k) True s = Inr ((rx, tx, ok), s1)"
    "ok \<and> (rx \<noteq> 0 \<or> tx \<noteq> 0) \<and> add c SubjectForward (fc_ForwardID k) rx tx s1 = Inr s' \<or>
     \<not> (ok \<and> (rx \<noteq> 0 \<or> tx \<noteq> 0)) \<and> s' = s1"
  using assms unfolding ingestForwardCounter_def
  by (auto elim!: bindR_InrE split: option.splits if_splits)

lemma ingestForwardCounter_ok:
  assumes "ingestForwardCounter c s k = Inr s'" "billed_ok s"
  shows "billed_ok s'"
  using assms(1)
proof (rule ingestForwardCounter_cases)
  fix rx tx ok s1 fwd
  assume d: "delta (ic_meter c) (forwardKey k) (fc_Epoch k) (fc_Rx k) (fc_Tx k) True s = Inr ((rx, tx, ok), s1)"
    and e: "ok \<and> (rx \<noteq> 0 \<or> tx \<noteq> 0) \<and> add c SubjectForward (fc_ForwardID k) rx tx s1 = Inr s' \<or>
     \<not> (ok \<and> (rx \<noteq> 0 \<or> tx \<noteq> 0)) \<and> s' = s1"
  have r: "run_ok s" using assms(2) by (simp add: billing_ok_def)
  have "run_ok s'" using e delta_ok [OF r d] delta_in64 [OF r d] add_ok [of s1 rx tx c _ _ s'] by blast
  moreover have "billing_part (m_db s') = billing_part (m_db s)"
    using e delta_part [OF d] add_part [of c _ _ rx tx s1 s'] by auto
  ultimately show ?thesis using billing_ok_part assms(2) by blast
qed

interpretation forwards: loop_invariant "ingestForwardCounter c" billed_ok
  by unfold_locales (rule ingestForwardCounter_ok)

lemma forwardKey_not_baseline [simp]: "\<not> settlesOnlyBaseline c (forwardKey k)"
  by (auto simp: settlesOnlyBaseline_def list_ex_iff forwardKey_def legacyKey_def)

lemma forwardKey_nonempty [simp]: "forwardKey k \<noteq> ''''"
  by (simp add: forwardKey_def)

lemma forwardKey_inject:
  "forwardKey k = forwardKey k' \<longleftrightarrow> fc_ForwardID k = fc_ForwardID k' \<and> fc_Epoch k = fc_Epoch k'"
  using until_colon [OF show_int_no_colon show_int_no_colon]
  by (auto simp: forwardKey_def)

section \<open>Every forwarded byte is billed once\<close>

text \<open>
  The daily buckets of a forward against the baselines of its meters: whatever reports of
  whatever epochs arrive, the two totals move together.
\<close>

definition forwardPrefix :: "i64 \<Rightarrow> string" where
  "forwardPrefix fid = ''forward:'' @ show_int fid @ '':nft-forward-v1:''"

definition ledgerRx :: "string \<Rightarrow> i64 \<Rightarrow> db \<Rightarrow> int" where
  "ledgerRx subject sid d =
     (\<Sum>r \<leftarrow> traffic_daily d. case r of ((_, s, i), rx, _) \<Rightarrow> if s = subject \<and> i = sid then rx else 0)"

definition meteredRx :: "string \<Rightarrow> db \<Rightarrow> int" where
  "meteredRx prefix d =
     (\<Sum>r \<leftarrow> counter_state d. case r of ((_, key), c) \<Rightarrow> if HasPrefix key prefix then cs_LastRx c else 0)"

definition forward_epochs :: "db \<Rightarrow> bool" where
  "forward_epochs d \<longleftrightarrow>
     (\<forall>sid k r. lookup (counter_state d) (sid, forwardKey k) = Some r \<longrightarrow> cs_Epoch r = fc_Epoch k)"

definition forward_inv :: "run \<Rightarrow> bool" where
  "forward_inv s \<longleftrightarrow> run_ok s \<and> forward_epochs (m_db s)"

lemma forwardKey_prefix: "HasPrefix (forwardKey k) (forwardPrefix fid) \<longleftrightarrow> fc_ForwardID k = fid"
proof
  assume "HasPrefix (forwardKey k) (forwardPrefix fid)"
  then obtain t where "forwardKey k = forwardPrefix fid @ t" by (auto simp: HasPrefix_iff)
  then show "fc_ForwardID k = fid"
    using until_colon [OF show_int_no_colon show_int_no_colon, of "fc_ForwardID k" _ fid]
    by (simp add: forwardKey_def forwardPrefix_def)
next
  assume "fc_ForwardID k = fid"
  then have "forwardKey k = forwardPrefix fid @ fc_Epoch k" by (simp add: forwardKey_def forwardPrefix_def)
  then show "HasPrefix (forwardKey k) (forwardPrefix fid)" by (metis HasPrefix_append)
qed

lemma forwardKey_not_nic [simp]: "forwardKey k \<noteq> ''nic''"
  by (simp add: forwardKey_def)

lemma writeBaseline_plain:
  assumes "key \<noteq> ''nic''"
  shows "counter_state (writeBaseline c key ep same row rx tx ts d) =
    upsert (mc_Server c, key) \<lparr>cs_Epoch = ep, cs_LastRx = rx, cs_LastTx = tx, cs_UpdatedAt = Some ts\<rparr>
      (counter_state d)"
  using assms by (simp add: writeBaseline_def Let_def)

lemma delta_forward:
  assumes d: "delta c (forwardKey k) (fc_Epoch k) rx tx True s = Inr ((dr, dt, ok), s')"
    and ok: "run_ok s" and ep: "forward_epochs (m_db s)"
  shows "meteredRx (forwardPrefix fid) (m_db s') = meteredRx (forwardPrefix fid) (m_db s) +
      (if fc_ForwardID k = fid then dr else 0) \<and>
    forward_epochs (m_db s') \<and> (\<not> ok \<longrightarrow> dr = 0)"
  using d
proof (cases rule: delta_cases)
  case (unchanged ok)
  then show ?thesis using ep by simp
next
  case (moved row same ts r0)
  let ?key = "(mc_Server c, forwardKey k)"
  let ?t = "counter_state (m_db s)"
  have v: "valid_counter_table ?t" and ko: "keys_ok ?t"
    using ok by (auto simp: books_ok_def valid_counter_table_def)
  note b = valid_counters_row_bounds [OF v, of ?key]
  have "row \<noteq> None \<Longrightarrow> same"
    using moved(1,2) ep by (auto simp: forward_epochs_def sameEpoch_def)
  then have dr: "dr = rx - row_rx row \<and> ok"
    using computeDelta_fromZero [of _ _ same row rx tx dr dt ok] moved b by auto
  have t: "counter_state (m_db s') = upsert ?key
      \<lparr>cs_Epoch = fc_Epoch k, cs_LastRx = rx, cs_LastTx = tx, cs_UpdatedAt = Some ts\<rparr> ?t"
    using moved by (simp add: writeBaseline_plain)
  have "meteredRx (forwardPrefix fid) (m_db s') = meteredRx (forwardPrefix fid) (m_db s) +
      (if fc_ForwardID k = fid then rx - row_rx row else 0)"
    unfolding meteredRx_def t sum_upsert [OF ko]
    by (simp add: forwardKey_prefix moved(1) split: option.splits)
  moreover have "forward_epochs (m_db s')"
    using ep by (auto simp: forward_epochs_def t forwardKey_inject)
  ultimately show ?thesis using dr by simp
qed

lemma bucket_add_ledger:
  assumes "valid_buckets t" "in64 a" "in64 b" "bucket_add (day, sub, i) a b t = Inr t'"
  shows "(\<Sum>r \<leftarrow> t'. case r of ((_, s, j), rx, _) \<Rightarrow> if s = subject \<and> j = sid then rx else 0) =
    (\<Sum>r \<leftarrow> t. case r of ((_, s, j), rx, _) \<Rightarrow> if s = subject \<and> j = sid then rx else 0) +
    (if sub = subject \<and> i = sid then a else 0)"
proof -
  have t: "t' = upsert (day, sub, i) (fst (bucket_get t (day, sub, i)) + a, snd (bucket_get t (day, sub, i)) + b) t"
    using bucket_add_Inr [OF assms(1-3)] assms(4) by blast
  have k: "keys_ok t" using assms(1) by (simp add: valid_buckets_def)
  show ?thesis unfolding t sum_upsert [OF k]
    by (auto simp: bucket_get_def split: option.splits)
qed

lemma add_ledger:
  assumes "add c sub i rx tx s = Inr s'" "run_ok s" "in64 rx" "in64 tx"
  shows "ledgerRx subject sid (m_db s') = ledgerRx subject sid (m_db s) +
      (if sub = subject \<and> i = sid then rx else 0) \<and> counter_state (m_db s') = counter_state (m_db s)"
proof -
  obtain d where d: "ingest_add (ic_ts c) sub i rx tx (m_db s) = Inr d" "s' = s\<lparr>m_db := d\<rparr>"
    using assms(1) by (auto simp: add_def bindR_eq_Inr)
  have v: "valid_buckets (traffic_hourly (m_db s))" "valid_buckets (traffic_daily (m_db s))"
    using assms(2) by (simp_all add: books_ok_def)
  note a = ingest_add_Inr [OF v assms(3,4) d(1)]
  have "ledgerRx subject sid d = ledgerRx subject sid (m_db s) + (if sub = subject \<and> i = sid then rx else 0)"
    unfolding ledgerRx_def using bucket_add_ledger [OF v(2) assms(3,4)] a by blast
  moreover have "counter_state d = counter_state (m_db s)"
    using d(1) by (auto simp: ingest_add_def bindR_eq_Inr)
  ultimately show ?thesis using d(2) by simp
qed

lemma delta_ledger:
  assumes "delta c key ep rx tx fz s = Inr (r, s')"
  shows "ledgerRx subject sid (m_db s') = ledgerRx subject sid (m_db s)"
  by (simp add: ledgerRx_def delta_frame [OF assms])

text \<open>One report: the forward's bucket total moves with its baselines, other forwards stay.\<close>

lemma ingestForwardCounter_conserves:
  assumes r: "ingestForwardCounter c s k = Inr s'" and inv: "forward_inv s"
  shows "ledgerRx SubjectForward fid (m_db s') - meteredRx (forwardPrefix fid) (m_db s') =
      ledgerRx SubjectForward fid (m_db s) - meteredRx (forwardPrefix fid) (m_db s) \<and> forward_inv s'"
  using r
proof (rule ingestForwardCounter_cases)
  fix rx tx ok s1 fwd
  assume d: "delta (ic_meter c) (forwardKey k) (fc_Epoch k) (fc_Rx k) (fc_Tx k) True s = Inr ((rx, tx, ok), s1)"
    and e: "ok \<and> (rx \<noteq> 0 \<or> tx \<noteq> 0) \<and> add c SubjectForward (fc_ForwardID k) rx tx s1 = Inr s' \<or>
     \<not> (ok \<and> (rx \<noteq> 0 \<or> tx \<noteq> 0)) \<and> s' = s1"
  have o: "run_ok s" "forward_epochs (m_db s)" using inv by (simp_all add: forward_inv_def)
  note o1 = delta_ok [OF o(1) d] delta_in64 [OF o(1) d]
  note m = delta_forward [OF d o] delta_ledger [OF d]
  show ?thesis
  proof (cases "ok \<and> (rx \<noteq> 0 \<or> tx \<noteq> 0)")
    case True
    then have a: "add c SubjectForward (fc_ForwardID k) rx tx s1 = Inr s'" using e by blast
    have l: "ledgerRx SubjectForward fid (m_db s') = ledgerRx SubjectForward fid (m_db s1) +
        (if fc_ForwardID k = fid then rx else 0)" "counter_state (m_db s') = counter_state (m_db s1)"
      using add_ledger [OF a] o1 by auto
    moreover have "run_ok s'" using add_ok [OF _ _ _ a] o1 by blast
    ultimately show ?thesis using m by (simp add: forward_inv_def meteredRx_def forward_epochs_def)
  next
    case False
    then show ?thesis using e m o1 by (auto simp: forward_inv_def)
  qed
qed

definition forwardReport :: "run \<Rightarrow> ictx \<times> ForwardCounter \<Rightarrow> run res" where
  "forwardReport s e = (case e of (c, k) \<Rightarrow> ingestForwardCounter c s k)"

interpretation forward_reports: loop_invariant forwardReport
  "\<lambda>s. forward_inv s \<and>
     ledgerRx SubjectForward fid (m_db s) - meteredRx (forwardPrefix fid) (m_db s) = q"
  by unfold_locales (auto simp: forwardReport_def dest: ingestForwardCounter_conserves split: prod.splits)

section \<open>Receipts are settled once and keep completed operations\<close>

lemma retireForward_frame:
  assumes "retireForward sid now d f = Inr d'"
  shows "forward_receipts d' = forward_receipts d \<and> counter_state d' = counter_state d \<and>
    traffic_hourly d' = traffic_hourly d \<and> traffic_daily d' = traffic_daily d \<and>
    billing_part d' = billing_part d"
  using assms by (auto simp: retireForward_def deleteForward_def advanceGeneration_def bumpGeneration_def releaseListeners_def
      Let_def billing_part_def split: if_splits option.splits)

interpretation retire: loop_invariant "retireForward sid now"
  "\<lambda>d. forward_receipts d = forward_receipts e \<and> counter_state d = counter_state e \<and>
     traffic_hourly d = traffic_hourly e \<and> traffic_daily d = traffic_daily e \<and>
     billing_part d = billing_part e"
  by unfold_locales (auto dest: retireForward_frame)

lemma CommitForwardReceipt_frame:
  assumes "CommitForwardReceipt E sid r applied now d = Inr d'"
  shows "lookup (forward_receipts d') (sid, fr_ID r) = Some (digestReceipt E r)"
    "counter_state d' = counter_state d" "traffic_hourly d' = traffic_hourly d"
    "traffic_daily d' = traffic_daily d" "billing_part d' = billing_part d"
  using retire.loop_inv [OF assms [unfolded CommitForwardReceipt_def], where e =
      "d\<lparr>forward_receipts := upsert (sid, fr_ID r) (digestReceipt E r) (forward_receipts d),
          network_operations := map (completeOperation sid r now) (network_operations d)\<rparr>"]
  by (auto simp: billing_part_def)

lemma CommitForwardReceipt_replays:
  assumes "CommitForwardReceipt E sid r applied now d = Inr d'" "ForwardReceipt_Validate r = Inr ()"
  shows "CheckForwardReceipt E sid r d' = Inr (True, [])"
  using CommitForwardReceipt_frame(1) [OF assms(1)] assms(2) by (simp add: CheckForwardReceipt_def)

text \<open>Applied operations stay applied, whatever generation the retired forwards move to.\<close>

lemma supersedes_applied [simp]: "no_Status op = ''applied'' \<Longrightarrow> supersedes sid g now op = op"
  by (simp add: supersedes_def)

lemma retireForward_applied:
  assumes "retireForward sid now d f = Inr d'" "op \<in> set (network_operations d)" "no_Status op = ''applied''"
  shows "op \<in> set (network_operations d')"
proof -
  have "op \<in> supersedes sid g now ` set (network_operations d)" for g
    using assms(2) supersedes_applied [OF assms(3)] by (metis image_eqI)
  with assms show ?thesis
    by (auto simp: retireForward_def deleteForward_def advanceGeneration_def bumpGeneration_def releaseListeners_def Let_def
        split: if_splits option.splits)
qed

interpretation retire_applied: loop_invariant "retireForward sid now"
  "\<lambda>d. no_Status op = ''applied'' \<longrightarrow> op \<in> set (network_operations d)"
  by unfold_locales (auto intro: retireForward_applied)

lemma CommitForwardReceipt_completes:
  assumes "CommitForwardReceipt E sid r applied now d = Inr d'" "op \<in> set (network_operations d)"
    and "no_ServerID op = sid" "no_DesiredRevision op = fr_Revision r" "no_DesiredHash op = fr_Hash r"
    and "no_Status op = ''waiting_agent'' \<or> no_Status op = ''apply_failed''"
  shows "\<exists>op' \<in> set (network_operations d'). no_ID op' = no_ID op \<and> no_Status op' = ''applied'' \<and> no_UpdatedAt op' = now"
proof -
  let ?op = "completeOperation sid r now op"
  have "no_ID ?op = no_ID op \<and> no_Status ?op = ''applied'' \<and> no_UpdatedAt ?op = now"
    using assms by (auto simp: completeOperation_def)
  moreover from this have "?op \<in> set (network_operations d')" using assms(2)
       retire_applied.loop_inv [OF assms(1) [unfolded CommitForwardReceipt_def], of ?op] by simp
  ultimately show ?thesis by blast
qed

text \<open>A receipt frees no port of its own revision or of a newer one.\<close>

definition held :: "i64 \<Rightarrow> i64 \<Rightarrow> int \<Rightarrow> db \<Rightarrow> bool" where
  "held sid fid port d \<longleftrightarrow>
     (\<exists>l \<in> set (listener_reservations d). lr_ServerID l = sid \<and> lr_Kind l = ''forward'' \<and>
        lr_ResourceID l = fid \<and> lr_ListenPort l = port)"

definition port_in_use :: "i64 \<Rightarrow> i64 \<Rightarrow> int \<Rightarrow> i64 \<Rightarrow> db \<Rightarrow> bool" where
  "port_in_use sid fid port rv d \<longleftrightarrow> held sid fid port d \<and>
     (\<exists>rv' \<ge> rv. ((fid, rv'), port) \<in> set (port_forward_revisions d))"

lemma retireForward_keeps_port:
  assumes "retireForward sid now d f = Inr d'" "port_in_use sid fid port rv d"
    and "ff_ForwardID f = fid \<Longrightarrow> ff_Revision f \<le> rv \<and> \<not> ff_Retired f"
  shows "port_in_use sid fid port rv d'"
proof -
  obtain l rv' where l: "l \<in> set (listener_reservations d)" "lr_ServerID l = sid" "lr_Kind l = ''forward''"
      "lr_ResourceID l = fid" "lr_ListenPort l = port"
    and v: "rv \<le> rv'" "((fid, rv'), port) \<in> set (port_forward_revisions d)"
    using assms(2) by (auto simp: port_in_use_def held_def)
  have "l \<in> set (listener_reservations d') \<and> ((fid, rv'), port) \<in> set (port_forward_revisions d')"
  proof (cases "ff_Retired f")
    case True
    then have "fid \<noteq> ff_ForwardID f" using assms(3) by auto
    then show ?thesis using True assms(1) l v
      by (auto simp: retireForward_def deleteForward_def advanceGeneration_def bumpGeneration_def deleteWhere_def
          split: if_splits option.splits)
  next
    case False
    have "ff_ForwardID f = fid \<Longrightarrow> ff_Revision f \<le> rv'" using v assms(3) by fastforce
    then show ?thesis using False assms(1) l v
      by (auto simp: retireForward_def releaseListeners_def Let_def
          intro!: image_eqI [of _ snd "((fid, rv'), port)"])
  qed
  with l v show ?thesis by (auto simp: port_in_use_def held_def)
qed

lemma retire_loop_keeps_port:
  assumes "foldE (retireForward sid now) d fs = Inr d'" "port_in_use sid fid port rv d"
    and "\<And>f. f \<in> set fs \<Longrightarrow> ff_ForwardID f = fid \<Longrightarrow> ff_Revision f \<le> rv \<and> \<not> ff_Retired f"
  shows "port_in_use sid fid port rv d'"
  using assms
proof (induction fs arbitrary: d)
  case Nil
  then show ?case by simp
next
  case (Cons f fs)
  then obtain d1 where d1: "retireForward sid now d f = Inr d1" "foldE (retireForward sid now) d1 fs = Inr d'"
    by (auto simp: bindR_eq_Inr)
  have "port_in_use sid fid port rv d1"
    using retireForward_keeps_port [OF d1(1) Cons.prems(2)] Cons.prems(3) by simp
  with Cons.IH [OF d1(2)] Cons.prems(3) show ?case by simp
qed

end
