(* ===== verification/Period.thy ===== *)
theory Period
  imports Domain
begin

text \<open>
  Billing periods (\<^verbatim>\<open>PeriodStart\<close>, \<^verbatim>\<open>NextReset\<close>, \<^verbatim>\<open>clampResetDate\<close> of
  \<^verbatim>\<open>internal/traffic/ingest.go\<close>). The periods of one reset day partition time: every
  instant lies in exactly one period, which begins at midnight on the reset day of a month.
\<close>

definition clampResetDate :: "int \<Rightarrow> int \<Rightarrow> int \<Rightarrow> time" where
  "clampResetDate year month resetDay =
     (let rd = NormalizeResetDay resetDay;
          rd = (if rd < 1 then 1 else rd);
          last = (case DateOf (Date year (month + 1) 0) of (_, _, d) \<Rightarrow> d);
          rd = (if 29 \<le> rd \<or> last < rd then last else rd)
      in Date year month rd)"

definition PeriodStart :: "time \<Rightarrow> int \<Rightarrow> time" where
  "PeriodStart now resetDay =
     (let rd = NormalizeResetDay resetDay
      in if rd \<le> 0 then 0
         else case DateOf now of (y, m, d) \<Rightarrow>
           let today = Date y m d; thisMonth = clampResetDate y m rd
           in if today < thisMonth then clampResetDate y (m - 1) rd else thisMonth)"

definition NextReset :: "time \<Rightarrow> int \<Rightarrow> time" where
  "NextReset now resetDay =
     (let start = PeriodStart now resetDay
      in if IsZero start then 0
         else case DateOf start of (y, m, _) \<Rightarrow> clampResetDate y (m + 1) resetDay)"

section \<open>The reset day of a month\<close>

text \<open>Day of the month on which month \<open>k\<close> resets, and the instant.\<close>

definition reset_dom :: "int \<Rightarrow> int \<Rightarrow> int" where
  "reset_dom k rd =
     (let last = first_of (k + 1) - first_of k;
          r = (if NormalizeResetDay rd < 1 then 1 else NormalizeResetDay rd)
      in if 29 \<le> r \<or> last < r then last else r)"

definition reset_at :: "int \<Rightarrow> int \<Rightarrow> time" where
  "reset_at k rd = (first_of k + reset_dom k rd - 1) * day_ns"

lemma reset_dom_bounds: "1 \<le> reset_dom k rd \<and> reset_dom k rd \<le> first_of (k + 1) - first_of k"
  using first_of_less [of k] by (auto simp: reset_dom_def Let_def)

lemma reset_dom_Normalize [simp]: "reset_dom k (NormalizeResetDay rd) = reset_dom k rd"
  by (simp add: reset_dom_def)

lemma reset_at_bounds: "first_of k * day_ns \<le> reset_at k rd \<and> reset_at k rd < first_of (k + 1) * day_ns"
  using reset_dom_bounds [of k rd] by (simp add: reset_at_def)

lemma day_of_reset_at: "day_of (reset_at k rd) = first_of k + reset_dom k rd - 1"
  unfolding reset_at_def by (rule day_of_mult)

lemma reset_at_day: "day_of (reset_at k rd) * day_ns = reset_at k rd"
  by (subst day_of_reset_at) (simp only: reset_at_def)

lemma reset_at_less: "j < k \<Longrightarrow> reset_at j rd < reset_at k rd"
  using reset_at_bounds [of j rd] reset_at_bounds [of k rd] first_of_mono [of "j + 1" k] by simp

lemma month_index_eqI:
  assumes "first_of k \<le> day_of t" "day_of t < first_of (k + 1)"
  shows "month_index t = k"
  using month_unique [of "month_index t" "day_of t" k] month_index_bounds [of t] assms by blast

lemma month_index_reset_at [simp]: "month_index (reset_at k rd) = k"
  using reset_dom_bounds [of k rd] by (intro month_index_eqI) (simp_all add: day_of_reset_at)

lemma DateOf_day: "DateOf t = (y, m, d) \<Longrightarrow> d = day_of t - first_of (month_index t) + 1"
proof -
  assume e: "DateOf t = (y, m, d)"
  then have "month_index t = 12 * y + (m - 1)" by (simp add: month_index_def)
  then show ?thesis using DateDay_DateOf [OF e] DateDay_first_of [of y m d] by simp
qed

lemma clampResetDate_eq: "clampResetDate y m rd = reset_at (12 * y + (m - 1)) rd"
proof -
  let ?k = "12 * y + (m - 1)"
  obtain y' m' d' where e: "DateOf (Date y (m + 1) 0) = (y', m', d')"
    by (cases "DateOf (Date y (m + 1) 0)") auto
  have n: "day_of (Date y (m + 1) 0) = first_of (?k + 1) - 1"
    by (simp add: DateDay_first_of algebra_simps)
  then have "month_index (Date y (m + 1) 0) = ?k"
    using first_of_less [of ?k] by (intro month_index_eqI) simp_all
  with DateOf_day [OF e] n have d': "d' = first_of (?k + 1) - first_of ?k" by simp
  have "clampResetDate y m rd = Date y m (reset_dom ?k rd)"
    unfolding clampResetDate_def e Let_def reset_dom_def prod.case d' by (rule refl)
  then show ?thesis by (simp only: Date_def DateDay_first_of reset_at_def)
qed

section \<open>Periods\<close>

text \<open>The month whose reset opens the period of \<open>now\<close>.\<close>

definition period_month :: "time \<Rightarrow> int \<Rightarrow> int" where
  "period_month now rd =
     (if day_of now < day_of (reset_at (month_index now) rd) then month_index now - 1
      else month_index now)"

lemma PeriodStart_eq:
  assumes "0 < NormalizeResetDay rd"
  shows "PeriodStart now rd = reset_at (period_month now rd) rd"
proof -
  obtain y m d where e: "DateOf now = (y, m, d)" by (cases "DateOf now") auto
  have k: "month_index now = 12 * y + (m - 1)" by (simp add: month_index_def e)
  have "Date y m d < reset_at (month_index now) rd \<longleftrightarrow>
    day_of now < day_of (reset_at (month_index now) rd)"
    by (subst reset_at_day [symmetric]) (simp add: Date_def DateDay_DateOf [OF e])
  moreover have "reset_at j (NormalizeResetDay rd) = reset_at j rd" for j
    by (simp add: reset_at_def)
  ultimately show ?thesis using assms
    by (simp add: PeriodStart_def Let_def e clampResetDate_eq period_month_def k [symmetric])
      (simp add: k algebra_simps)
qed

lemma PeriodStart_never: "NormalizeResetDay rd = 0 \<Longrightarrow> PeriodStart now rd = 0"
  by (simp add: PeriodStart_def)

lemma period_month_bounds:
  "reset_at (period_month now rd) rd \<le> now \<and> now < reset_at (period_month now rd + 1) rd"
proof (cases "day_of now < day_of (reset_at (month_index now) rd)")
  case True
  note r = reset_at_day [of "month_index now" rd]
  have "now < (day_of now + 1) * day_ns" using day_bounds by blast
  also have "\<dots> \<le> day_of (reset_at (month_index now) rd) * day_ns" using True by simp
  finally have "now < reset_at (month_index now) rd" using r by simp
  moreover have "reset_at (month_index now - 1) rd < first_of (month_index now) * day_ns"
    using reset_at_bounds [of "month_index now - 1" rd] by simp
  moreover have "first_of (month_index now) * day_ns \<le> now"
    using month_index_bounds [of now] day_bounds [of now] by simp
  ultimately show ?thesis using True by (simp add: period_month_def)
next
  case False
  with False reset_at_day [of "month_index now" rd] have "reset_at (month_index now) rd \<le> now"
    using day_bounds [of now] by simp
  moreover have "now < first_of (month_index now + 1) * day_ns"
    using month_index_bounds [of now] day_bounds [of now] by simp
  moreover have "first_of (month_index now + 1) * day_ns \<le> reset_at (month_index now + 1) rd"
    using reset_at_bounds by simp
  ultimately show ?thesis using False by (simp add: period_month_def)
qed

lemma period_month_unique:
  assumes "reset_at k rd \<le> now" "now < reset_at (k + 1) rd"
  shows "period_month now rd = k"
proof (rule ccontr)
  let ?p = "period_month now rd"
  assume "?p \<noteq> k"
  then consider "?p + 1 \<le> k" | "k + 1 \<le> ?p" by linarith
  then show False
  proof cases
    case 1
    then have "reset_at (?p + 1) rd \<le> reset_at k rd"
      using reset_at_less [of "?p + 1" k rd] by (cases "?p + 1 = k") auto
    then show False using period_month_bounds [of now rd] assms by linarith
  next
    case 2
    then have "reset_at (k + 1) rd \<le> reset_at ?p rd"
      using reset_at_less [of "k + 1" ?p rd] by (cases "?p = k + 1") auto
    then show False using period_month_bounds [of now rd] assms by linarith
  qed
qed

lemma reset_at_year2: "24 \<le> k \<Longrightarrow> 0 < reset_at k rd"
proof -
  assume "24 \<le> k"
  then have "first_of 24 \<le> first_of k" by (rule first_of_mono)
  moreover have "0 < first_of 24" by code_simp
  ultimately show ?thesis using reset_at_bounds [of k rd] by simp
qed

lemma period_month_recent: "unix_epoch \<le> now \<Longrightarrow> 24 \<le> period_month now rd"
proof (rule ccontr)
  assume now: "unix_epoch \<le> now" and "\<not> 24 \<le> period_month now rd"
  then have "period_month now rd + 1 \<le> 24" by simp
  then have "first_of (period_month now rd + 2) \<le> first_of 25" by (intro first_of_mono) simp
  moreover have "now < first_of (period_month now rd + 2) * day_ns"
    using period_month_bounds [of now rd] reset_at_bounds [of "period_month now rd + 1" rd]
    by (simp add: add.commute)
  moreover have "first_of 25 * day_ns < unix_epoch" by code_simp
  ultimately show False using now by simp
qed

lemma NextReset_eq:
  assumes "0 < NormalizeResetDay rd" "unix_epoch \<le> now"
  shows "NextReset now rd = reset_at (period_month now rd + 1) rd"
proof -
  let ?s = "reset_at (period_month now rd) rd"
  have s: "PeriodStart now rd = ?s" using assms by (simp add: PeriodStart_eq)
  have "0 < ?s" using reset_at_year2 period_month_recent assms by blast
  moreover obtain y m d where e: "DateOf ?s = (y, m, d)" by (cases "DateOf ?s") auto
  have "12 * y + (m + 1 - 1) = period_month now rd + 1"
    using month_index_reset_at [of "period_month now rd" rd] by (simp add: month_index_def e)
  ultimately show ?thesis
    unfolding NextReset_def Let_def s IsZero_def e clampResetDate_eq prod.case by simp
qed

text \<open>The interface of a partition of time into periods, as quota code uses it.\<close>

locale period_partition =
  fixes start :: "time \<Rightarrow> time" and succ :: "time \<Rightarrow> time" and recent :: "time \<Rightarrow> bool"
  assumes covers: "recent t \<Longrightarrow> start t \<le> t \<and> t < succ t"
    and same: "recent t \<Longrightarrow> recent u \<Longrightarrow> start t \<le> u \<Longrightarrow> u < succ t \<Longrightarrow> start u = start t"
    and ends: "recent t \<Longrightarrow> start (succ t) = succ t"
    and recent_up: "recent t \<Longrightarrow> t \<le> u \<Longrightarrow> recent u"
begin

lemma start_mono: "recent t \<Longrightarrow> t \<le> u \<Longrightarrow> start t \<le> start u"
proof (rule ccontr)
  assume t: "recent t" and tu: "t \<le> u" and "\<not> start t \<le> start u"
  then have lt: "start u < start t" by simp
  have u: "recent u" using t tu by (rule recent_up)
  have "start u \<le> t" "t < succ u" using covers [OF t] covers [OF u] lt tu by linarith+
  then have "start t = start u" using same [OF u t] by blast
  with lt show False by simp
qed

text \<open>A period already opened is not opened again before its end: the rollover test fires once.\<close>

lemma rollover_once:
  "recent t \<Longrightarrow> t \<le> u \<Longrightarrow> u < succ t \<Longrightarrow> \<not> start t < start u"
proof -
  assume t: "recent t" "t \<le> u" "u < succ t"
  then have "start t \<le> u" using covers [of t] by linarith
  then have "start u = start t" using same [OF t(1) recent_up [OF t(1,2)]] t(3) by blast
  then show ?thesis by simp
qed

lemma rollover_due:
  "recent t \<Longrightarrow> succ t \<le> u \<Longrightarrow> start t < start u"
proof -
  assume t: "recent t" and u: "succ t \<le> u"
  have c: "start t \<le> t" "t < succ t" using covers [OF t] by simp_all
  then have "recent (succ t)" using recent_up [OF t, of "succ t"] by simp
  then have "start (succ t) \<le> start u" using u by (rule start_mono)
  with ends [OF t] c show ?thesis by simp
qed

end

lemma NormalizeResetDay_pos: "0 < rd \<Longrightarrow> 0 < NormalizeResetDay rd"
  by (simp add: NormalizeResetDay_def)

lemma NextReset_succ:
  assumes "0 < NormalizeResetDay rd" "unix_epoch \<le> t"
  shows "PeriodStart (NextReset t rd) rd = NextReset t rd"
proof -
  let ?k = "period_month t rd"
  have "period_month (reset_at (?k + 1) rd) rd = ?k + 1"
    using reset_at_less [of "?k + 1" "?k + 1 + 1" rd] by (intro period_month_unique) simp_all
  then show ?thesis using assms by (simp add: NextReset_eq PeriodStart_eq)
qed

lemma PeriodStart_same:
  assumes "0 < NormalizeResetDay rd" "unix_epoch \<le> t" "PeriodStart t rd \<le> u" "u < NextReset t rd"
  shows "PeriodStart u rd = PeriodStart t rd"
  using assms period_month_unique [of "period_month t rd" rd u]
  by (simp add: NextReset_eq PeriodStart_eq)

text \<open>Every positive reset day partitions the time since 1970 into periods.\<close>

interpretation billing: period_partition
  "\<lambda>t. PeriodStart t (int (Suc n))" "\<lambda>t. NextReset t (int (Suc n))" "\<lambda>t. unix_epoch \<le> t"
  for n
proof (unfold_locales, goal_cases)
  case (1 t)
  then show ?case
    using period_month_bounds [of t "int (Suc n)"]
    by (simp add: NextReset_eq PeriodStart_eq NormalizeResetDay_pos)
next
  case (2 t u)
  then show ?case by (intro PeriodStart_same) (simp_all add: NormalizeResetDay_pos)
next
  case (3 t)
  then show ?case by (intro NextReset_succ) (simp_all add: NormalizeResetDay_pos)
next
  case (4 t u)
  then show ?case by simp
qed

end
