(* ===== verification/Ingest.thy ===== *)
theory Ingest
  imports Receipts Period
begin

text \<open>
  \<^verbatim>\<open>Ingestor.Ingest\<close> (\<^verbatim>\<open>internal/traffic/ingest.go\<close>): the checks before the transaction, the node
  and share loops, the final settlement, and the whole handler with its transaction. The
  order in which Go iterates the share and node maps is the context's \<open>ic_order\<close>.
\<close>

section \<open>The report is checked and normalised\<close>

definition normalizeReceipt :: "Heartbeat \<Rightarrow> Heartbeat res" where
  "normalizeReceipt hb =
     (case hb_ForwardReceipt hb of None \<Rightarrow> Inr hb
      | Some r \<Rightarrow>
        bindR (ForwardReceipt_Validate r) (\<lambda>_.
          if hb_ForwardCounters hb \<noteq> [] \<or> hb_Ports hb \<noteq> [] \<or> hb_FinalMeters hb \<noteq> None \<or>
             hb_NetworkBillingSwitch hb \<noteq> None \<or> hb_NetworkBillingLegacy hb \<noteq> None
          then Inl (Err ''a forward receipt must not mix other metering reports'')
          else Inr (hb\<lparr>hb_ForwardCounters := fr_Counters r, hb_TS := fr_TS r, hb_Metrics := no_metrics\<rparr>)))"

definition normalizeForwards :: "Heartbeat \<Rightarrow> Heartbeat res" where
  "normalizeForwards hb =
     bindR (ValidateForwardCounters (hb_ForwardCounters hb)) (\<lambda>_.
       if hb_ForwardCounters hb \<noteq> [] \<and> (hb_FinalMeters hb \<noteq> None \<or> hb_NetworkBillingSwitch hb \<noteq> None)
       then Inl (Err ''forward counters must not mix node settlement or network billing cutover'')
       else Inr hb)"

definition normalizeBilling :: "env \<Rightarrow> Heartbeat \<Rightarrow> Heartbeat res" where
  "normalizeBilling E hb =
     (case hb_NetworkBillingSwitch hb of
        Some sw \<Rightarrow>
          bindR (NetworkBillingSwitch_Validate E sw) (\<lambda>_.
            if hb_FinalMeters hb \<noteq> None \<or> hb_Ports hb \<noteq> []
            then Inl (Err ''billing switch must not mix node counters'')
            else Inr (hb\<lparr>hb_TS := sw_TS sw, hb_Epoch := lc_Epoch (sw_Legacy sw),
                   hb_Metrics := \<lparr>me_NetRx = lc_Rx (sw_Legacy sw), me_NetTx = lc_Tx (sw_Legacy sw),
                                  me_Network = sw_Snapshot sw\<rparr>\<rparr>))
      | None \<Rightarrow>
          (case hb_NetworkBillingLegacy hb of
             Some lc \<Rightarrow>
               bindR (LegacyNetworkCounters_Validate lc) (\<lambda>_.
                 Inr (hb\<lparr>hb_Epoch := lc_Epoch lc,
                   hb_Metrics := (hb_Metrics hb)\<lparr>me_NetRx := lc_Rx lc, me_NetTx := lc_Tx lc\<rparr>\<rparr>))
           | None \<Rightarrow> Inr hb))"

definition normalizeFinal :: "env \<Rightarrow> Heartbeat \<Rightarrow> Heartbeat res" where
  "normalizeFinal E hb =
     (case hb_FinalMeters hb of None \<Rightarrow> Inr hb
      | Some fm \<Rightarrow>
        bindR (MeterSettlement_Validate E fm) (\<lambda>_.
          if hb_Ports hb \<noteq> [] then Inl (Err ''final snapshot must not mix live counters'')
          else Inr (hb\<lparr>hb_Ports := ms_Counters fm, hb_TS := ms_TS fm, hb_Metrics := no_metrics\<rparr>)))"

definition normalize :: "env \<Rightarrow> Heartbeat \<Rightarrow> Heartbeat res" where
  "normalize E hb =
     bindR (normalizeReceipt hb) (\<lambda>h1. bindR (normalizeForwards h1) (\<lambda>h2.
     bindR (normalizeBilling E h2) (\<lambda>h3. normalizeFinal E h3)))"

section \<open>Nodes\<close>

record NodeFilter =
  nf_Source :: string
  nf_ServerID :: "i64 option"
  nf_ExternalSubID :: "i64 option"
  nf_ShareID :: "i64 option"
  nf_IDs :: "i64 list"
  nf_OnlyEnabled :: bool
  nf_IncludeRevoked :: bool

definition nodeMatches :: "NodeFilter \<Rightarrow> Node \<Rightarrow> bool" where
  "nodeMatches f n \<longleftrightarrow> nd_Source n \<noteq> NodeTransit \<and>
     (nf_Source f \<noteq> '''' \<longrightarrow> nd_Source n = nf_Source f) \<and>
     (nf_ServerID f \<noteq> None \<longrightarrow> nd_ServerID n = nf_ServerID f) \<and>
     (nf_ExternalSubID f \<noteq> None \<longrightarrow> nd_ExternalSubID n = nf_ExternalSubID f) \<and>
     (nf_ShareID f \<noteq> None \<longrightarrow> nd_ShareID n = nf_ShareID f) \<and>
     (nf_OnlyEnabled f \<longrightarrow> nd_Enabled n) \<and>
     (\<not> nf_IncludeRevoked f \<longrightarrow> \<not> nd_Revoked n) \<and>
     (nf_IDs f \<noteq> [] \<longrightarrow> nd_ID n \<in> set (nf_IDs f))"

definition ListNodes :: "NodeFilter \<Rightarrow> db \<Rightarrow> Node list" where
  "ListNodes f d = sort_key nd_SortOrder (sort_key nd_ID (filter (nodeMatches f) (nodes d)))"

definition no_filter :: NodeFilter where
  "no_filter = \<lparr>nf_Source = '''', nf_ServerID = None, nf_ExternalSubID = None, nf_ShareID = None,
     nf_IDs = [], nf_OnlyEnabled = False, nf_IncludeRevoked = False\<rparr>"

definition no_node :: Node where
  "no_node = \<lparr>nd_Network = None, nd_NetworkRevision = 0, nd_ID = 0, nd_Name = '''', nd_OriginalName = '''',
     nd_Protocol = '''', nd_Server = '''', nd_Port = 0, nd_Params = '''', nd_ServerParams = '''',
     nd_Source = '''', nd_ServerID = None, nd_ListenPort = 0, nd_Core = '''', nd_ShareID = None,
     nd_ExternalSubID = None, nd_ChainFrontNodeID = None, nd_Enabled = False, nd_OwnerUserID = 0,
     nd_Tags = [], nd_SortOrder = 0, nd_Revoked = False, nd_CreatedAt = 0, nd_UpdatedAt = 0\<rparr>"

definition MeterNodes :: "i64 \<Rightarrow> db \<Rightarrow> Node list" where
  "MeterNodes serverID d =
     map (\<lambda>m. no_node\<lparr>nd_ID := mi_NodeID m, nd_ListenPort := mi_ListenPort m, nd_Core := mi_Core m,
                      nd_ShareID := mi_ShareID m, nd_ServerID := Some serverID,
                      nd_Source := (if mi_NodeID m \<in> set (managed_transits d) then ''transit'' else ''deployed'')\<rparr>)
       (filter (\<lambda>m. mi_ServerID m = serverID) (node_meter_identities d))"

section \<open>The node loop\<close>

record prun = run +
  p_seen :: "string set"
  p_shares :: "(i64 \<times> ShareDelta) list"

definition nodeKey :: "PortCounter \<Rightarrow> string" where
  "nodeKey pc = ''node:'' @ show_int (pc_NodeID pc) @ '':'' @ pc_Source pc @ '':'' @ pc_Epoch pc"

definition portIdentity :: "ictx \<Rightarrow> PortCounter \<Rightarrow> (Node option \<times> string \<times> string) res" where
  "portIdentity c pc =
     (if pc_NodeID pc > 0 then
        (if pc_Source pc \<noteq> ''openrc-cgroup-v1'' \<and> pc_Source pc \<noteq> ''nft-node-v1'' \<and>
            pc_Source pc \<noteq> ''systemd-v1'' \<and> pc_Source pc \<noteq> ''systemd-legacy-v1''
         then Inl (Err ''unknown node meter source'')
         else if pc_Epoch pc = '''' \<or> length (pc_Epoch pc) > 128
         then Inl (Err ''missing node meter epoch'')
         else Inr (ic_byID c (pc_NodeID pc), nodeKey pc, pc_Epoch pc))
      else Inr (ic_byPort c (pc_Port pc), ''port:'' @ show_int (pc_Port pc), ic_epoch c))"

definition nodeDelta :: "Result \<Rightarrow> i64 \<Rightarrow> i64 \<times> i64" where
  "nodeDelta r nid = (case lookup (rs_NodeDeltas r) nid of None \<Rightarrow> (0, 0) | Some p \<Rightarrow> p)"

definition addShareDelta :: "i64 \<Rightarrow> i64 \<Rightarrow> i64 \<Rightarrow> prun \<Rightarrow> prun res" where
  "addShareDelta sid rx tx s =
     (let p = (case lookup (p_shares s) sid of
                 None \<Rightarrow> \<lparr>sd_PeriodReset = False, sd_ShareID = sid, sd_Up = 0, sd_Down = 0\<rparr> | Some p \<Rightarrow> p)
      in bindR (addTrafficDirections (sd_Up p) (sd_Down p) rx tx) (\<lambda>(up, down).
           Inr (s\<lparr>p_shares := upsert sid (p\<lparr>sd_Up := up, sd_Down := down\<rparr>) (p_shares s)\<rparr>)))"

definition billNode :: "ictx \<Rightarrow> Node \<Rightarrow> i64 \<Rightarrow> i64 \<Rightarrow> prun \<Rightarrow> prun res" where
  "billNode c n rx tx s =
     (case nodeDelta (r_res s) (nd_ID n) of (prevRx, prevTx) \<Rightarrow>
      bindR (addTrafficDirections prevRx prevTx rx tx) (\<lambda>(nodeRx, nodeTx).
      bindR (add c SubjectNode (nd_ID n) rx tx
              (s\<lparr>r_res := (r_res s)\<lparr>rs_NodeDeltas := upsert (nd_ID n) (nodeRx, nodeTx) (rs_NodeDeltas (r_res s))\<rparr>\<rparr>))
        (\<lambda>s1. case nd_ShareID n of None \<Rightarrow> Inr s1 | Some sid \<Rightarrow> addShareDelta sid rx tx s1)))"

definition portStep :: "ictx \<Rightarrow> prun \<Rightarrow> PortCounter \<Rightarrow> prun res" where
  "portStep c s pc =
     bindR (portIdentity c pc) (\<lambda>(node, key, ep).
       case node of None \<Rightarrow> Inr s
       | Some n \<Rightarrow>
         if key \<in> p_seen s then Inl (Err ''duplicate node counter'')
         else
           bindR (delta (ic_meter c) key ep (pc_Rx pc) (pc_Tx pc) (pc_FromZero pc)
                    (s\<lparr>p_seen := insert key (p_seen s)\<rparr>)) (\<lambda>((rx, tx, ok), s1).
             if nd_Source n = NodeTransit then
               (if ok then add c ''transit'' (nd_ID n) rx tx s1 else Inr s1)
             else
               bindR (if key \<in> m_accepted s1 \<and>
                         \<not> (pc_NodeID pc > 0 \<and> pc_NodeID pc \<in> set (mc_BaselineOnly (ic_meter c)))
                      then sample c (Some (nd_ID n)) (pc_Rx pc) (pc_Tx pc) s1 else Inr s1) (\<lambda>s2.
                 if \<not> ok \<or> (rx = 0 \<and> tx = 0) then Inr s2 else billNode c n rx tx s2)))"

section \<open>The share loop\<close>

definition rollShare :: "time \<Rightarrow> Share \<Rightarrow> Share" where
  "rollShare start sh =
     sh\<lparr>sh_NodeUsage := Map.empty, sh_PeriodStart := start, sh_UsedUpload := 0, sh_UsedDownload := 0,
        sh_Status := (if sh_Status sh = ShareExhausted then ShareActive else sh_Status sh)\<rparr>"

definition usageOf :: "(i64 \<rightharpoonup> i64 \<times> i64) \<Rightarrow> i64 \<Rightarrow> i64 \<times> i64" where
  "usageOf u nid = (case u nid of None \<Rightarrow> (0, 0) | Some p \<Rightarrow> p)"

definition addNodeUsage ::
  "ictx \<Rightarrow> Result \<Rightarrow> i64 \<Rightarrow> (i64 \<rightharpoonup> i64 \<times> i64) \<Rightarrow> i64 \<Rightarrow> (i64 \<rightharpoonup> i64 \<times> i64) res" where
  "addNodeUsage c r sid usage nid =
     (case ic_byID c nid of None \<Rightarrow> Inr usage
      | Some n \<Rightarrow>
        if nd_ShareID n \<noteq> Some sid then Inr usage
        else
          let prev = usageOf usage nid; d = nodeDelta r nid
          in bindR (addTrafficDirections (fst prev) (snd prev) (fst d) (snd d)) (\<lambda>p. Inr (usage(nid \<mapsto> p))))"

text \<open>
  The period a share's usage belongs to. A share whose period has ended is rolled over; a
  report from before the current period stays out of the quota.
\<close>

definition chargeShare :: "ictx \<Rightarrow> Result \<Rightarrow> i64 \<Rightarrow> ShareDelta \<Rightarrow> Share \<Rightarrow> (ShareDelta \<times> Share) res" where
  "chargeShare c r sid sd sh =
     (let oldPeriod = sh_PeriodStart sh;
          start = PeriodStart (ic_now c) (sh_ResetDay sh);
          rolled = (\<not> IsZero start \<and> start > oldPeriod);
          sh1 = (if rolled then rollShare start sh else sh);
          sd1 = (if rolled then sd\<lparr>sd_PeriodReset := True\<rparr> else sd);
          boundary = (if oldPeriod > start then oldPeriod else start)
      in if \<not> IsZero boundary \<and> ic_ts c < boundary then Inr (sd1\<lparr>sd_Up := 0, sd_Down := 0\<rparr>, sh1)
         else
           bindR (addTrafficDirections (sh_UsedUpload sh1) (sh_UsedDownload sh1) (sd_Up sd1) (sd_Down sd1)) (\<lambda>_.
           bindR (foldE (addNodeUsage c r sid) (sh_NodeUsage sh1) (ic_order c (map fst (rs_NodeDeltas r)))) (\<lambda>usage.
             Inr (sd1, sh1\<lparr>sh_NodeUsage := usage, sh_UsedUpload := sh_UsedUpload sh1 + sd_Up sd1,
                           sh_UsedDownload := sh_UsedDownload sh1 + sd_Down sd1\<rparr>))))"

text \<open>
  What is written: first the rolled-over row, if the period ended, then the charged one. A
  late report writes nothing more, which is the same as writing the row it found.
\<close>

definition saveCharge :: "ictx \<Rightarrow> Share \<Rightarrow> Share \<Rightarrow> db \<Rightarrow> db" where
  "saveCharge c sh sh' d =
     (let start = PeriodStart (ic_now c) (sh_ResetDay sh)
      in writeUsage (ic_now c) sh'
           (if \<not> IsZero start \<and> start > sh_PeriodStart sh then writeUsage (ic_now c) (rollShare start sh) d else d))"

definition shareStep :: "ictx \<Rightarrow> prun \<Rightarrow> i64 \<Rightarrow> prun res" where
  "shareStep c s sid =
     (case lookup (p_shares s) sid of None \<Rightarrow> Inr s
      | Some sd \<Rightarrow>
        bindR (add c SubjectShare sid (sd_Up sd) (sd_Down sd) s) (\<lambda>s1.
          case lookup (shares (m_db s1)) sid of None \<Rightarrow> Inl ErrNoRows
          | Some sh \<Rightarrow>
            bindR (chargeShare c (r_res s1) sid sd sh) (\<lambda>(sd', sh').
              Inr (s1\<lparr>m_db := saveCharge c sh sh' (m_db s1),
                      r_res := (r_res s1)\<lparr>rs_Shares := rs_Shares (r_res s1) @ [sd']\<rparr>\<rparr>))))"

section \<open>The transaction\<close>

definition settleFinal :: "ictx \<Rightarrow> run \<Rightarrow> run" where
  "settleFinal c s =
     (case hb_FinalMeters (ic_hb c) of None \<Rightarrow> s
      | Some fm \<Rightarrow>
        s\<lparr>m_db := (m_db s)\<lparr>meter_settlements :=
             upsert (ic_server c, ms_ID fm) (ic_now c) (meter_settlements (m_db s))\<rparr>,
          r_res := (r_res s)\<lparr>rs_FinalMeterAck := ms_ID fm\<rparr>\<rparr>)"

definition ingestNodes :: "ictx \<Rightarrow> run \<Rightarrow> run res" where
  "ingestNodes c s =
     bindR (foldE (portStep c) (run.extend s \<lparr>p_seen = {}, p_shares = []\<rparr>) (hb_Ports (ic_hb c))) (\<lambda>p1.
     bindR (foldE (shareStep c) p1 (ic_order c (map fst (p_shares p1)))) (\<lambda>p2.
       Inr (settleFinal c (run.truncate p2))))"

definition checkFinal :: "ictx \<Rightarrow> MeterSettlement \<Rightarrow> db \<Rightarrow> bool res" where
  "checkFinal c fm d =
     (case lookup (meter_settlements d) (ic_server c, ms_ID fm) of
        Some _ \<Rightarrow> Inr True
      | None \<Rightarrow>
          if list_all (\<lambda>pc. ic_byID c (pc_NodeID pc) \<noteq> None) (hb_Ports (ic_hb c)) then Inr False
          else Inl (Err ''unknown final meter identity''))"

definition ingestReceipt :: "ictx \<Rightarrow> ForwardReceipt \<Rightarrow> run \<Rightarrow> run res" where
  "ingestReceipt c r s =
     bindR (CheckForwardReceipt (ic_env c) (ic_server c) r (m_db s)) (\<lambda>(replay, applied).
       if replay then Inr (s\<lparr>r_res := (r_res s)\<lparr>rs_ForwardReceiptAck := fr_ID r\<rparr>\<rparr>)
       else
         bindR (ingestForwardCounters c (hb_ForwardCounters (ic_hb c)) s) (\<lambda>s1.
         bindR (CommitForwardReceipt (ic_env c) (ic_server c) r applied (ic_now c) (m_db s1)) (\<lambda>d.
           Inr (s1\<lparr>m_db := d, r_res := (r_res s1)\<lparr>rs_ForwardReceiptAck := fr_ID r\<rparr>\<rparr>))))"

definition ingestLive :: "ictx \<Rightarrow> run \<Rightarrow> run res" where
  "ingestLive c s =
     bindR (ingestNetworkBilling c s) (\<lambda>s1.
       if ic_switch c \<noteq> None then Inr s1
       else bindR (ingestForwardCounters c (hb_ForwardCounters (ic_hb c)) s1) (ingestNodes c))"

definition ingestFinal :: "ictx \<Rightarrow> MeterSettlement \<Rightarrow> run \<Rightarrow> run res" where
  "ingestFinal c fm s =
     bindR (checkFinal c fm (m_db s)) (\<lambda>replay.
       if replay then Inr (s\<lparr>r_res := (r_res s)\<lparr>rs_FinalMeterAck := ms_ID fm\<rparr>\<rparr>)
       else bindR (ingestForwardCounters c (hb_ForwardCounters (ic_hb c)) s) (ingestNodes c))"

text \<open>A receipt carries neither a settlement nor live counters, so the branches exclude each other.\<close>

definition ingestTx :: "ictx \<Rightarrow> run \<Rightarrow> run res" where
  "ingestTx c s =
     (case hb_ForwardReceipt (ic_hb c) of
        Some r \<Rightarrow> ingestReceipt c r s
      | None \<Rightarrow>
          (case hb_FinalMeters (ic_hb c) of
             Some fm \<Rightarrow> ingestFinal c fm s
           | None \<Rightarrow> ingestLive c s))"

section \<open>The handler\<close>

definition minutes5 :: int where "minutes5 = 300 * second_ns"

definition ingestContext ::
  "env \<Rightarrow> (i64 list \<Rightarrow> i64 list) \<Rightarrow> time \<Rightarrow> Server \<Rightarrow> Heartbeat \<Rightarrow> db \<Rightarrow> ictx res" where
  "ingestContext E order now server hb d =
     (let identified = (\<not> IsZero (hb_TS hb) \<and> \<not> hb_TS hb > now + minutes5);
          ts = (if identified then hb_TS hb else now);
          live = ListNodes (no_filter\<lparr>nf_ServerID := Some (sv_ID server), nf_IncludeRevoked := True\<rparr>) d;
          identities = MeterNodes (sv_ID server) d;
          byID = (\<lambda>i. case lastBy nd_ID live i of Some n \<Rightarrow> Some n | None \<Rightarrow> find (\<lambda>n. nd_ID n = i) identities);
          byPort = lastBy nd_ListenPort (filter (\<lambda>n. \<not> nd_Revoked n) live)
      in bindR (nodeCounterBaselines (hb_Ports hb) byID byPort) (\<lambda>baselineOnly.
           Inr \<lparr>ic_env = E,
                ic_meter = \<lparr>mc_Server = sv_ID server, mc_TS = ts, mc_Identified = identified,
                  mc_Durable = (hb_FinalMeters hb \<noteq> None \<or> hb_NetworkBillingSwitch hb \<noteq> None \<or>
                                hb_ForwardReceipt hb \<noteq> None),
                  mc_BaselineOnly = baselineOnly\<rparr>,
                ic_hb = hb, ic_now = now,
                ic_epoch = (if hb_Epoch hb = '''' then ''default'' else hb_Epoch hb),
                ic_byID = byID, ic_byPort = byPort, ic_order = order\<rparr>))"

definition Ingest ::
  "env \<Rightarrow> (i64 list \<Rightarrow> i64 list) \<Rightarrow> time \<Rightarrow> Server \<Rightarrow> Heartbeat \<Rightarrow> db \<Rightarrow> Result res \<times> db" where
  "Ingest E order now server hb0 d =
     (case bindR (normalize E hb0) (\<lambda>hb. ingestContext E order now server hb d) of
        Inl e \<Rightarrow> (Inl e, d)
      | Inr c \<Rightarrow>
          Tx d (\<lambda>d. bindR (ingestTx c \<lparr>m_db = d, m_accepted = {}, r_res = no_result\<rparr>)
                     (\<lambda>s. Inr (r_res s, m_db s))))"

end
