(* ===== verification/Accounting.thy ===== *)
theory Accounting
  imports Ingest
begin

text \<open>
  What an ingested heartbeat keeps and promises: the accounting tables stay in range
  through every branch of the handler, and a final settlement is recorded with its effect
  and acknowledged again without one.
\<close>

section \<open>Every branch keeps the books\<close>

definition prun_ok :: "prun \<Rightarrow> bool" where
  "prun_ok s \<longleftrightarrow> billed_ok s \<and> (\<forall>e \<in> set (p_shares s). in64 (sd_Up (snd e)) \<and> in64 (sd_Down (snd e)))"

lemma addTrafficDirections_in64:
  "addTrafficDirections a b x y = Inr (u, v) \<Longrightarrow> in64 u \<and> in64 v"
  by (auto simp: addTrafficDirections_def Let_def split: if_splits)

lemma add_billed_ok:
  assumes "add c sub i rx tx s = Inr s'" "billed_ok s" "in64 rx" "in64 tx"
  shows "billed_ok s'"
  using billing_ok_part [OF add_part [OF assms(1)]] add_ok [OF _ assms(3,4,1)] assms(2)
  by (simp add: billing_ok_def)

lemma sample_billed_ok:
  assumes "sample c node rx tx s = Inr s'" "billed_ok s"
  shows "billed_ok s'"
  using billing_ok_part [OF sample_part [OF assms(1)]] sample_ok [OF _ assms(1)] assms(2)
  by (simp add: billing_ok_def)

lemma delta_billed_ok:
  assumes "delta c key ep rx tx fz s = Inr (r, s')" "billed_ok s"
  shows "billed_ok s'"
  using billing_ok_part [OF delta_part [OF assms(1)]] delta_ok [OF _ assms(1)] assms(2)
  by (simp add: billing_ok_def)

lemma add_more: "add c sub i rx tx s = Inr s' \<Longrightarrow> s' = s\<lparr>m_db := m_db s'\<rparr>"
  by (auto simp: add_def bindR_eq_Inr)

lemma add_p_shares: "add c sub i rx tx s = Inr s' \<Longrightarrow> p_shares s' = p_shares s"
  by (auto simp: add_def bindR_eq_Inr)

lemma sample_p_shares: "sample c node rx tx s = Inr s' \<Longrightarrow> p_shares s' = p_shares s"
  by (auto simp: sample_def Let_def split: if_splits option.splits dest!: add_p_shares)

lemma delta_p_shares:
  "delta c key ep rx tx fz s = Inr (r, s') \<Longrightarrow> p_shares s' = p_shares s"
  by (erule delta_cases) auto

lemma prun_ok_same:
  "prun_ok s \<Longrightarrow> billed_ok s' \<Longrightarrow> p_shares s' = p_shares s \<Longrightarrow> prun_ok s'"
  by (simp add: prun_ok_def)

lemma addShareDelta_ok:
  assumes "addShareDelta sid rx tx s = Inr s'" "prun_ok s"
  shows "prun_ok s'"
proof -
  obtain p u v where "addTrafficDirections (sd_Up p) (sd_Down p) rx tx = Inr (u, v)"
    and s': "s' = s\<lparr>p_shares := upsert sid (p\<lparr>sd_Up := u, sd_Down := v\<rparr>) (p_shares s)\<rparr>"
    using assms(1) by (auto simp: addShareDelta_def Let_def bindR_eq_Inr)
  then have "in64 u \<and> in64 v" by (simp add: addTrafficDirections_in64)
  with s' assms(2) show ?thesis by (auto simp: prun_ok_def dest!: set_upsert)
qed

lemma billNode_ok:
  assumes r: "billNode c n rx tx s = Inr s'" and ok: "prun_ok s" and b: "in64 rx" "in64 tx"
  shows "prun_ok s'"
proof -
  obtain u v s1 where
    a: "add c SubjectNode (nd_ID n) rx tx
      (s\<lparr>r_res := (r_res s)\<lparr>rs_NodeDeltas := upsert (nd_ID n) (u, v) (rs_NodeDeltas (r_res s))\<rparr>\<rparr>) = Inr s1"
    and e: "(case nd_ShareID n of None \<Rightarrow> Inr s1 | Some sid \<Rightarrow> addShareDelta sid rx tx s1) = Inr s'"
    using r unfolding billNode_def by (auto elim!: bindR_InrE split: prod.splits)
  have "billed_ok s1" using add_billed_ok [OF a _ b] ok by (simp add: prun_ok_def)
  then have "prun_ok s1" using ok add_p_shares [OF a] by (simp add: prun_ok_def)
  with e show ?thesis by (auto intro: addShareDelta_ok split: option.splits)
qed

lemma portStep_cases:
  assumes "portStep c s pc = Inr s'"
  obtains (unknown) "s' = s"
  | (transit) key ep n rx tx ok s1 where
      "portIdentity c pc = Inr (Some n, key, ep)" "nd_Source n = NodeTransit"
      "delta (ic_meter c) key ep (pc_Rx pc) (pc_Tx pc) (pc_FromZero pc)
         (s\<lparr>p_seen := insert key (p_seen s)\<rparr>) = Inr ((rx, tx, ok), s1)"
      "s' = s1 \<or> add c ''transit'' (nd_ID n) rx tx s1 = Inr s'"
  | (node) key ep n rx tx ok s1 s2 where
      "portIdentity c pc = Inr (Some n, key, ep)" "nd_Source n \<noteq> NodeTransit"
      "delta (ic_meter c) key ep (pc_Rx pc) (pc_Tx pc) (pc_FromZero pc)
         (s\<lparr>p_seen := insert key (p_seen s)\<rparr>) = Inr ((rx, tx, ok), s1)"
      "s2 = s1 \<or> sample c (Some (nd_ID n)) (pc_Rx pc) (pc_Tx pc) s1 = Inr s2"
      "s' = s2 \<and> (\<not> ok \<or> rx = 0 \<and> tx = 0) \<or> ok \<and> billNode c n rx tx s2 = Inr s'"
proof -
  obtain node key ep where i: "portIdentity c pc = Inr (node, key, ep)"
    using assms by (auto simp: portStep_def elim!: bindR_InrE)
  note run = assms [unfolded portStep_def i bindR.simps split_conv]
  show ?thesis
  proof (cases node)
    case None
    with run show ?thesis by (intro unknown) simp
  next
    case (Some n)
    let ?s0 = "s\<lparr>p_seen := insert key (p_seen s)\<rparr>"
    have "key \<notin> p_seen s" using run Some by (auto split: if_splits)
    note run2 = run [unfolded Some option.case if_not_P [OF this]]
    obtain r s1 where d0: "delta (ic_meter c) key ep (pc_Rx pc) (pc_Tx pc) (pc_FromZero pc) ?s0 = Inr (r, s1)"
      using run2 by (auto elim!: bindR_InrE)
    obtain rx tx ok where r: "r = (rx, tx, ok)" by (cases r)
    note d = d0 [unfolded r]
    note run3 = run2 [unfolded d bindR.simps split_conv]
    show ?thesis
    proof (cases "nd_Source n = NodeTransit")
      case True
      with run3 show ?thesis using transit [OF i [unfolded Some] True d] by (auto split: if_splits)
    next
      case False
      note run4 = run3 [unfolded if_not_P [OF False]]
      obtain s2 where "s2 = s1 \<or> sample c (Some (nd_ID n)) (pc_Rx pc) (pc_Tx pc) s1 = Inr s2"
        and "(if \<not> ok \<or> (rx = 0 \<and> tx = 0) then Inr s2 else billNode c n rx tx s2) = Inr s'"
        using run4 by (elim bindR_InrE) (auto split: if_splits)
      then show ?thesis using node [OF i [unfolded Some] False d] by (auto split: if_splits)
    qed
  qed
qed

lemma portStep_ok:
  assumes "portStep c s pc = Inr s'" "prun_ok s"
  shows "prun_ok s'"
  using assms(1)
proof (cases rule: portStep_cases)
  case unknown
  then show ?thesis using assms(2) by simp
next
  case (transit key ep n rx tx ok s1)
  have o: "prun_ok (s\<lparr>p_seen := insert key (p_seen s)\<rparr>)" using assms(2) by (simp add: prun_ok_def)
  then have "prun_ok s1" using delta_billed_ok [OF transit(3)] delta_p_shares [OF transit(3)]
    by (simp add: prun_ok_def)
  moreover have "in64 rx \<and> in64 tx" using delta_in64 [OF _ transit(3)] o by (simp add: prun_ok_def billing_ok_def)
  ultimately show ?thesis using transit(4)
    by (metis add_billed_ok add_p_shares prun_ok_def prun_ok_same)
next
  case (node key ep n rx tx ok s1 s2)
  have o: "prun_ok (s\<lparr>p_seen := insert key (p_seen s)\<rparr>)" using assms(2) by (simp add: prun_ok_def)
  then have "prun_ok s1" using delta_billed_ok [OF node(3)] delta_p_shares [OF node(3)]
    by (simp add: prun_ok_def)
  then have "prun_ok s2" using node(4)
    by (metis sample_billed_ok sample_p_shares prun_ok_def prun_ok_same)
  moreover have "in64 rx \<and> in64 tx" using delta_in64 [OF _ node(3)] o by (simp add: prun_ok_def billing_ok_def)
  ultimately show ?thesis using node(5) by (auto intro: billNode_ok)
qed

interpretation ports: loop_invariant "portStep c" prun_ok
  by unfold_locales (rule portStep_ok)

lemma saveCharge_frame: "share_frame d (saveCharge c sh sh' d)"
  unfolding saveCharge_def Let_def
  by (rule share_frame_trans [OF _ writeUsage_share_frame]) (simp add: writeUsage_share_frame)

lemma billing_ok_saveCharge [simp]: "billing_ok (saveCharge c sh sh' d) = billing_ok d"
  by (rule share_frame_E [OF saveCharge_frame [of d c sh sh']]) (simp add: billing_ok_def books_ok_def)

lemma static_saveCharge [simp]:
  "nodes (saveCharge c sh sh' d) = nodes d"
  "node_meter_identities (saveCharge c sh sh' d) = node_meter_identities d"
  "managed_transits (saveCharge c sh sh' d) = managed_transits d"
  "meter_settlements (saveCharge c sh sh' d) = meter_settlements d"
  by (rule share_frame_E [OF saveCharge_frame [of d c sh sh']]; simp)+

lemma shareStep_cases:
  assumes "shareStep c s sid = Inr s'"
  obtains (none) "lookup (p_shares s) sid = None" "s' = s"
  | (charged) sd s1 sh sd' sh' where "lookup (p_shares s) sid = Some sd"
      "add c SubjectShare sid (sd_Up sd) (sd_Down sd) s = Inr s1"
      "lookup (shares (m_db s1)) sid = Some sh" "chargeShare c (r_res s1) sid sd sh = Inr (sd', sh')"
      "s' = s1\<lparr>m_db := saveCharge c sh sh' (m_db s1),
              r_res := (r_res s1)\<lparr>rs_Shares := rs_Shares (r_res s1) @ [sd']\<rparr>\<rparr>"
  using assms unfolding shareStep_def by (auto elim!: bindR_InrE split: option.splits)

lemma shareStep_ok:
  assumes r: "shareStep c s sid = Inr s'" and ok: "prun_ok s"
  shows "prun_ok s'"
  using r
proof (cases rule: shareStep_cases)
  case none
  then show ?thesis using ok by simp
next
  case (charged sd s1 sh sd' sh')
  then have b: "in64 (sd_Up sd)" "in64 (sd_Down sd)"
    using ok map_of_SomeD [OF charged(1)] by (auto simp: prun_ok_def)
  have "prun_ok s1"
    using add_billed_ok [OF charged(2) _ b] add_p_shares [OF charged(2)] ok by (simp add: prun_ok_def)
  with charged(5) show ?thesis by (simp add: prun_ok_def)
qed

interpretation share_loop: loop_invariant "shareStep c" prun_ok
  by unfold_locales (rule shareStep_ok)

lemma settleFinal_ok [simp]: "billed_ok (settleFinal c s) = billed_ok s"
  by (simp add: settleFinal_def billing_ok_def books_ok_def split: option.splits)

lemma ingestNodes_ok:
  assumes "ingestNodes c s = Inr s'" "billed_ok s"
  shows "billed_ok s'"
proof -
  obtain p1 p2 where
    p1: "foldE (portStep c) (run.extend s \<lparr>p_seen = {}, p_shares = []\<rparr>) (hb_Ports (ic_hb c)) = Inr p1"
    and p2: "foldE (shareStep c) p1 (ic_order c (map fst (p_shares p1))) = Inr p2"
    and s': "s' = settleFinal c (run.truncate p2)"
    using assms(1) by (auto simp: ingestNodes_def elim!: bindR_InrE)
  have "prun_ok (run.extend s \<lparr>p_seen = {}, p_shares = []\<rparr>)"
    using assms(2) by (simp add: prun_ok_def run.defs)
  then have "prun_ok p2" using ports.loop_inv [OF p1] share_loop.loop_inv [OF p2] by blast
  then show ?thesis using s' by (simp add: prun_ok_def run.defs)
qed

lemma ingestForwardCounters_ok:
  "ingestForwardCounters c ks s = Inr s' \<Longrightarrow> billed_ok s \<Longrightarrow> billed_ok s'"
  unfolding ingestForwardCounters_def by (rule forwards.loop_inv)

lemma ingestReceipt_ok:
  assumes "ingestReceipt c r s = Inr s'" "billed_ok s"
  shows "billed_ok s'"
proof -
  obtain replay applied where
    k: "CheckForwardReceipt (ic_env c) (ic_server c) r (m_db s) = Inr (replay, applied)"
    using assms(1) by (auto simp: ingestReceipt_def elim!: bindR_InrE)
  show ?thesis
  proof (cases replay)
    case True
    then show ?thesis using assms k by (auto simp: ingestReceipt_def)
  next
    case False
    then obtain s1 d where f: "ingestForwardCounters c (hb_ForwardCounters (ic_hb c)) s = Inr s1"
      and d: "CommitForwardReceipt (ic_env c) (ic_server c) r applied (ic_now c) (m_db s1) = Inr d"
      and s': "m_db s' = d"
      using assms(1) k by (auto simp: ingestReceipt_def elim!: bindR_InrE)
    have "billed_ok s1" by (rule ingestForwardCounters_ok [OF f assms(2)])
    with CommitForwardReceipt_frame(2-5) [OF d] have "billing_ok d"
      by (intro billing_ok_part [of d "m_db s1"]) (auto simp: books_ok_def billing_ok_def)
    with s' show ?thesis by simp
  qed
qed

lemma ingestFinal_cases:
  assumes "ingestFinal c fm s = Inr s'"
  obtains (replay) "lookup (meter_settlements (m_db s)) (ic_server c, ms_ID fm) \<noteq> None"
      "s' = s\<lparr>r_res := (r_res s)\<lparr>rs_FinalMeterAck := ms_ID fm\<rparr>\<rparr>"
  | (fresh) s1 where "lookup (meter_settlements (m_db s)) (ic_server c, ms_ID fm) = None"
      "ingestForwardCounters c (hb_ForwardCounters (ic_hb c)) s = Inr s1" "ingestNodes c s1 = Inr s'"
proof (cases "lookup (meter_settlements (m_db s)) (ic_server c, ms_ID fm)")
  case None
  then show ?thesis using assms
    by (auto simp: ingestFinal_def checkFinal_def elim!: bindR_InrE split: if_splits intro: fresh)
next
  case (Some t)
  then show ?thesis using assms by (intro replay) (simp_all add: ingestFinal_def checkFinal_def)
qed

lemma ingestTx_ok:
  assumes r: "ingestTx c s = Inr s'" and ok: "billed_ok s"
    and sw: "\<And>sw. ic_switch c = Some sw \<Longrightarrow> NetworkBillingSwitch_Validate (ic_env c) sw = Inr ()"
  shows "billed_ok s'"
proof (cases "hb_ForwardReceipt (ic_hb c)")
  case (Some fr)
  then show ?thesis using r ok by (auto simp: ingestTx_def intro: ingestReceipt_ok)
next
  case no_receipt: None
  show ?thesis
  proof (cases "hb_FinalMeters (ic_hb c)")
    case (Some fm)
    then have "ingestFinal c fm s = Inr s'" using r no_receipt by (simp add: ingestTx_def)
    then show ?thesis
      by (cases rule: ingestFinal_cases) (use ok in \<open>auto dest: ingestForwardCounters_ok ingestNodes_ok\<close>)
  next
    case None
    then obtain s1 where b: "ingestNetworkBilling c s = Inr s1"
      and e: "(if ic_switch c \<noteq> None then Inr s1
          else bindR (ingestForwardCounters c (hb_ForwardCounters (ic_hb c)) s1) (ingestNodes c)) = Inr s'"
      using r no_receipt by (auto simp: ingestTx_def ingestLive_def elim!: bindR_InrE)
    have "billed_ok s1" by (rule ingestNetworkBilling_ok [OF b ok sw])
    with e show ?thesis
      by (auto elim!: bindR_InrE split: if_splits intro: ingestNodes_ok ingestForwardCounters_ok)
  qed
qed

lemma normalize_switch:
  assumes "normalize E hb0 = Inr hb" "hb_NetworkBillingSwitch hb = Some sw"
  shows "NetworkBillingSwitch_Validate E sw = Inr ()"
proof -
  obtain h1 h2 h3 where h: "normalizeReceipt hb0 = Inr h1" "normalizeForwards h1 = Inr h2"
    "normalizeBilling E h2 = Inr h3" "normalizeFinal E h3 = Inr hb"
    using assms(1) by (auto simp: normalize_def elim!: bindR_InrE)
  have "hb_NetworkBillingSwitch h3 = Some sw"
    using h(4) assms(2) by (auto simp: normalizeFinal_def elim!: bindR_InrE split: option.splits if_splits)
  with h(3) show ?thesis
    by (auto simp: normalizeBilling_def elim!: bindR_InrE split: option.splits if_splits)
qed

lemma ingestContext_hb:
  assumes "ingestContext E order now server hb d = Inr c"
  shows "ic_hb c = hb" "ic_env c = E" "ic_server c = sv_ID server" "ic_now c = now"
  using assms by (auto simp: ingestContext_def Let_def elim!: bindR_InrE)

text \<open>The handler either fails and leaves the database alone, or commits one run.\<close>

lemma Ingest_cases:
  obtains (failed) e where "Ingest E order now server hb0 d = (Inl e, d)"
  | (committed) hb c s where "normalize E hb0 = Inr hb" "ingestContext E order now server hb d = Inr c"
      "ingestTx c \<lparr>m_db = d, m_accepted = {}, r_res = no_result\<rparr> = Inr s"
      "Ingest E order now server hb0 d = (Inr (r_res s), m_db s)"
proof -
  let ?s0 = "\<lparr>m_db = d, m_accepted = {}, r_res = no_result\<rparr>"
  show ?thesis
  proof (cases "bindR (normalize E hb0) (\<lambda>hb. ingestContext E order now server hb d)")
    case (Inl e)
    then show ?thesis by (intro failed) (simp add: Ingest_def)
  next
    case (Inr c)
    then obtain hb where hb: "normalize E hb0 = Inr hb" "ingestContext E order now server hb d = Inr c"
      by (auto elim: bindR_InrE)
    show ?thesis
    proof (cases "ingestTx c ?s0")
      case (Inl e)
      then show ?thesis using \<open>bindR _ _ = Inr c\<close> by (intro failed) (simp add: Ingest_def Tx_def)
    next
      case (Inr s)
      then show ?thesis using \<open>bindR _ _ = Inr c\<close> hb by (intro committed) (simp_all add: Ingest_def Tx_def)
    qed
  qed
qed

lemma Ingest_keeps_books:
  assumes "Ingest E order now server hb0 d = (r, d')" "billing_ok d"
  shows "billing_ok d'"
proof (rule Ingest_cases [of E order now server hb0 d])
  fix e assume "Ingest E order now server hb0 d = (Inl e, d)"
  then show ?thesis using assms by simp
next
  fix hb c s
  assume n: "normalize E hb0 = Inr hb" and c: "ingestContext E order now server hb d = Inr c"
    and t: "ingestTx c \<lparr>m_db = d, m_accepted = {}, r_res = no_result\<rparr> = Inr s"
    and r: "Ingest E order now server hb0 d = (Inr (r_res s), m_db s)"
  have "billed_ok s"
    by (rule ingestTx_ok [OF t]) (use assms(2) normalize_switch [OF n] ingestContext_hb [OF c] in auto)
  then show ?thesis using r assms(1) by simp
qed

section \<open>A final settlement counts once\<close>

text \<open>The tables that say which meters exist, which the settlement of final readings leaves alone.\<close>

definition static_part :: "db \<Rightarrow> Node list \<times> MeterIdentity list \<times> i64 list" where
  "static_part d = (nodes d, node_meter_identities d, managed_transits d)"

definition kept_part :: "db \<Rightarrow> (Node list \<times> MeterIdentity list \<times> i64 list) \<times> ((i64 \<times> string) \<times> time) list" where
  "kept_part d = (static_part d, meter_settlements d)"

lemma add_static: "add c sub i rx tx s = Inr s' \<Longrightarrow> kept_part (m_db s') = kept_part (m_db s)"
  by (auto simp: add_def ingest_add_def bindR_eq_Inr kept_part_def static_part_def)

lemma sample_static: "sample c node rx tx s = Inr s' \<Longrightarrow> kept_part (m_db s') = kept_part (m_db s)"
  by (auto simp: sample_def Let_def kept_part_def static_part_def split: if_splits option.splits dest!: add_static)

lemma delta_static:
  "delta c key ep rx tx fz s = Inr (r, s') \<Longrightarrow> kept_part (m_db s') = kept_part (m_db s)"
  by (erule delta_cases) (simp_all add: writeBaseline_def Let_def kept_part_def static_part_def)

lemma ingestForwardCounter_static:
  "ingestForwardCounter c s k = Inr s' \<Longrightarrow> kept_part (m_db s') = kept_part (m_db s)"
  by (erule ingestForwardCounter_cases) (metis add_static delta_static)

interpretation forwards_static: loop_invariant "ingestForwardCounter c" "\<lambda>s. kept_part (m_db s) = q"
  by unfold_locales (auto dest: ingestForwardCounter_static)

lemma billNode_static: "billNode c n rx tx s = Inr s' \<Longrightarrow> kept_part (m_db s') = kept_part (m_db s)"
  by (auto simp: billNode_def addShareDelta_def Let_def elim!: bindR_InrE
      split: prod.splits option.splits dest!: add_static)

lemma portStep_static:
  assumes "portStep c s pc = Inr s'"
  shows "kept_part (m_db s') = kept_part (m_db s)"
  using assms
  by (cases rule: portStep_cases)
    (auto dest!: add_static sample_static delta_static billNode_static)

interpretation ports_static: loop_invariant "portStep c" "\<lambda>s. kept_part (m_db s) = q"
  by unfold_locales (auto dest: portStep_static)

lemma shareStep_static:
  assumes "shareStep c s sid = Inr s'"
  shows "kept_part (m_db s') = kept_part (m_db s)"
  using assms by (cases rule: shareStep_cases) (auto simp: kept_part_def static_part_def dest!: add_static)

interpretation shares_static: loop_invariant "shareStep c" "\<lambda>s. kept_part (m_db s) = q"
  by unfold_locales (auto dest: shareStep_static)

lemma ingestNodes_final:
  assumes "ingestNodes c s = Inr s'" "hb_FinalMeters (ic_hb c) = Some fm"
  shows "static_part (m_db s') = static_part (m_db s) \<and> rs_FinalMeterAck (r_res s') = ms_ID fm \<and>
    meter_settlements (m_db s') = upsert (ic_server c, ms_ID fm) (ic_now c) (meter_settlements (m_db s))"
proof -
  obtain p1 p2 where
    p1: "foldE (portStep c) (run.extend s \<lparr>p_seen = {}, p_shares = []\<rparr>) (hb_Ports (ic_hb c)) = Inr p1"
    and p2: "foldE (shareStep c) p1 (ic_order c (map fst (p_shares p1))) = Inr p2"
    and s': "s' = settleFinal c (run.truncate p2)"
    using assms(1) by (auto simp: ingestNodes_def elim!: bindR_InrE)
  have "kept_part (m_db p2) = kept_part (m_db s)"
    using ports_static.loop_inv [OF p1, of "kept_part (m_db s)"]
      shares_static.loop_inv [OF p2, of "kept_part (m_db s)"] by (simp add: run.defs)
  then show ?thesis using s' assms(2) by (simp add: settleFinal_def run.defs kept_part_def static_part_def)
qed

lemma ingestFinal_settles:
  assumes "ingestFinal c fm s = Inr s'" "hb_FinalMeters (ic_hb c) = Some fm"
  shows "static_part (m_db s') = static_part (m_db s) \<and> rs_FinalMeterAck (r_res s') = ms_ID fm \<and>
    lookup (meter_settlements (m_db s')) (ic_server c, ms_ID fm) \<noteq> None \<and>
    (\<forall>k. lookup (meter_settlements (m_db s)) k \<noteq> None \<longrightarrow> lookup (meter_settlements (m_db s')) k \<noteq> None)"
  using assms(1)
proof (cases rule: ingestFinal_cases)
  case replay
  then show ?thesis by simp
next
  case (fresh s1)
  have "kept_part (m_db s1) = kept_part (m_db s)"
    using forwards_static.loop_inv [OF fresh(2) [unfolded ingestForwardCounters_def], of "kept_part (m_db s)"]
    by simp
  with ingestNodes_final [OF fresh(3) assms(2)] show ?thesis by (auto simp: kept_part_def)
qed

lemma ingestContext_static:
  assumes "static_part d' = static_part d" "ingestContext E order now server hb d = Inr c"
  shows "\<exists>c'. ingestContext E order now' server hb d' = Inr c' \<and> ic_hb c' = hb \<and> ic_server c' = ic_server c"
proof -
  have e: "nodes d' = nodes d" "node_meter_identities d' = node_meter_identities d"
    "managed_transits d' = managed_transits d"
    using assms(1) by (simp_all add: static_part_def)
  show ?thesis using assms(2) unfolding ingestContext_def Let_def ListNodes_def MeterNodes_def e
    by (auto elim!: bindR_InrE)
qed

lemma normalize_final:
  assumes "normalize E hb0 = Inr hb" "hb_FinalMeters hb0 = Some fm"
  shows "hb_ForwardReceipt hb = None \<and> hb_FinalMeters hb = Some fm"
proof -
  obtain h1 h2 h3 where h: "normalizeReceipt hb0 = Inr h1" "normalizeForwards h1 = Inr h2"
    "normalizeBilling E h2 = Inr h3" "normalizeFinal E h3 = Inr hb"
    using assms(1) by (auto simp: normalize_def elim!: bindR_InrE)
  have 1: "hb_ForwardReceipt h1 = None" "h1 = hb0"
    using h(1) assms(2) by (auto simp: normalizeReceipt_def elim!: bindR_InrE split: option.splits if_splits)
  have 2: "h2 = h1" using h(2) by (auto simp: normalizeForwards_def elim!: bindR_InrE split: if_splits)
  have 3: "hb_ForwardReceipt h3 = hb_ForwardReceipt h2 \<and> hb_FinalMeters h3 = hb_FinalMeters h2"
    using h(3) by (auto simp: normalizeBilling_def elim!: bindR_InrE split: option.splits if_splits)
  have 4: "hb_ForwardReceipt hb = hb_ForwardReceipt h3 \<and> hb_FinalMeters hb = hb_FinalMeters h3"
    using h(4) by (auto simp: normalizeFinal_def elim!: bindR_InrE split: option.splits if_splits)
  show ?thesis using 1 2 3 4 assms(2) by simp
qed

lemma Ingest_final_once:
  assumes r: "Ingest E order now server hb0 d = (Inr res, d')" and fm: "hb_FinalMeters hb0 = Some fm"
  shows "rs_FinalMeterAck res = ms_ID fm \<and>
    Ingest E order now' server hb0 d' = (Inr (no_result\<lparr>rs_FinalMeterAck := ms_ID fm\<rparr>), d')"
proof (rule Ingest_cases [of E order now server hb0 d])
  fix e assume "Ingest E order now server hb0 d = (Inl e, d)"
  then show ?thesis using r by simp
next
  fix hb c s
  assume n: "normalize E hb0 = Inr hb" and c: "ingestContext E order now server hb d = Inr c"
    and t: "ingestTx c \<lparr>m_db = d, m_accepted = {}, r_res = no_result\<rparr> = Inr s"
    and i: "Ingest E order now server hb0 d = (Inr (r_res s), m_db s)"
  note nf = normalize_final [OF n fm]
  have hb: "hb_FinalMeters (ic_hb c) = Some fm" "hb_ForwardReceipt (ic_hb c) = None"
    using nf ingestContext_hb(1) [OF c] by simp_all
  then have "ingestFinal c fm \<lparr>m_db = d, m_accepted = {}, r_res = no_result\<rparr> = Inr s"
    using t by (simp add: ingestTx_def)
  note st = ingestFinal_settles [OF this hb(1)]
  obtain c' where c': "ingestContext E order now' server hb (m_db s) = Inr c'" "ic_hb c' = hb"
      "ic_server c' = ic_server c"
    using ingestContext_static [OF _ c, of "m_db s" now'] st by auto
  have "ingestTx c' \<lparr>m_db = m_db s, m_accepted = {}, r_res = no_result\<rparr> =
      Inr \<lparr>m_db = m_db s, m_accepted = {}, r_res = no_result\<lparr>rs_FinalMeterAck := ms_ID fm\<rparr>\<rparr>"
    using c' nf st by (auto simp: ingestTx_def ingestFinal_def checkFinal_def)
  then show ?thesis using i r st n c' by (simp add: Ingest_def Tx_def)
qed

end
