(* ===== verification/Usage.thy ===== *)
theory Usage
  imports Ledger Period Generations
begin

text \<open>
  Current-period usage of a server (\<^verbatim>\<open>ServerUsage\<close>, \<^verbatim>\<open>Daily\<close>, \<^verbatim>\<open>DailySince\<close> of
  \<^verbatim>\<open>internal/traffic/ingest.go\<close>), the provider readings it can be calibrated with
  (\<^verbatim>\<open>internal/store/server_usage_calibration.go\<close>) and the guarded automatic stop
  (\<^verbatim>\<open>internal/store/server_quota.go\<close>). The percentage, a float for display, is left out.
\<close>

section \<open>Calibrations\<close>

record ServerUsageCalibration =
  uc_CalibratedBytes :: i64
  uc_ObservedBytes :: i64
  uc_ObservedUpBytes :: i64
  uc_ObservedDownBytes :: i64
  uc_HasDirectionalSnapshot :: bool
  uc_ProviderUpBytes :: i64
  uc_ProviderDownBytes :: i64
  uc_HasProviderDirections :: bool
  uc_CalibratedAt :: time

definition checkProvider :: "string \<Rightarrow> i64 \<Rightarrow> (i64 \<times> i64) list \<Rightarrow> (i64 \<times> i64) option res" where
  "checkProvider mode calibrated directions =
     (case directions of
        [] \<Rightarrow> Inr None
      | [(pu, pd)] \<Rightarrow>
          if pu < 0 \<or> pd < 0 \<or> pu > sub64 MaxInt64 pd \<or> ServerQuotaBilled mode pu pd \<noteq> calibrated
          then Inl (Err ''invalid provider direction snapshot'') else Inr (Some (pu, pd))
      | _ \<Rightarrow> Inl (Err ''multiple provider direction snapshots''))"

definition saveServerUsageCalibrationTx ::
  "i64 \<Rightarrow> string \<Rightarrow> i64 option \<Rightarrow> time \<Rightarrow> time \<Rightarrow> (i64 \<times> i64) list \<Rightarrow> db \<Rightarrow> db res" where
  "saveServerUsageCalibrationTx serverID mode calibratedBytes periodStart now directions d =
     (case calibratedBytes of
        None \<Rightarrow> if directions \<noteq> [] then Inl (Err ''provider directions require a calibrated amount'') else Inr d
      | Some calibrated \<Rightarrow>
        if calibrated < 0 \<or> IsZero periodStart then Inl (Err ''invalid server usage calibration'')
        else
          bindR (sumRows (rowsOf SubjectServer (\<lambda>i. i = serverID) (day_of periodStart) (day_of now) d)) (\<lambda>(up, down).
            if up < 0 \<or> down < 0 \<or> up > sub64 MaxInt64 down then Inl (Err ''server traffic total overflow'')
            else
              bindR (checkProvider mode calibrated directions) (\<lambda>provider.
                Inr (d\<lparr>server_usage_calibrations := upsert serverID
                  \<lparr>ca_PeriodStart = day_of periodStart, ca_CalibratedBytes = calibrated,
                   ca_ObservedBytes = ServerQuotaBilled mode up down,
                   ca_ObservedUp = Some up, ca_ObservedDown = Some down,
                   ca_ProviderUp = map_option fst provider, ca_ProviderDown = map_option snd provider,
                   ca_CalibratedAt = now\<rparr> (server_usage_calibrations d)\<rparr>))))"

definition optInt :: "i64 option \<Rightarrow> i64" where
  "optInt x = (case x of None \<Rightarrow> 0 | Some v \<Rightarrow> v)"

definition GetServerUsageCalibration :: "i64 \<Rightarrow> time \<Rightarrow> db \<Rightarrow> ServerUsageCalibration option" where
  "GetServerUsageCalibration serverID periodStart d =
     (if IsZero periodStart then None
      else case lookup (server_usage_calibrations d) serverID of
        None \<Rightarrow> None
      | Some c \<Rightarrow>
        if ca_PeriodStart c \<noteq> day_of periodStart then None
        else
          let provider = (ca_ProviderUp c \<noteq> None \<and> ca_ProviderDown c \<noteq> None);
              observed = (ca_ObservedUp c \<noteq> None \<and> ca_ObservedDown c \<noteq> None)
          in Some \<lparr>uc_CalibratedBytes = ca_CalibratedBytes c, uc_ObservedBytes = ca_ObservedBytes c,
               uc_ObservedUpBytes = (if observed then optInt (ca_ObservedUp c) else 0),
               uc_ObservedDownBytes = (if observed then optInt (ca_ObservedDown c) else 0),
               uc_HasDirectionalSnapshot = observed,
               uc_ProviderUpBytes = (if provider then optInt (ca_ProviderUp c) else 0),
               uc_ProviderDownBytes = (if provider then optInt (ca_ProviderDown c) else 0),
               uc_HasProviderDirections = provider, uc_CalibratedAt = ca_CalibratedAt c\<rparr>)"

section \<open>Usage of the current period\<close>

record ServerUsage =
  us_ServerID :: i64
  us_PeriodStart :: time
  us_NextReset :: "time option"
  us_Up :: i64
  us_Down :: i64
  us_Inbound :: i64
  us_Outbound :: i64
  us_Total :: i64
  us_Billed :: i64
  us_OneWay :: i64
  us_TwoWay :: i64
  us_Quota :: i64
  us_OverQuota :: bool
  us_BilledEstimated :: bool
  us_Calibration :: "ServerUsageCalibration option"

text \<open>The billed amount under a calibration; the flag says that it is an estimate.\<close>

definition providerBilled :: "string \<Rightarrow> i64 \<Rightarrow> i64 \<Rightarrow> ServerUsageCalibration \<Rightarrow> i64 res" where
  "providerBilled mode up down c =
     (if \<not> uc_HasDirectionalSnapshot c \<or> up < uc_ObservedUpBytes c \<or> down < uc_ObservedDownBytes c
      then Inl (Err ''calibration directional baseline unavailable'')
      else
        let newUp = sub64 up (uc_ObservedUpBytes c); newDown = sub64 down (uc_ObservedDownBytes c)
        in if uc_ProviderUpBytes c > sub64 MaxInt64 newUp \<or> uc_ProviderDownBytes c > sub64 MaxInt64 newDown
           then Inl (Err ''calibrated server traffic overflow'')
           else
             let pu = add64 (uc_ProviderUpBytes c) newUp; pd = add64 (uc_ProviderDownBytes c) newDown
             in if pu > sub64 MaxInt64 pd then Inl (Err ''calibrated server total overflow'')
                else Inr (ServerQuotaBilled mode pu pd))"

definition readingDelta :: "string \<Rightarrow> i64 \<Rightarrow> i64 \<Rightarrow> i64 \<Rightarrow> ServerUsageCalibration \<Rightarrow> i64" where
  "readingDelta mode billed up down c =
     (if mode \<noteq> BillingMax then sub64 billed (uc_ObservedBytes c)
      else if uc_HasDirectionalSnapshot c then
        (let newUp = sub64 up (uc_ObservedUpBytes c); newDown = sub64 down (uc_ObservedDownBytes c)
         in ServerQuotaBilled BillingMax (if newUp < 0 then 0 else newUp) (if newDown < 0 then 0 else newDown))
      else ServerQuotaBilled BillingMax up down)"

definition readingBilled :: "string \<Rightarrow> i64 \<Rightarrow> i64 \<Rightarrow> i64 \<Rightarrow> ServerUsageCalibration \<Rightarrow> (i64 \<times> bool) res" where
  "readingBilled mode billed up down c =
     (let delta = readingDelta mode billed up down c
      in if delta > 0 \<and> uc_CalibratedBytes c > sub64 MaxInt64 delta
         then Inl (Err ''calibrated server traffic overflow'')
         else
           let b = add64 (uc_CalibratedBytes c) delta
           in Inr (if b < 0 then 0 else b, mode = BillingMax))"

definition calibratedBilled :: "string \<Rightarrow> i64 \<Rightarrow> i64 \<Rightarrow> i64 \<Rightarrow> ServerUsageCalibration \<Rightarrow> (i64 \<times> bool) res" where
  "calibratedBilled mode billed up down c =
     (if uc_HasProviderDirections c then bindR (providerBilled mode up down c) (\<lambda>b. Inr (b, False))
      else readingBilled mode billed up down c)"

definition ServerUsageOf :: "time \<Rightarrow> Server \<Rightarrow> db \<Rightarrow> ServerUsage res" where
  "ServerUsageOf now s d =
     (let start0 = PeriodStart now (sv_QuotaResetDay s);
          periodic = \<not> IsZero start0;
          start = (if periodic then start0 else TruncateDay now - 29 * day_ns)
      in bindR (SumTraffic SubjectServer (sv_ID s) start now d) (\<lambda>(up, down).
           let billed0 = ServerQuotaBilled (sv_QuotaBilling s) up down;
               calibration = (if periodic then GetServerUsageCalibration (sv_ID s) start d else None)
           in bindR (case calibration of None \<Rightarrow> Inr (billed0, False)
                     | Some c \<Rightarrow> calibratedBilled (sv_QuotaBilling s) billed0 up down c) (\<lambda>(billed, estimated).
                Inr \<lparr>us_ServerID = sv_ID s, us_PeriodStart = start,
                     us_NextReset = (if periodic then Some (NextReset now (sv_QuotaResetDay s)) else None),
                     us_Up = up, us_Down = down, us_Inbound = Inbound up down, us_Outbound = Outbound up down,
                     us_Total = Total up down, us_Billed = billed, us_OneWay = Outbound up down,
                     us_TwoWay = Total up down, us_Quota = sv_QuotaBytes s,
                     us_OverQuota = (sv_QuotaBytes s > 0 \<and> billed \<ge> sv_QuotaBytes s),
                     us_BilledEstimated = estimated, us_Calibration = calibration\<rparr>)))"

section \<open>The guarded stop\<close>

record ServerQuotaSnapshot =
  qs_Server :: Server
  qs_ObservedAt :: time
  qs_PeriodStart :: time
  qs_Calibration :: "ServerUsageCalibration option"

definition calibrationUnchanged :: "ServerQuotaSnapshot \<Rightarrow> db \<Rightarrow> bool" where
  "calibrationUnchanged q d =
     (let row = (case lookup (server_usage_calibrations d) (sv_ID (qs_Server q)) of None \<Rightarrow> None
                 | Some r \<Rightarrow> if ca_PeriodStart r = day_of (qs_PeriodStart q) then Some r else None)
      in case qs_Calibration q of
           None \<Rightarrow> row = None
         | Some c \<Rightarrow>
             row = Some \<lparr>ca_PeriodStart = day_of (qs_PeriodStart q), ca_CalibratedBytes = uc_CalibratedBytes c,
               ca_ObservedBytes = uc_ObservedBytes c,
               ca_ObservedUp = (if uc_HasDirectionalSnapshot c then Some (uc_ObservedUpBytes c) else None),
               ca_ObservedDown = (if uc_HasDirectionalSnapshot c then Some (uc_ObservedDownBytes c) else None),
               ca_ProviderUp = (if uc_HasProviderDirections c then Some (uc_ProviderUpBytes c) else None),
               ca_ProviderDown = (if uc_HasProviderDirections c then Some (uc_ProviderDownBytes c) else None),
               ca_CalibratedAt = uc_CalibratedAt c\<rparr>)"

definition policyUnchanged :: "Server \<Rightarrow> Server \<Rightarrow> bool" where
  "policyUnchanged v row \<longleftrightarrow> sv_Enabled row \<and> sv_QuotaBytes row = sv_QuotaBytes v \<and>
     sv_QuotaBilling row = sv_QuotaBilling v \<and> sv_QuotaResetDay row = sv_QuotaResetDay v \<and>
     sv_UpdatedAt row = sv_UpdatedAt v"

text \<open>
  \<open>before\<close> and \<open>after\<close> are the two readings of the clock inside the transaction, \<open>now\<close> the
  store's clock for \<^verbatim>\<open>updated_at\<close>.
\<close>

definition DisableServerIfQuotaUnchanged ::
  "ServerQuotaSnapshot \<Rightarrow> time \<Rightarrow> time \<Rightarrow> time \<Rightarrow> db \<Rightarrow> bool \<times> db" where
  "DisableServerIfQuotaUnchanged q before now after d =
     (let v = qs_Server q; day = day_of (qs_ObservedAt q)
      in if \<not> sv_Enabled v \<or> sv_QuotaBytes v \<le> 0 \<or> IsZero (qs_ObservedAt q) \<or> IsZero (qs_PeriodStart q)
         then (False, d)
         else if day \<noteq> day_of before then (False, d)
         else
           case lookup (servers d) (sv_ID v) of
             None \<Rightarrow> (False, d)
           | Some row \<Rightarrow>
               if policyUnchanged v row \<and> (sv_QuotaResetDay v > 0 \<longrightarrow> calibrationUnchanged q d) \<and>
                  day = day_of after
               then (True, writeServer now (row\<lparr>sv_ID := sv_ID v, sv_Enabled := False, sv_UpdatedAt := now\<rparr>) d)
               else (False, d))"

section \<open>Daily series\<close>

function daysFrom :: "time \<Rightarrow> time \<Rightarrow> time list" where
  "daysFrom d now = (if d > now then [] else d # daysFrom (d + day_ns) now)"
  by pat_completeness auto

termination daysFrom
  by (relation "measure (\<lambda>(d, now). nat (now + 1 - d))") auto

declare daysFrom.simps [simp del]

record Series =
  sr_HasData :: bool
  sr_Subject :: string
  sr_ID :: i64
  sr_From :: int
  sr_To :: int
  sr_Points :: "(time \<times> i64 \<times> i64) list"
  sr_TotalUp :: i64
  sr_TotalDown :: i64
  sr_Total :: i64

definition dayValue :: "TrafficBucket list \<Rightarrow> time \<Rightarrow> i64 \<times> i64" where
  "dayValue rows d = (case lastBy fst rows (day_of d) of None \<Rightarrow> (0, 0) | Some (_, up, down) \<Rightarrow> (up, down))"

definition seriesStep ::
  "TrafficBucket list \<Rightarrow> (time \<times> i64 \<times> i64) list \<times> i64 \<times> i64 \<Rightarrow> time \<Rightarrow>
   ((time \<times> i64 \<times> i64) list \<times> i64 \<times> i64) res" where
  "seriesStep rows st d =
     (case (st, dayValue rows d) of ((points, totalUp, totalDown), (up, down)) \<Rightarrow>
        bindR (addTrafficDirections totalUp totalDown up down)
          (\<lambda>(u, v). Inr (points @ [(d, up, down)], u, v)))"

definition dailyRange :: "string \<Rightarrow> i64 \<Rightarrow> time \<Rightarrow> time \<Rightarrow> db \<Rightarrow> Series res" where
  "dailyRange subject sid from now d =
     bindR (if sid = 0 then DailyTotals subject from now d else DailyTraffic subject sid from now d) (\<lambda>rows.
     bindR (foldE (seriesStep rows) ([], 0, 0) (daysFrom from now)) (\<lambda>(points, up, down).
       Inr \<lparr>sr_HasData = (rows \<noteq> []), sr_Subject = subject, sr_ID = sid, sr_From = day_of from,
            sr_To = day_of now, sr_Points = points, sr_TotalUp = up, sr_TotalDown = down,
            sr_Total = Total up down\<rparr>))"

definition Daily :: "string \<Rightarrow> i64 \<Rightarrow> int \<Rightarrow> time \<Rightarrow> db \<Rightarrow> Series res" where
  "Daily subject sid days now d =
     (let n0 = (if days \<le> 0 then 30 else days); n = (if n0 > 365 then 365 else n0)
      in dailyRange subject sid (TruncateDay now - (n - 1) * day_ns) now d)"

definition DailySince :: "string \<Rightarrow> i64 \<Rightarrow> time \<Rightarrow> time \<Rightarrow> db \<Rightarrow> Series res" where
  "DailySince subject sid from now d = dailyRange subject sid (TruncateDay from) now d"

section \<open>A calibration is what is billed when it is saved\<close>

lemma sub64_self [simp]: "sub64 x x = 0"
  by (simp add: sub64_def wrap64_def)

lemma add64_0 [simp]: "in64 x \<Longrightarrow> add64 x 0 = x"
  by (simp add: add64_exact)

lemma sumRows_in64:
  assumes "sumRows rows = Inr (up, down)"
  shows "in64 up \<and> in64 down"
proof -
  have "in64 s' " if "foldE sqlAdd s xs = Inr s'" "in64 s" for s s' xs
    using that by (induction xs arbitrary: s) (auto simp: bindR_eq_Inr sqlAdd_def split: if_splits)
  then show ?thesis using assms by (auto simp: sumRows_def sqlSum_def bindR_eq_Inr in64_def)
qed

lemma rowsOf_frame [simp]:
  "rowsOf sub P a b (d\<lparr>server_usage_calibrations := t\<rparr>) = rowsOf sub P a b d"
  by (simp add: rowsOf_def)

lemma calibratedBilled_at_save:
  assumes "checkProvider mode cal dirs = Inr provider" "in64 cal" "0 \<le> cal"
    and "\<forall>p \<in> set dirs. in64 (fst p) \<and> in64 (snd p)"
    and c: "c = \<lparr>uc_CalibratedBytes = cal, uc_ObservedBytes = billed, uc_ObservedUpBytes = up,
       uc_ObservedDownBytes = down, uc_HasDirectionalSnapshot = True,
       uc_ProviderUpBytes = (case provider of None \<Rightarrow> 0 | Some p \<Rightarrow> fst p),
       uc_ProviderDownBytes = (case provider of None \<Rightarrow> 0 | Some p \<Rightarrow> snd p),
       uc_HasProviderDirections = (provider \<noteq> None), uc_CalibratedAt = now\<rparr>"
  shows "\<exists>e. calibratedBilled mode billed up down c = Inr (cal, e)"
proof (cases provider)
  case None
  then show ?thesis using assms(2,3) c
    by (auto simp: calibratedBilled_def readingBilled_def readingDelta_def Let_def ServerQuotaBilled_def QuotaBilled_def)
next
  case (Some p)
  obtain pu pd where p: "p = (pu, pd)" by (cases p)
  with Some assms(1) have d: "dirs = [(pu, pd)]" and b: "0 \<le> pu" "0 \<le> pd" "pu \<le> sub64 MaxInt64 pd"
    and q: "ServerQuotaBilled mode pu pd = cal"
    by (auto simp: checkProvider_def split: list.splits if_splits prod.splits)
  then have i: "in64 pu" "in64 pd" using assms(4) by auto
  then have "sub64 MaxInt64 0 = MaxInt64" "pu \<le> MaxInt64" "pd \<le> MaxInt64"
    by (simp_all add: in64_def sub64_def wrap64_def)
  then show ?thesis using c Some p q b i
    by (auto simp: calibratedBilled_def providerBilled_def Let_def)
qed

lemma calibration_roundtrip:
  assumes save: "saveServerUsageCalibrationTx (sv_ID s) (sv_QuotaBilling s) (Some cal)
      (PeriodStart now (sv_QuotaResetDay s)) now dirs d = Inr d'"
    and "in64 cal" "\<forall>p \<in> set dirs. in64 (fst p) \<and> in64 (snd p)"
  shows "\<exists>u. ServerUsageOf now s d' = Inr u \<and> us_Billed u = cal"
proof -
  let ?start = "PeriodStart now (sv_QuotaResetDay s)"
  have z: "\<not> IsZero ?start" "0 \<le> cal" using save by (auto simp: saveServerUsageCalibrationTx_def split: if_splits)
  obtain up down provider where
    sum: "sumRows (rowsOf SubjectServer (\<lambda>i. i = sv_ID s) (day_of ?start) (day_of now) d) = Inr (up, down)"
    and ok: "0 \<le> up" "0 \<le> down" "up \<le> sub64 MaxInt64 down"
    and pr: "checkProvider (sv_QuotaBilling s) cal dirs = Inr provider"
    and d': "d' = d\<lparr>server_usage_calibrations := upsert (sv_ID s)
                  \<lparr>ca_PeriodStart = day_of ?start, ca_CalibratedBytes = cal,
                   ca_ObservedBytes = ServerQuotaBilled (sv_QuotaBilling s) up down,
                   ca_ObservedUp = Some up, ca_ObservedDown = Some down,
                   ca_ProviderUp = map_option fst provider, ca_ProviderDown = map_option snd provider,
                   ca_CalibratedAt = now\<rparr> (server_usage_calibrations d)\<rparr>"
    using save z by (auto simp: saveServerUsageCalibrationTx_def elim!: bindR_InrE split: if_splits)
  have "ValidTrafficTotals up down" using ok by (simp add: ValidTrafficTotals_def)
  then have st: "SumTraffic SubjectServer (sv_ID s) ?start now d' = Inr (up, down)"
    using sum by (simp add: SumTraffic_def sumRowsChecked_def d')
  define c where "c = \<lparr>uc_CalibratedBytes = cal,
     uc_ObservedBytes = ServerQuotaBilled (sv_QuotaBilling s) up down, uc_ObservedUpBytes = up,
       uc_ObservedDownBytes = down, uc_HasDirectionalSnapshot = True,
       uc_ProviderUpBytes = (case provider of None \<Rightarrow> 0 | Some p \<Rightarrow> fst p),
       uc_ProviderDownBytes = (case provider of None \<Rightarrow> 0 | Some p \<Rightarrow> snd p),
       uc_HasProviderDirections = (provider \<noteq> None), uc_CalibratedAt = now\<rparr>"
  have g: "GetServerUsageCalibration (sv_ID s) ?start d' = Some c"
    using z by (cases provider) (simp_all add: GetServerUsageCalibration_def d' c_def optInt_def)
  obtain e where "calibratedBilled (sv_QuotaBilling s) (ServerQuotaBilled (sv_QuotaBilling s) up down) up down c =
      Inr (cal, e)"
    using calibratedBilled_at_save [OF pr assms(2) z(2) assms(3) c_def] by blast
  then show ?thesis using z st g by (simp add: ServerUsageOf_def)
qed

section \<open>More traffic is never billed less\<close>

definition calibration_ok :: "ServerUsageCalibration \<Rightarrow> bool" where
  "calibration_ok c \<longleftrightarrow> 0 \<le> uc_CalibratedBytes c \<and> uc_CalibratedBytes c \<le> MaxInt64 \<and>
     0 \<le> uc_ObservedBytes c \<and> uc_ObservedBytes c \<le> MaxInt64 \<and>
     0 \<le> uc_ObservedUpBytes c \<and> uc_ObservedUpBytes c \<le> MaxInt64 \<and>
     0 \<le> uc_ObservedDownBytes c \<and> uc_ObservedDownBytes c \<le> MaxInt64 \<and>
     0 \<le> uc_ProviderUpBytes c \<and> 0 \<le> uc_ProviderDownBytes c"

lemma providerBilled_eq:
  assumes "providerBilled mode up down c = Inr b" "calibration_ok c"
    and "0 \<le> up" "0 \<le> down" "up + down \<le> MaxInt64"
  shows "uc_ObservedUpBytes c \<le> up \<and> uc_ObservedDownBytes c \<le> down \<and>
    b = QuotaBilled mode (uc_ProviderUpBytes c + (up - uc_ObservedUpBytes c))
          (uc_ProviderDownBytes c + (down - uc_ObservedDownBytes c)) \<and>
    uc_ProviderUpBytes c + (up - uc_ObservedUpBytes c) +
      (uc_ProviderDownBytes c + (down - uc_ObservedDownBytes c)) \<le> MaxInt64"
proof -
  let ?nu = "up - uc_ObservedUpBytes c" and ?nd = "down - uc_ObservedDownBytes c"
  have o: "uc_ObservedUpBytes c \<le> up" "uc_ObservedDownBytes c \<le> down"
    using assms(1) by (auto simp: providerBilled_def split: if_splits)
  have s: "sub64 up (uc_ObservedUpBytes c) = ?nu" "sub64 down (uc_ObservedDownBytes c) = ?nd"
    using assms o by (auto simp: calibration_ok_def intro!: sub64_nonneg_exact)
  have m: "sub64 MaxInt64 ?nu = MaxInt64 - ?nu" "sub64 MaxInt64 ?nd = MaxInt64 - ?nd"
    using assms o by (auto simp: calibration_ok_def intro!: sub64_nonneg_exact)
  have p: "uc_ProviderUpBytes c \<le> MaxInt64 - ?nu" "uc_ProviderDownBytes c \<le> MaxInt64 - ?nd"
    using assms(1) o s m by (auto simp: providerBilled_def Let_def split: if_splits)
  have a: "add64 (uc_ProviderUpBytes c) ?nu = uc_ProviderUpBytes c + ?nu"
    "add64 (uc_ProviderDownBytes c) ?nd = uc_ProviderDownBytes c + ?nd"
    using p o assms(2) by (auto simp: calibration_ok_def intro!: add64_nonneg_exact)
  have m2: "sub64 MaxInt64 (uc_ProviderDownBytes c + ?nd) = MaxInt64 - (uc_ProviderDownBytes c + ?nd)"
    using p o assms(2) by (auto simp: calibration_ok_def intro!: sub64_nonneg_exact)
  show ?thesis using assms(1) o s m p a m2
    by (auto simp: providerBilled_def Let_def ServerQuotaBilled_def split: if_splits)
qed

lemma readingDelta_eq:
  assumes "calibration_ok c" "0 \<le> up" "0 \<le> down" "up + down \<le> MaxInt64"
  shows "readingDelta mode (QuotaBilled mode up down) up down c =
    (if mode \<noteq> BillingMax then QuotaBilled mode up down - uc_ObservedBytes c
     else if uc_HasDirectionalSnapshot c
     then max (max 0 (up - uc_ObservedUpBytes c)) (max 0 (down - uc_ObservedDownBytes c))
     else max up down)"
proof -
  have q: "0 \<le> QuotaBilled mode up down \<and> QuotaBilled mode up down \<le> up + down"
    using QuotaBilled_bounds assms by blast
  have s: "sub64 up (uc_ObservedUpBytes c) = up - uc_ObservedUpBytes c"
    "sub64 down (uc_ObservedDownBytes c) = down - uc_ObservedDownBytes c"
    "sub64 (QuotaBilled mode up down) (uc_ObservedBytes c) = QuotaBilled mode up down - uc_ObservedBytes c"
    using assms q by (auto simp: calibration_ok_def intro!: sub64_nonneg_exact)
  have m: "ServerQuotaBilled BillingMax a b = max a b" for a b
    by (simp add: ServerQuotaBilled_def QuotaBilled_def max_def)
  show ?thesis unfolding readingDelta_def Let_def s m by (simp add: max_def)
qed

lemma readingDelta_range:
  assumes "calibration_ok c" "0 \<le> up" "0 \<le> down" "up + down \<le> MaxInt64"
  shows "- MaxInt64 \<le> readingDelta mode (QuotaBilled mode up down) up down c \<and>
    readingDelta mode (QuotaBilled mode up down) up down c \<le> MaxInt64"
  using assms QuotaBilled_bounds [OF assms(2-4), of mode]
  unfolding readingDelta_eq [OF assms] calibration_ok_def by (simp add: max_def)

lemma readingBilled_eq:
  assumes "readingBilled mode (QuotaBilled mode up down) up down c = Inr (b, e)" "calibration_ok c"
    and "0 \<le> up" "0 \<le> down" "up + down \<le> MaxInt64"
  shows "b = max 0 (uc_CalibratedBytes c + readingDelta mode (QuotaBilled mode up down) up down c)"
proof -
  define delta where "delta = readingDelta mode (QuotaBilled mode up down) up down c"
  have dl: "- MaxInt64 \<le> delta" "delta \<le> MaxInt64"
    using readingDelta_range [OF assms(2-5), of mode] by (simp_all add: delta_def)
  note r = assms(1) [unfolded readingBilled_def Let_def, folded delta_def]
  have m: "delta > 0 \<Longrightarrow> sub64 MaxInt64 delta = MaxInt64 - delta"
    using dl by (intro sub64_nonneg_exact) auto
  have "in64 (uc_CalibratedBytes c + delta)"
    using r m dl assms(2) by (auto simp: in64_def calibration_ok_def split: if_splits)
  then have "add64 (uc_CalibratedBytes c) delta = uc_CalibratedBytes c + delta" by (rule add64_exact)
  then show ?thesis using r unfolding delta_def [symmetric] by (auto split: if_splits)
qed

lemma calibratedBilled_mono:
  assumes c: "calibration_ok c" and "0 \<le> up" "up \<le> up'" "0 \<le> down" "down \<le> down'" "up' + down' \<le> MaxInt64"
    and r: "calibratedBilled mode (ServerQuotaBilled mode up down) up down c = Inr (b, e)"
    and r': "calibratedBilled mode (ServerQuotaBilled mode up' down') up' down' c = Inr (b', e')"
  shows "b \<le> b'"
proof (cases "uc_HasProviderDirections c")
  case True
  then have p: "providerBilled mode up down c = Inr b" "providerBilled mode up' down' c = Inr b'"
    using r r' by (auto simp: calibratedBilled_def bindR_eq_Inr)
  have v: "0 \<le> up'" "0 \<le> down'" "up + down \<le> MaxInt64" using assms by auto
  note e = providerBilled_eq [OF p(1) c assms(2,4) v(3)] providerBilled_eq [OF p(2) c v(1,2) assms(6)]
  show ?thesis using e c assms(3,5) unfolding calibration_ok_def
    by (auto intro!: QuotaBilled_mono)
next
  case False
  then have p: "readingBilled mode (QuotaBilled mode up down) up down c = Inr (b, e)"
    "readingBilled mode (QuotaBilled mode up' down') up' down' c = Inr (b', e')"
    using r r' by (auto simp: calibratedBilled_def ServerQuotaBilled_def)
  have v: "0 \<le> up'" "0 \<le> down'" "up + down \<le> MaxInt64" using assms by auto
  note e = readingBilled_eq [OF p(1) c assms(2,4) v(3), unfolded readingDelta_eq [OF c assms(2,4) v(3)]]
    readingBilled_eq [OF p(2) c v(1,2) assms(6), unfolded readingDelta_eq [OF c v(1,2) assms(6)]]
  have "QuotaBilled mode up down \<le> QuotaBilled mode up' down'" by (rule QuotaBilled_mono) (use assms in auto)
  then show ?thesis using assms(3,5) unfolding e by (cases "mode = BillingMax") (auto simp: max_def)
qed

section \<open>The automatic stop acts only on what was observed\<close>

lemma DisableServer_True:
  assumes "DisableServerIfQuotaUnchanged q before now after d = (True, d')"
  shows "\<exists>row. lookup (servers d) (sv_ID (qs_Server q)) = Some row \<and> policyUnchanged (qs_Server q) row \<and>
    (0 < sv_QuotaResetDay (qs_Server q) \<longrightarrow> calibrationUnchanged q d) \<and> 0 < sv_QuotaBytes row \<and>
    day_of (qs_ObservedAt q) = day_of before \<and> day_of (qs_ObservedAt q) = day_of after \<and>
    d' = writeServer now (row\<lparr>sv_ID := sv_ID (qs_Server q), sv_Enabled := False, sv_UpdatedAt := now\<rparr>) d"
  using assms
  by (auto simp: DisableServerIfQuotaUnchanged_def Let_def policyUnchanged_def split: if_splits option.splits)

lemma DisableServer_False:
  "DisableServerIfQuotaUnchanged q before now after d = (False, d') \<Longrightarrow> d' = d"
  by (auto simp: DisableServerIfQuotaUnchanged_def Let_def split: if_splits option.splits)

text \<open>The stop is one-shot: a second attempt on the same observation finds the server stopped.\<close>

lemma DisableServer_twice:
  assumes "DisableServerIfQuotaUnchanged q before now after d = (True, d')"
  shows "DisableServerIfQuotaUnchanged q b n a d' = (False, d')"
  using DisableServer_True [OF assms]
  by (auto simp: DisableServerIfQuotaUnchanged_def Let_def policyUnchanged_def)

section \<open>A series adds up\<close>

lemma daysFrom_days:
  "daysFrom (a * day_ns) now = map (\<lambda>k. k * day_ns) [a .. day_of now]"
proof (induction "a * day_ns" now arbitrary: a rule: daysFrom.induct)
  case (1 now)
  show ?case
  proof (cases "a * day_ns > now")
    case True
    then have "day_of now < a" using day_bounds [of now] by (simp add: day_of_def)
    with True show ?thesis by (simp add: daysFrom.simps [of "a * day_ns"])
  next
    case False
    then have "a \<le> day_of now" using day_of_mono [of "a * day_ns" now] by simp
    moreover have "a * day_ns + day_ns = (a + 1) * day_ns" by simp
    ultimately show ?thesis
      using False 1 [of "a + 1"] by (simp add: daysFrom.simps [of "a * day_ns"] upto_rec1 [of a])
  qed
qed

definition series_ok :: "(time \<times> i64 \<times> i64) list \<times> i64 \<times> i64 \<Rightarrow> bool" where
  "series_ok st \<longleftrightarrow> in64 (fst (snd st)) \<and> in64 (snd (snd st))"

text \<open>\<^verbatim>\<open>SUM\<close> in a query is the sum, when it is a value at all.\<close>

interpretation sql: loop_accumulates sqlAdd "\<lambda>_. True" "\<lambda>s. s" "\<lambda>s x. x"
  by unfold_locales (auto simp: sqlAdd_def split: if_splits)

lemma sqlSum_eq: "sqlSum xs = Inr v \<Longrightarrow> v = sum_list xs"
proof -
  have g: "foldE sqlAdd s xs = Inr v \<Longrightarrow> gains sqlAdd (\<lambda>s x. x) s xs = sum_list xs" for s xs
    by (induction xs arbitrary: s) (auto simp: bindR_eq_Inr)
  assume "sqlSum xs = Inr v"
  then show ?thesis using sql.loop_total [of 0 xs v] g [of 0 xs] by (simp add: sqlSum_def)
qed

lemma seriesStep_Inr:
  assumes "seriesStep rows (ps, u, v) d = Inr st'" "series_ok (ps, u, v)" "in64 (fst (dayValue rows d))" "in64 (snd (dayValue rows d))"
  shows "st' = (ps @ [(d, dayValue rows d)], u + fst (dayValue rows d), v + snd (dayValue rows d)) \<and> series_ok st'"
proof -
  obtain a b where ab: "dayValue rows d = (a, b)" by (cases "dayValue rows d")
  obtain x y where xy: "addTrafficDirections u v a b = Inr (x, y)" and st': "st' = (ps @ [(d, a, b)], x, y)"
    using assms(1) by (auto simp: seriesStep_def ab bindR_eq_Inr)
  have "x = u + a \<and> y = v + b"
    using addTrafficDirections_iff [of u v a b x y] assms(2-4) xy ab by (simp add: series_ok_def)
  moreover have "in64 x \<and> in64 y"
    using xy by (auto simp: addTrafficDirections_def Let_def split: if_splits)
  ultimately show ?thesis using st' ab by (simp add: series_ok_def)
qed

lemma series_loop:
  assumes "\<forall>d \<in> set ds. in64 (fst (dayValue rows d)) \<and> in64 (snd (dayValue rows d))"
  shows "foldE (seriesStep rows) (ps, u, v) ds = Inr (ps', u', v') \<Longrightarrow> series_ok (ps, u, v) \<Longrightarrow>
    ps' = ps @ map (\<lambda>d. (d, dayValue rows d)) ds \<and> u' = u + (\<Sum>d \<leftarrow> ds. fst (dayValue rows d)) \<and>
    v' = v + (\<Sum>d \<leftarrow> ds. snd (dayValue rows d))"
  using assms
proof (induction ds arbitrary: ps u v)
  case Nil
  then show ?case by simp
next
  case (Cons d ds)
  then obtain st where st: "seriesStep rows (ps, u, v) d = Inr st"
    and r: "foldE (seriesStep rows) st ds = Inr (ps', u', v')"
    by (auto simp: bindR_eq_Inr)
  have i: "in64 (fst (dayValue rows d))" "in64 (snd (dayValue rows d))" using Cons.prems(3) by auto
  note e = seriesStep_Inr [OF st Cons.prems(2) i]
  with r have "foldE (seriesStep rows)
      (ps @ [(d, dayValue rows d)], u + fst (dayValue rows d), v + snd (dayValue rows d)) ds = Inr (ps', u', v')"
    by simp
  moreover have "series_ok (ps @ [(d, dayValue rows d)], u + fst (dayValue rows d), v + snd (dayValue rows d))"
    using e by auto
  ultimately show ?case using Cons.IH Cons.prems(3) by (fastforce simp: algebra_simps)
qed

text \<open>Summing a table by day, over days that cover it, is summing its rows.\<close>

lemma sum_by_day:
  fixes f :: "TrafficBucket \<Rightarrow> int"
  assumes "distinct (map fst rows)" "\<forall>r \<in> set rows. a \<le> fst r \<and> fst r \<le> b"
  shows "(\<Sum>k \<leftarrow> [a..b]. case lastBy fst rows k of None \<Rightarrow> 0 | Some r \<Rightarrow> f r) = (\<Sum>r \<leftarrow> rows. f r)"
proof -
  let ?g = "\<lambda>k. case lastBy fst rows k of None \<Rightarrow> 0 | Some r \<Rightarrow> f r"
  have "(\<Sum>k \<leftarrow> [a..b]. ?g k) = (\<Sum>k \<in> {a..b}. ?g k)"
    by (simp add: sum_list_distinct_conv_sum_set)
  also have "\<dots> = (\<Sum>k \<in> fst ` set rows. ?g k)"
    by (rule sum.mono_neutral_right) (use assms(2) in \<open>auto simp: lastBy_None_iff [THEN iffD2]\<close>)
  also have "\<dots> = (\<Sum>r \<in> set rows. ?g (fst r))"
    using assms(1) by (subst sum.reindex) (auto simp: distinct_map)
  also have "\<dots> = (\<Sum>r \<in> set rows. f r)"
    using lastBy_distinct [OF assms(1)] by (intro sum.cong) auto
  also have "\<dots> = (\<Sum>r \<leftarrow> rows. f r)"
    using assms(1) by (simp add: sum_list_distinct_conv_sum_set distinct_map)
  finally show ?thesis .
qed

lemma checkBucket_loop:
  "foldE checkBucket out bs = Inr rows \<Longrightarrow>
   rows = out @ bs \<and> (\<forall>b \<in> set bs. ValidTrafficTotals (fst (snd b)) (snd (snd b)))"
proof (induction bs arbitrary: out)
  case Nil
  then show ?case by simp
next
  case (Cons b bs)
  then obtain o1 where "checkBucket out b = Inr o1" and r: "foldE checkBucket o1 bs = Inr rows"
    by (auto simp: bindR_eq_Inr)
  then have "o1 = out @ [b]" "ValidTrafficTotals (fst (snd b)) (snd (snd b))"
    by (auto simp: checkBucket_def split: prod.splits if_splits)
  with Cons.IH [OF r] show ?case by simp
qed

lemma rowsOf_valid:
  assumes "valid_buckets (traffic_daily d)"
  shows "valid_buckets (rowsOf sub P a b d)"
  using assms by (auto simp: valid_buckets_def rowsOf_def keys_ok_def distinct_map_filter)

definition dayRows :: "string \<Rightarrow> i64 \<Rightarrow> int \<Rightarrow> int \<Rightarrow> db \<Rightarrow> TrafficBucket list" where
  "dayRows sub sid a b d =
     sort_key fst (map (\<lambda>((k, _, _), up, down). (k, up, down)) (rowsOf sub (\<lambda>i. i = sid) a b d))"

lemma dayRows_facts:
  assumes "valid_buckets (traffic_daily d)"
  shows "distinct (map fst (dayRows sub sid a b d))"
    "\<forall>r \<in> set (dayRows sub sid a b d). a \<le> fst r \<and> fst r \<le> b \<and> in64 (fst (snd r)) \<and> in64 (snd (snd r))"
    "(\<Sum>r \<leftarrow> dayRows sub sid a b d. fst (snd r)) = (\<Sum>r \<leftarrow> rowsOf sub (\<lambda>i. i = sid) a b d. fst (snd r))"
    "(\<Sum>r \<leftarrow> dayRows sub sid a b d. snd (snd r)) = (\<Sum>r \<leftarrow> rowsOf sub (\<lambda>i. i = sid) a b d. snd (snd r))"
proof -
  let ?rows = "rowsOf sub (\<lambda>i. i = sid) a b d"
  let ?h = "\<lambda>((k, _, _), up, down). (k, up, down) :: TrafficBucket"
  have v: "valid_buckets ?rows" by (rule rowsOf_valid [OF assms])
  have key: "fst r = (fst (fst r), sub, sid)" if "r \<in> set ?rows" for r
    using that by (auto simp: rowsOf_def)
  have "inj_on (\<lambda>r. fst (fst r)) (set ?rows)"
    using v key by (intro inj_onI) (metis (no_types, lifting) distinct_map inj_onD keys_ok_def valid_buckets_def)
  moreover have "distinct ?rows" using v by (simp add: valid_buckets_def keys_ok_def distinct_map)
  ultimately have "distinct (map (\<lambda>r. fst (fst r)) ?rows)" by (simp add: distinct_map)
  moreover have "map fst (map ?h ?rows) = map (\<lambda>r. fst (fst r)) ?rows" by (simp add: case_prod_beta comp_def)
  ultimately have "distinct (map fst (map ?h ?rows))" by (simp only:)
  then show "distinct (map fst (dayRows sub sid a b d))" unfolding dayRows_def
    by (metis (no_types, lifting) distinct_map distinct_sort set_sort)
  have "a \<le> fst (fst r) \<and> fst (fst r) \<le> b \<and> in64 (fst (snd r)) \<and> in64 (snd (snd r))"
    if "r \<in> set ?rows" for r
    using that v valid_pair_in64 [of "snd r"] by (auto simp: rowsOf_def valid_buckets_def)
  then show "\<forall>r \<in> set (dayRows sub sid a b d). a \<le> fst r \<and> fst r \<le> b \<and> in64 (fst (snd r)) \<and> in64 (snd (snd r))"
    unfolding dayRows_def by fastforce
  have perm: "(\<Sum>r \<leftarrow> sort_key fst xs. g r) = (\<Sum>r \<leftarrow> xs. g r)" for g :: "TrafficBucket \<Rightarrow> int" and xs
    by (metis mset_map mset_sort sum_mset_sum_list)
  show "(\<Sum>r \<leftarrow> dayRows sub sid a b d. fst (snd r)) = (\<Sum>r \<leftarrow> ?rows. fst (snd r))"
    "(\<Sum>r \<leftarrow> dayRows sub sid a b d. snd (snd r)) = (\<Sum>r \<leftarrow> ?rows. snd (snd r))"
    unfolding dayRows_def perm by (simp_all add: comp_def case_prod_beta)
qed

lemma dailyRange_total:
  assumes r: "dailyRange sub sid (a * day_ns) now d = Inr se" and "sid \<noteq> 0"
    and v: "valid_buckets (traffic_daily d)"
    and s: "SumTraffic sub sid (a * day_ns) now d = Inr (up, down)"
  shows "sr_TotalUp se = up \<and> sr_TotalDown se = down \<and>
    map fst (sr_Points se) = map (\<lambda>k. k * day_ns) [a .. day_of now] \<and>
    (\<Sum>p \<leftarrow> sr_Points se. fst (snd p)) = up \<and> (\<Sum>p \<leftarrow> sr_Points se. snd (snd p)) = down"
proof -
  define rows where "rows = dayRows sub sid a (day_of now) d"
  note f = dayRows_facts [OF v, of sub sid a "day_of now", folded rows_def]
  obtain rs ps u w where "DailyTraffic sub sid (a * day_ns) now d = Inr rs"
    and loop: "foldE (seriesStep rs) ([], 0, 0) (daysFrom (a * day_ns) now) = Inr (ps, u, w)"
    and se: "sr_Points se = ps" "sr_TotalUp se = u" "sr_TotalDown se = w"
    using r assms(2) by (auto simp: dailyRange_def elim!: bindR_InrE)
  then have rs: "rs = rows"
    using checkBucket_loop by (fastforce simp: DailyTraffic_def rows_def dayRows_def)
  let ?days = "map (\<lambda>k. k * day_ns) [a .. day_of now]"
  have i: "in64 (fst (dayValue rows t)) \<and> in64 (snd (dayValue rows t))" for t
    using f(2) by (auto simp: dayValue_def in64_def split: option.splits dest!: lastBy_SomeD)
  have l: "ps = map (\<lambda>d. (d, dayValue rows d)) ?days" "u = (\<Sum>d \<leftarrow> ?days. fst (dayValue rows d))"
    "w = (\<Sum>d \<leftarrow> ?days. snd (dayValue rows d))"
    using series_loop [of ?days rows "[]" 0 0 ps u w] loop i
    by (simp_all add: rs daysFrom_days series_ok_def in64_def)
  have dv: "fst (dayValue rows (k * day_ns)) = (case lastBy fst rows k of None \<Rightarrow> 0 | Some r \<Rightarrow> fst (snd r))"
    "snd (dayValue rows (k * day_ns)) = (case lastBy fst rows k of None \<Rightarrow> 0 | Some r \<Rightarrow> snd (snd r))" for k
    by (simp_all add: dayValue_def split: option.splits)
  have cov: "\<forall>r \<in> set rows. a \<le> fst r \<and> fst r \<le> day_of now" using f(2) by blast
  have "sqlSum (map (fst \<circ> snd) (rowsOf sub (\<lambda>i. i = sid) a (day_of now) d)) = Inr up"
    "sqlSum (map (snd \<circ> snd) (rowsOf sub (\<lambda>i. i = sid) a (day_of now) d)) = Inr down"
    using s by (auto simp: SumTraffic_def sumRowsChecked_def sumRows_def bindR_eq_Inr split: if_splits)
  then have "up = (\<Sum>r \<leftarrow> rows. fst (snd r))" "down = (\<Sum>r \<leftarrow> rows. snd (snd r))"
    using f(3,4) by (auto dest!: sqlSum_eq simp: comp_def)
  moreover have "u = (\<Sum>r \<leftarrow> rows. fst (snd r))" "w = (\<Sum>r \<leftarrow> rows. snd (snd r))"
    using l(2,3) sum_by_day [OF f(1) cov, of "\<lambda>r. fst (snd r)"] sum_by_day [OF f(1) cov, of "\<lambda>r. snd (snd r)"]
    by (simp_all add: comp_def dv)
  ultimately show ?thesis using se l by (simp add: comp_def)
qed

end
