(* ===== verification/Publish.thy ===== *)
theory Publish
  imports Generations
begin

text \<open>
  Desired states as numbered revisions (\<^verbatim>\<open>internal/store/misc.go\<close>) and the network operations
  that wait for them (\<^verbatim>\<open>internal/store/network_operations.go\<close>, the candidate snapshots of
  \<^verbatim>\<open>node_applications.go\<close>): publication as a compare-and-set on the revision and the network
  generation read before building, the outbox of unpublished generations with its retries,
  and the exact receipts that complete an operation. A row of the table is a pair of its
  key (server, revision) and its columns; the surrogate \<^verbatim>\<open>id\<close> column is left out.
\<close>

section \<open>Revisions\<close>

type_synonym desired_rec = "(i64 \<times> i64) \<times> DesiredRow"

definition ErrDesiredConflict :: error where
  "ErrDesiredConflict = Err ''desired state changed while building''"

definition ErrNetworkMaintenance :: error where
  "ErrNetworkMaintenance = Err ''server is under maintenance''"

definition ErrNetworkRetryConflict :: error where
  "ErrNetworkRetryConflict = Err ''operation changed or cannot be retried''"

text \<open>\<^verbatim>\<open>SELECT ... WHERE server_id=? ORDER BY revision DESC\<close>\<close>

definition desiredRows :: "i64 \<Rightarrow> db \<Rightarrow> desired_rec list" where
  "desiredRows sid d = sort_key (\<lambda>((_, revision), _). - revision) (filter (\<lambda>((s, _), _). s = sid) (desired_states d))"

definition LatestDesiredState :: "i64 \<Rightarrow> db \<Rightarrow> desired_rec res" where
  "LatestDesiredState sid d = (case desiredRows sid d of [] \<Rightarrow> Inl ErrNotFound | r # _ \<Rightarrow> Inr r)"

definition ListDesiredStates :: "i64 \<Rightarrow> int \<Rightarrow> db \<Rightarrow> desired_rec list" where
  "ListDesiredStates sid limit d = take (nat (if limit \<le> 0 then 20 else limit)) (desiredRows sid d)"

definition latestRevision :: "i64 \<Rightarrow> db \<Rightarrow> i64" where
  "latestRevision sid d = (case desiredRows sid d of [] \<Rightarrow> 0 | ((_, revision), _) # _ \<Rightarrow> revision)"

text \<open>\<^verbatim>\<open>UPDATE desired_states SET status=? WHERE server_id=? AND status=?\<close>\<close>

definition stalePending :: "i64 \<Rightarrow> desired_rec \<Rightarrow> desired_rec" where
  "stalePending sid r =
     (case r of (k, row) \<Rightarrow>
        if fst k = sid \<and> dr_Status row = DesiredPending then (k, row\<lparr>dr_Status := DesiredStale\<rparr>) else (k, row))"

definition newRow :: "DesiredState \<Rightarrow> string \<Rightarrow> time \<Rightarrow> DesiredRow" where
  "newRow payload hash now = \<lparr>dr_Payload = payload, dr_Hash = hash, dr_Status = DesiredPending,
     dr_Error = '''', dr_CreatedAt = now, dr_AppliedAt = None\<rparr>"

definition insertRevision :: "i64 \<Rightarrow> i64 \<Rightarrow> DesiredRow \<Rightarrow> db \<Rightarrow> db" where
  "insertRevision sid revision row d =
     d\<lparr>desired_states := map (stalePending sid) (desired_states d) @ [((sid, revision), row)]\<rparr>"

definition CreateDesiredState :: "time \<Rightarrow> i64 \<Rightarrow> DesiredState \<Rightarrow> string \<Rightarrow> db \<Rightarrow> desired_rec \<times> db" where
  "CreateDesiredState now sid payload hash d =
     (let revision = latestRevision sid d + 1; row = newRow payload hash now
      in (((sid, revision), row), insertRevision sid revision row d))"

definition MarkDesiredState :: "time \<Rightarrow> i64 \<Rightarrow> i64 \<Rightarrow> DesiredStatus \<Rightarrow> string \<Rightarrow> db \<Rightarrow> db" where
  "MarkDesiredState now sid revision st errMsg d =
     d\<lparr>desired_states := map (\<lambda>(k, row).
         if k = (sid, revision)
         then (k, row\<lparr>dr_Status := st, dr_Error := errMsg,
                     dr_AppliedAt := (if st \<noteq> DesiredPending then Some now else None)\<rparr>)
         else (k, row)) (desired_states d)\<rparr>"

definition PruneDesiredStates :: "nat \<Rightarrow> db \<Rightarrow> db" where
  "PruneDesiredStates keep d =
     (let kept = filter (\<lambda>(k, _). k \<in> set (map fst (take keep (desiredRows (fst k) d)))) (desired_states d)
      in d\<lparr>desired_states := kept,
           node_application_candidates :=
             filter (\<lambda>((s, revision, _), _). (s, revision) \<in> set (map fst kept)) (node_application_candidates d)\<rparr>)"

section \<open>Candidates and operations of a publication\<close>

definition networkMaintenance :: "i64 \<Rightarrow> db \<Rightarrow> unit res" where
  "networkMaintenance sid d = (if sid \<in> set (maintenance_active d) then Inl ErrNetworkMaintenance else Inr ())"

definition applicationContext :: "Server \<Rightarrow> NodeSpec \<Rightarrow> NodeApplicationContext" where
  "applicationContext s spec =
     \<lparr>nc_PublicHost = sv_PublicHost s, nc_CoreMode = sv_CoreMode s, nc_IPv4Only = sv_IPv4Only s,
      nc_CertMode = (if np_Cert spec = None then '''' else sv_CertMode s)\<rparr>"

definition captureNode :: "i64 \<Rightarrow> i64 \<Rightarrow> Server \<Rightarrow> NodeSpec \<Rightarrow> db \<Rightarrow> db" where
  "captureNode sid revision sv spec d =
     (case find (\<lambda>n. nd_ID n = np_NodeID spec \<and> nd_ServerID n = Some sid \<and> nd_Source n = NodeDeployed) (nodes d) of
        None \<Rightarrow> d
      | Some n \<Rightarrow>
          d\<lparr>node_application_candidates :=
             insertNew (sid, revision, nd_ID n)
               \<lparr>na_Node = n, na_ServerParams = nd_ServerParams n, na_Context = applicationContext sv spec, na_Spec = spec\<rparr>
               (node_application_candidates d)\<rparr>)"

definition captureNodeCandidates :: "desired_rec \<Rightarrow> db \<Rightarrow> db res" where
  "captureNodeCandidates r d =
     (case r of ((sid, revision), row) \<Rightarrow>
        case lookup (servers d) sid of
          None \<Rightarrow> Inl ErrNoRows
        | Some sv \<Rightarrow> Inr (fold (captureNode sid revision sv) (ds_Nodes (dr_Payload row)) d))"

definition attachOperation :: "time \<Rightarrow> desired_rec \<Rightarrow> i64 \<Rightarrow> NetworkOperation \<Rightarrow> NetworkOperation" where
  "attachOperation now r generation op =
     (case r of ((sid, revision), row) \<Rightarrow>
        if no_ServerID op = sid \<and> no_Generation op = generation \<and>
           (no_Status op \<in> {''queued'', ''publish_failed''} \<or>
            no_Status op \<in> {''waiting_agent'', ''apply_failed''} \<and>
            (no_DesiredRevision op \<noteq> revision \<or> no_DesiredHash op \<noteq> dr_Hash row))
        then op\<lparr>no_Status := ''waiting_agent'', no_DesiredRevision := revision, no_DesiredHash := dr_Hash row,
                no_Republish := False, no_Message := ''published, waiting for the agent'', no_UpdatedAt := now\<rparr>
        else op)"

definition attachNetworkOperations :: "time \<Rightarrow> desired_rec \<Rightarrow> i64 \<Rightarrow> db \<Rightarrow> db" where
  "attachNetworkOperations now r generation d =
     (let sid = fst (fst r)
      in d\<lparr>server_network_generations := map (\<lambda>(s, g).
             (s, if s = sid \<and> ng_Generation g = generation then g\<lparr>ng_Published := generation\<rparr> else g))
               (server_network_generations d),
           network_operations := map (attachOperation now r generation) (network_operations d)\<rparr>)"

definition finishPublication :: "time \<Rightarrow> desired_rec \<Rightarrow> i64 \<Rightarrow> db \<Rightarrow> db res" where
  "finishPublication now r generation d =
     bindR (captureNodeCandidates r d) (\<lambda>d1. Inr (attachNetworkOperations now r generation d1))"

definition candidateGeneration :: "DesiredState \<Rightarrow> i64" where
  "candidateGeneration ds =
     (if ds_PublicationGeneration ds = 0 then ds_NetworkGeneration ds else ds_PublicationGeneration ds)"

definition wantsRepublish :: "i64 \<Rightarrow> i64 \<Rightarrow> db \<Rightarrow> bool" where
  "wantsRepublish sid generation d \<longleftrightarrow>
     list_ex (\<lambda>op. no_ServerID op = sid \<and> no_Generation op = generation \<and> no_Republish op \<and>
       no_Status op \<in> {''queued'', ''publish_failed''}) (network_operations d)"

definition publicationCurrent :: "i64 \<Rightarrow> db \<Rightarrow> bool" where
  "publicationCurrent sid d \<longleftrightarrow>
     (case lookup (server_network_generations d) sid of None \<Rightarrow> False | Some g \<Rightarrow> ng_Generation g = ng_Published g)"

text \<open>The checks of a publication, before anything is written.\<close>

definition publishGuard :: "i64 \<Rightarrow> DesiredState \<Rightarrow> db \<Rightarrow> unit res" where
  "publishGuard expected ds d =
     (let sid = ds_ServerID ds; generation = networkGeneration sid d
      in if generation \<noteq> candidateGeneration ds then Inl ErrDesiredConflict
         else bindR (if generation > 0 then networkMaintenance sid d else Inr ()) (\<lambda>_.
           if latestRevision sid d \<noteq> expected then Inl ErrDesiredConflict else Inr ()))"

definition unchanged :: "DesiredState \<Rightarrow> bool \<Rightarrow> db \<Rightarrow> desired_rec option" where
  "unchanged ds force d =
     (let sid = ds_ServerID ds
      in case desiredRows sid d of [] \<Rightarrow> None
         | r # _ \<Rightarrow>
           if snd (fst r) > 0 \<and> dr_Hash (snd r) = ds_Hash ds \<and>
              \<not> (force \<or> wantsRepublish sid (networkGeneration sid d) d) \<and> publicationCurrent sid d
           then Some r else None)"

definition publishTx :: "time \<Rightarrow> i64 \<Rightarrow> DesiredState \<Rightarrow> bool \<Rightarrow> db \<Rightarrow> ((desired_rec \<times> bool) \<times> db) res" where
  "publishTx now expected candidate force d =
     bindR (publishGuard expected candidate d) (\<lambda>_.
       let sid = ds_ServerID candidate; generation = networkGeneration sid d
       in case unchanged candidate force d of
            Some latest \<Rightarrow>
              bindR (finishPublication now latest generation d) (\<lambda>d1. Inr ((latest, False), d1))
          | None \<Rightarrow>
              let ds = candidate\<lparr>ds_Revision := expected + 1\<rparr>;
                  row = newRow ds (ds_Hash ds) now;
                  out = ((sid, expected + 1), row)
              in bindR (finishPublication now out generation (insertRevision sid (expected + 1) row d))
                   (\<lambda>d1. Inr ((out, True), d1)))"

definition PublishDesired :: "time \<Rightarrow> i64 \<Rightarrow> DesiredState \<Rightarrow> bool \<Rightarrow> db \<Rightarrow> (desired_rec \<times> bool) res \<times> db" where
  "PublishDesired now expected candidate force d = Tx d (publishTx now expected candidate force)"

section \<open>Receipts, retries and the outbox\<close>

definition forwardKinds :: "string list" where
  "forwardKinds = [''forward_create'', ''forward_update'', ''forward_delete'']"

definition recordOperation ::
  "time \<Rightarrow> i64 \<Rightarrow> i64 \<Rightarrow> string \<Rightarrow> string \<Rightarrow> db \<Rightarrow> NetworkOperation \<Rightarrow> NetworkOperation" where
  "recordOperation now serverID revision hash status d op =
     (if no_ServerID op = serverID \<and> no_DesiredRevision op = revision \<and> no_DesiredHash op = hash \<and>
         no_Status op \<in> {''waiting_agent'', ''apply_failed''} \<and>
         lookup (server_network_generations d) serverID \<noteq> None \<and>
         no_Generation op = networkGeneration serverID d \<and>
         (status \<noteq> ''applied'' \<or> no_Kind op \<notin> set forwardKinds)
      then op\<lparr>no_Status := (if status = ''failed'' then ''apply_failed'' else ''applied''),
              no_Message := (if status = ''failed'' then ''the agent failed to apply'' else ''the agent applied the configuration''),
              no_UpdatedAt := now\<rparr>
      else op)"

definition RecordNetworkApply :: "time \<Rightarrow> i64 \<Rightarrow> i64 \<Rightarrow> string \<Rightarrow> string \<Rightarrow> db \<Rightarrow> db" where
  "RecordNetworkApply now serverID revision hash status d =
     (if (status \<noteq> ''applied'' \<and> status \<noteq> ''failed'') \<or> length hash \<noteq> 64 then d
      else d\<lparr>network_operations := map (recordOperation now serverID revision hash status d) (network_operations d)\<rparr>)"

definition addAudit :: "time \<Rightarrow> AuditEvent \<Rightarrow> db \<Rightarrow> db" where
  "addAudit now e d =
     d\<lparr>audit_events := audit_events d @
        [e\<lparr>ae_TS := (if IsZero (ae_TS e) then now else ae_TS e), ae_Target := take 512 (ae_Target e),
           ae_Detail := (if length (ae_Detail e) > 4096 then ''{'' @ [CHR 0x22] @ ''truncated'' @ [CHR 0x22] @ '':true}''
                         else if ae_Detail e = '''' then ''{}'' else ae_Detail e)\<rparr>]\<rparr>"

definition retried :: "time \<Rightarrow> NetworkOperation \<Rightarrow> NetworkOperation" where
  "retried now op = op\<lparr>no_Status := ''queued'', no_Message := ''retry saved'',
     no_RetryRevision := no_RetryRevision op + 1, no_Attempts := 0, no_DesiredRevision := 0,
     no_DesiredHash := '''', no_Republish := True, no_NextAttemptAt := now, no_UpdatedAt := now\<rparr>"

definition reopened :: "time \<Rightarrow> NetworkGeneration \<Rightarrow> NetworkGeneration" where
  "reopened now g = g\<lparr>ng_Published := 0, ng_Attempts := 0, ng_Retry := ng_Retry g + 1, ng_NextAttempt := now\<rparr>"

definition retryTx :: "time \<Rightarrow> string \<Rightarrow> i64 \<Rightarrow> AuditEvent \<Rightarrow> string \<Rightarrow> db \<Rightarrow> (NetworkOperation \<times> db) res" where
  "retryTx now opID expected audit detail d =
     (case find (\<lambda>op. no_ID op = opID) (network_operations d) of
        None \<Rightarrow> Inl ErrNotFound
      | Some op \<Rightarrow>
        if no_RetryRevision op \<noteq> expected \<or>
           no_Status op \<notin> {''publish_failed'', ''apply_failed'', ''waiting_agent''} then Inl ErrNetworkRetryConflict
        else if networkGeneration (no_ServerID op) d \<noteq> no_Generation op then Inl ErrNetworkRetryConflict
        else if no_ServerID op \<in> set (maintenance_active d) then Inl ErrNetworkMaintenance
        else Inr (retried now op,
          addAudit now (audit\<lparr>ae_Action := ''network.operation.retry'', ae_Target := opID, ae_Detail := detail\<rparr>)
            (d\<lparr>server_network_generations := map (\<lambda>(s, g). (s, if s = no_ServerID op then reopened now g else g))
                 (server_network_generations d),
               network_operations := map (\<lambda>o'. if no_ID o' = opID then retried now op else o') (network_operations d)\<rparr>)))"

text \<open>
  \<open>valid\<close> is \<^verbatim>\<open>networkconfig.ValidIdentity\<close> of the operation's ID and \<open>detail\<close> the audit
  detail, a JSON text naming the operation and its new retry revision.
\<close>

definition RetryNetworkOperation ::
  "(string \<Rightarrow> bool) \<Rightarrow> time \<Rightarrow> string \<Rightarrow> i64 \<Rightarrow> AuditEvent \<Rightarrow> string \<Rightarrow> db \<Rightarrow> NetworkOperation res \<times> db" where
  "RetryNetworkOperation valid now opID expected audit detail d =
     (if \<not> valid opID \<or> expected < 0 \<or> expected \<ge> 9007199254740991 then (Inl ErrNetworkRetryConflict, d)
      else Tx d (retryTx now opID expected audit detail))"

definition MaxNetworkPublishAttempts :: int where "MaxNetworkPublishAttempts = 8"

type_synonym publication = "i64 \<times> NetworkGeneration"

definition PendingNetworkPublications :: "time \<Rightarrow> db \<Rightarrow> publication list" where
  "PendingNetworkPublications now d =
     take 64 (sort_key (\<lambda>(_, g). ng_NextAttempt g) (sort_key fst
       (filter (\<lambda>(s, g). ng_Generation g \<noteq> ng_Published g \<and> ng_Attempts g < MaxNetworkPublishAttempts \<and>
          ng_NextAttempt g \<le> now \<and> s \<notin> set (maintenance_active d)) (server_network_generations d))))"

definition retryDelay :: "int \<Rightarrow> int \<Rightarrow> int" where
  "retryDelay attempts jitter = second_ns * 2 ^ nat (min (attempts + 1) 5) + jitter * 1000000"

definition failOperation :: "time \<Rightarrow> time \<Rightarrow> publication \<Rightarrow> NetworkOperation \<Rightarrow> NetworkOperation" where
  "failOperation now next p op =
     (if no_ServerID op = fst p \<and> no_Generation op = ng_Generation (snd p) \<and>
         no_Status op \<in> {''queued'', ''publish_failed''}
      then op\<lparr>no_Status := ''publish_failed'', no_Attempts := ng_Attempts (snd p) + 1, no_NextAttemptAt := next,
              no_Message := (if ng_Attempts (snd p) + 1 \<ge> MaxNetworkPublishAttempts
                             then ''publication failed repeatedly'' else ''publication failed, will retry''),
              no_UpdatedAt := now\<rparr>
      else op)"

definition NetworkPublicationFailed :: "time \<Rightarrow> int \<Rightarrow> publication \<Rightarrow> db \<Rightarrow> db" where
  "NetworkPublicationFailed now jitter p d =
     (let next = now + retryDelay (ng_Attempts (snd p)) jitter
      in case lookup (server_network_generations d) (fst p) of None \<Rightarrow> d
         | Some g \<Rightarrow>
             if ng_Generation g = ng_Generation (snd p) \<and> ng_Published g \<noteq> ng_Generation g \<and>
                ng_Retry g = ng_Retry (snd p) \<and> ng_Attempts g = ng_Attempts (snd p)
             then d\<lparr>server_network_generations :=
                      upsert (fst p) (g\<lparr>ng_Attempts := ng_Attempts g + 1, ng_NextAttempt := next\<rparr>) (server_network_generations d),
                    network_operations := map (failOperation now next p) (network_operations d)\<rparr>
             else d)"

lemma addAudit_frame [simp]:
  "network_operations (addAudit now e d) = network_operations d"
  "server_network_generations (addAudit now e d) = server_network_generations d"
  by (simp_all add: addAudit_def)

lemma Retry_cases:
  assumes "RetryNetworkOperation valid now opID expected audit detail d = (r, d')"
  obtains (error) e where "r = Inl e" "d' = d"
  | (retried) op where "find (\<lambda>o'. no_ID o' = opID) (network_operations d) = Some op"
      "no_RetryRevision op = expected" "no_Status op \<in> {''publish_failed'', ''apply_failed'', ''waiting_agent''}"
      "networkGeneration (no_ServerID op) d = no_Generation op" "r = Inr (retried now op)"
      "network_operations d' = map (\<lambda>o'. if no_ID o' = opID then retried now op else o') (network_operations d)"
      "server_network_generations d' =
         map (\<lambda>(s, g). (s, if s = no_ServerID op then reopened now g else g)) (server_network_generations d)"
proof (cases "\<not> valid opID \<or> expected < 0 \<or> expected \<ge> 9007199254740991")
  case True
  then show ?thesis using assms error by (auto simp: RetryNetworkOperation_def)
next
  case False
  then have t: "Tx d (retryTx now opID expected audit detail) = (r, d')"
    using assms by (simp add: RetryNetworkOperation_def)
  show ?thesis
  proof (cases rule: Tx_cases [of "retryTx now opID expected audit detail" d])
    case 1
    then show ?thesis using t error by auto
  next
    case (2 x e)
    then have "r = Inr x" "d' = e" using t by auto
    then show ?thesis
      using 2(1) retried [of "THE op. find (\<lambda>o'. no_ID o' = opID) (network_operations d) = Some op"]
      by (auto simp: retryTx_def split: option.splits if_splits)
  qed
qed

section \<open>Revisions grow by one\<close>

lemma lookup_map: "lookup (map (\<lambda>(k, x). (k, f k x)) t) i = map_option (f i) (lookup t i)"
  by (induction t) auto


lemma set_desiredRows: "set (desiredRows sid d) = {r \<in> set (desired_states d). fst (fst r) = sid}"
  by (auto simp: desiredRows_def)

lemma desiredRows_hd:
  assumes "desiredRows sid d = r # rs"
  shows "r \<in> set (desired_states d) \<and> fst (fst r) = sid \<and> latestRevision sid d = snd (fst r)"
proof -
  have "r \<in> set (desiredRows sid d)" using assms by simp
  then have "r \<in> set (desired_states d) \<and> fst (fst r) = sid" unfolding set_desiredRows by simp
  then show ?thesis using assms by (simp add: latestRevision_def split: prod.splits)
qed

lemma latestRevision_ge:
  assumes "((sid, v), row) \<in> set (desired_states d)"
  shows "v \<le> latestRevision sid d"
proof -
  let ?key = "\<lambda>((_, revision), _). - revision"
  have m: "((sid, v), row) \<in> set (desiredRows sid d)" using assms by (simp add: set_desiredRows)
  then obtain r rs where r: "desiredRows sid d = r # rs" by (cases "desiredRows sid d") auto
  have "sorted (map ?key (desiredRows sid d))"
    unfolding desiredRows_def by (rule sorted_sort_key)
  with m r have "?key r \<le> ?key ((sid, v), row)" by auto
  then show ?thesis using desiredRows_hd [OF r] by (auto split: prod.splits)
qed

lemma latestRevision_None: "latestRevision sid d = 0" if "desiredRows sid d = []"
  using that by (simp add: latestRevision_def)

lemma latestRevision_eqI:
  assumes "((sid, v), row) \<in> set (desired_states d)"
    and "\<And>w row'. ((sid, w), row') \<in> set (desired_states d) \<Longrightarrow> w \<le> v"
  shows "latestRevision sid d = v"
proof -
  have "((sid, v), row) \<in> set (desiredRows sid d)" using assms(1) by (simp add: set_desiredRows)
  then obtain r rs where r: "desiredRows sid d = r # rs" by (cases "desiredRows sid d") auto
  note h = desiredRows_hd [OF r]
  obtain w row' where "r = ((sid, w), row')" using h by (cases r) auto
  with h assms(2) have "latestRevision sid d \<le> v" by auto
  with latestRevision_ge [OF assms(1)] show ?thesis by simp
qed

lemma fst_stalePending [simp]: "fst (stalePending sid r) = fst r"
  by (simp add: stalePending_def split: prod.splits)

lemma keys_stalePending [simp]: "map fst (map (stalePending sid) t) = map fst t"
  by simp

lemma latestRevision_insert:
  assumes "v = latestRevision sid d + 1"
  shows "latestRevision sid (insertRevision sid v row d) = v"
proof (rule latestRevision_eqI)
  show "((sid, v), row) \<in> set (desired_states (insertRevision sid v row d))"
    by (simp add: insertRevision_def)
next
  fix w row' assume "((sid, w), row') \<in> set (desired_states (insertRevision sid v row d))"
  then consider "w = v" | r where "r \<in> set (desired_states d)" "((sid, w), row') = stalePending sid r"
    by (auto simp: insertRevision_def)
  then show "w \<le> v"
  proof cases
    case 2
    then have "fst r = (sid, w)" by (metis fst_conv fst_stalePending)
    with 2 have "((sid, w), snd r) \<in> set (desired_states d)" by (metis prod.collapse)
    from latestRevision_ge [OF this] assms show ?thesis by simp
  qed simp
qed

text \<open>The desired-state table after the candidates and operations have been recorded.\<close>

lemma captureNode_desired [simp]:
  "desired_states (captureNode sid v sv spec d) = desired_states d"
  "server_network_generations (captureNode sid v sv spec d) = server_network_generations d"
  "network_operations (captureNode sid v sv spec d) = network_operations d"
  "nodes (captureNode sid v sv spec d) = nodes d"
  "servers (captureNode sid v sv spec d) = servers d"
  "maintenance_active (captureNode sid v sv spec d) = maintenance_active d"
  by (simp_all add: captureNode_def split: option.splits)

lemma captureNodes_frame:
  "desired_states (fold (captureNode sid v sv) specs d) = desired_states d"
  "server_network_generations (fold (captureNode sid v sv) specs d) = server_network_generations d"
  "network_operations (fold (captureNode sid v sv) specs d) = network_operations d"
  "nodes (fold (captureNode sid v sv) specs d) = nodes d"
  "servers (fold (captureNode sid v sv) specs d) = servers d"
  "maintenance_active (fold (captureNode sid v sv) specs d) = maintenance_active d"
  by (induction specs arbitrary: d) auto

lemma finishPublication_E:
  assumes "finishPublication now r generation d = Inr d'"
  obtains sv where "lookup (servers d) (fst (fst r)) = Some sv"
    "d' = attachNetworkOperations now r generation
            (fold (captureNode (fst (fst r)) (snd (fst r)) sv) (ds_Nodes (dr_Payload (snd r))) d)"
  using assms by (auto simp: finishPublication_def captureNodeCandidates_def bindR_eq_Inr split: prod.splits option.splits)

lemma attach_frame [simp]:
  "desired_states (attachNetworkOperations now r g d) = desired_states d"
  "node_application_candidates (attachNetworkOperations now r g d) = node_application_candidates d"
  "nodes (attachNetworkOperations now r g d) = nodes d"
  "servers (attachNetworkOperations now r g d) = servers d"
  "maintenance_active (attachNetworkOperations now r g d) = maintenance_active d"
  "network_operations (attachNetworkOperations now r g d) = map (attachOperation now r g) (network_operations d)"
  by (simp_all add: attachNetworkOperations_def Let_def)

lemma finishPublication_desired:
  "finishPublication now r generation d = Inr d' \<Longrightarrow> desired_states d' = desired_states d"
  by (erule finishPublication_E) (simp add: captureNodes_frame)

lemma latestRevision_cong: "desired_states d' = desired_states d \<Longrightarrow> latestRevision sid d' = latestRevision sid d"
  by (simp add: latestRevision_def desiredRows_def)

section \<open>Publication is a compare-and-set\<close>

lemma publishGuard_ok:
  "publishGuard expected ds d = Inr () \<longleftrightarrow>
     networkGeneration (ds_ServerID ds) d = candidateGeneration ds \<and>
     (networkGeneration (ds_ServerID ds) d > 0 \<longrightarrow> ds_ServerID ds \<notin> set (maintenance_active d)) \<and>
     latestRevision (ds_ServerID ds) d = expected"
  by (auto simp: publishGuard_def networkMaintenance_def Let_def)

lemma PublishDesired_cases:
  obtains (error) e where "PublishDesired now expected c force d = (Inl e, d)"
  | (same) r d' where "PublishDesired now expected c force d = (Inr (r, False), d')"
      "publishGuard expected c d = Inr ()" "unchanged c force d = Some r"
      "finishPublication now r (networkGeneration (ds_ServerID c) d) d = Inr d'"
  | (created) row d' where
      "PublishDesired now expected c force d = (Inr (((ds_ServerID c, expected + 1), row), True), d')"
      "publishGuard expected c d = Inr ()" "unchanged c force d = None"
      "row = newRow (c\<lparr>ds_Revision := expected + 1\<rparr>) (ds_Hash c) now"
      "finishPublication now ((ds_ServerID c, expected + 1), row) (networkGeneration (ds_ServerID c) d)
         (insertRevision (ds_ServerID c) (expected + 1) row d) = Inr d'"
proof -
  let ?sid = "ds_ServerID c"
  let ?row = "newRow (c\<lparr>ds_Revision := expected + 1\<rparr>) (ds_Hash c) now"
  show ?thesis
  proof (cases "publishTx now expected c force d")
    case (Inl e)
    then show ?thesis using error by (simp add: PublishDesired_def Tx_def)
  next
    case (Inr p)
    obtain x b d' where p: "p = ((x, b), d')" by (metis prod.collapse)
    have P: "PublishDesired now expected c force d = (Inr (x, b), d')" using Inr p by (simp add: PublishDesired_def Tx_def)
    have g: "publishGuard expected c d = Inr ()" using Inr by (auto simp: publishTx_def bindR_eq_Inr)
    show ?thesis
    proof (cases "unchanged c force d")
      case (Some r)
      then show ?thesis using Inr p P g same by (auto simp: publishTx_def Let_def bindR_eq_Inr)
    next
      case None
      then have "x = ((?sid, expected + 1), ?row)" "b"
        "finishPublication now ((?sid, expected + 1), ?row) (networkGeneration ?sid d)
           (insertRevision ?sid (expected + 1) ?row d) = Inr d'"
        using Inr p g by (auto simp: publishTx_def Let_def bindR_eq_Inr)
      then show ?thesis using created P g None by simp
    qed
  qed
qed

lemma PublishDesired_created:
  assumes "PublishDesired now expected c force d = (Inr (r, True), d')"
  shows "publishGuard expected c d = Inr ()" "r = ((ds_ServerID c, expected + 1), newRow (c\<lparr>ds_Revision := expected + 1\<rparr>) (ds_Hash c) now)"
    "desired_states d' = map (stalePending (ds_ServerID c)) (desired_states d) @ [r]"
    "latestRevision (ds_ServerID c) d' = expected + 1"
proof -
  have *: "publishGuard expected c d = Inr () \<and>
      r = ((ds_ServerID c, expected + 1), newRow (c\<lparr>ds_Revision := expected + 1\<rparr>) (ds_Hash c) now) \<and>
      desired_states d' = map (stalePending (ds_ServerID c)) (desired_states d) @ [r] \<and>
      latestRevision (ds_ServerID c) d' = expected + 1"
  proof (cases rule: PublishDesired_cases [of now expected c force d])
    case (created row d1)
    then have d: "d1 = d'" "r = ((ds_ServerID c, expected + 1), row)" using assms by simp_all
    note ds = finishPublication_desired [OF created(5)]
    have "latestRevision (ds_ServerID c) d1 = expected + 1"
      using latestRevision_cong [OF ds, of "ds_ServerID c"] created(2)
        latestRevision_insert [of "expected + 1" "ds_ServerID c" d row] by (simp add: publishGuard_ok)
    with created d ds show ?thesis by (simp add: insertRevision_def)
  qed (use assms in simp_all)
  from * show "publishGuard expected c d = Inr ()" by simp
  from * show "r = ((ds_ServerID c, expected + 1), newRow (c\<lparr>ds_Revision := expected + 1\<rparr>) (ds_Hash c) now)" by simp
  from * show "desired_states d' = map (stalePending (ds_ServerID c)) (desired_states d) @ [r]" by simp
  from * show "latestRevision (ds_ServerID c) d' = expected + 1" by simp
qed

text \<open>Publication as a versioned register of one server; the value is the candidate.\<close>

definition publishCas :: "i64 \<Rightarrow> int \<Rightarrow> time \<times> DesiredState \<times> bool \<Rightarrow> db \<Rightarrow> db option" where
  "publishCas sid expected v d =
     (case v of (now, c, force) \<Rightarrow>
        if ds_ServerID c \<noteq> sid then None
        else case PublishDesired now expected c force d of (Inr (r, True), d') \<Rightarrow> Some d' | _ \<Rightarrow> None)"

lemma publishCas_Some:
  assumes "publishCas sid expected v d = Some d'"
  obtains now c force r where "v = (now, c, force)" "ds_ServerID c = sid"
    "PublishDesired now expected c force d = (Inr (r, True), d')"
  using assms by (auto simp: publishCas_def split: prod.splits if_splits sum.splits bool.splits)

interpretation desired: cas_register "latestRevision sid" "publishCas sid"
proof
  fix e v s s'
  assume c: "publishCas sid e v s = Some s'"
  show "latestRevision sid s = e"
    using c by (rule publishCas_Some) (auto dest: PublishDesired_created(1) simp: publishGuard_ok)
  show "latestRevision sid s' = e + 1"
    using c by (rule publishCas_Some) (auto dest: PublishDesired_created(4))
qed

text \<open>After a publication the new revision is the only pending one of its server.\<close>

definition pendingOf :: "i64 \<Rightarrow> db \<Rightarrow> i64 list" where
  "pendingOf sid d = map (\<lambda>(k, _). snd k)
     (filter (\<lambda>(k, row). fst k = sid \<and> dr_Status row = DesiredPending) (desired_states d))"

lemma pendingOf_created:
  assumes "PublishDesired now expected c force d = (Inr (r, True), d')"
  shows "pendingOf (ds_ServerID c) d' = [expected + 1]"
    and "sid \<noteq> ds_ServerID c \<Longrightarrow> pendingOf sid d' = pendingOf sid d"
proof -
  note p = PublishDesired_created [OF assms]
  have 1: "filter (\<lambda>(k, row). fst k = ds_ServerID c \<and> dr_Status row = DesiredPending)
      (map (stalePending (ds_ServerID c)) t) = []" for t
    by (induction t) (auto simp: stalePending_def split: prod.splits if_splits)
  show "pendingOf (ds_ServerID c) d' = [expected + 1]"
    unfolding pendingOf_def p(3) filter_append 1 by (simp add: p(2) newRow_def)
  assume n: "sid \<noteq> ds_ServerID c"
  have 2: "map (\<lambda>(k, _). snd k) (filter (\<lambda>(k, row). fst k = sid \<and> dr_Status row = DesiredPending)
      (map (stalePending (ds_ServerID c)) t)) =
    map (\<lambda>(k, _). snd k) (filter (\<lambda>(k, row). fst k = sid \<and> dr_Status row = DesiredPending) t)" for t
    using n by (induction t) (auto simp: stalePending_def split: prod.splits if_splits)
  show "pendingOf sid d' = pendingOf sid d"
    unfolding pendingOf_def p(3) filter_append map_append 2 using n by (simp add: p(2))
qed

section \<open>Publishing what is already published changes nothing\<close>

lemma insertNew_again: "lookup t k \<noteq> None \<Longrightarrow> insertNew k v t = t"
  by (auto simp: insertNew_def)

lemma lookup_insertNew_mono: "lookup t k \<noteq> None \<Longrightarrow> lookup (insertNew k' v t) k \<noteq> None"
  by (simp add: lookup_insertNew)

definition captured :: "i64 \<Rightarrow> i64 \<Rightarrow> db \<Rightarrow> NodeSpec \<Rightarrow> bool" where
  "captured sid v d spec \<longleftrightarrow>
     (\<forall>n. find (\<lambda>n. nd_ID n = np_NodeID spec \<and> nd_ServerID n = Some sid \<and> nd_Source n = NodeDeployed) (nodes d) = Some n
        \<longrightarrow> lookup (node_application_candidates d) (sid, v, nd_ID n) \<noteq> None)"

lemma captureNode_captured: "captured sid v (captureNode sid v sv spec d) spec"
  by (auto simp: captured_def captureNode_def lookup_insertNew split: option.splits)

lemma captureNode_mono: "captured sid v d spec \<Longrightarrow> captured sid v (captureNode sid v sv spec' d) spec"
  unfolding captured_def captureNode_desired
  by (auto simp: captureNode_def lookup_insertNew split: option.splits)

lemma captureNode_id: "captured sid v d spec \<Longrightarrow> captureNode sid v sv spec d = d"
  by (auto simp: captureNode_def captured_def insertNew_again split: option.splits)

lemma capture_all:
  "\<forall>spec \<in> set specs. captured sid v (fold (captureNode sid v sv) specs d) spec"
proof (induction specs rule: rev_induct)
  case Nil
  then show ?case by simp
next
  case (snoc s ss)
  then show ?case by (auto intro: captureNode_captured captureNode_mono)
qed

lemma capture_again: "\<forall>spec \<in> set specs. captured sid v d spec \<Longrightarrow> fold (captureNode sid v sv) specs d = d"
  by (induction specs) (auto simp: captureNode_id)

lemma attachOperation_idem [simp]:
  "attachOperation now' r g (attachOperation now r g op) = attachOperation now r g op"
  by (auto simp: attachOperation_def split: prod.splits)

lemma attach_again:
  "attachNetworkOperations now' r g (attachNetworkOperations now r g d) = attachNetworkOperations now r g d"
  by (auto simp: attachNetworkOperations_def Let_def comp_def split: prod.splits intro!: arg_cong2 [where f = map])

lemma lookup_attach:
  "lookup (server_network_generations (attachNetworkOperations now r g d)) i =
     map_option (\<lambda>x. if i = fst (fst r) \<and> ng_Generation x = g then x\<lparr>ng_Published := g\<rparr> else x)
       (lookup (server_network_generations d) i)"
  by (simp add: attachNetworkOperations_def Let_def lookup_map)

lemma networkGeneration_attach [simp]:
  "networkGeneration sid (attachNetworkOperations now r g d) = networkGeneration sid d"
  by (simp add: networkGeneration_def lookup_attach split: option.splits)

lemma networkGeneration_cong:
  "server_network_generations d' = server_network_generations d \<Longrightarrow> networkGeneration sid d' = networkGeneration sid d"
  by (simp add: networkGeneration_def)

lemma finishPublication_generation:
  assumes "finishPublication now r (networkGeneration (fst (fst r)) d) d = Inr d'"
  shows "networkGeneration sid d' = networkGeneration sid d"
    "lookup (server_network_generations d) (fst (fst r)) \<noteq> None \<Longrightarrow> publicationCurrent (fst (fst r)) d'"
proof -
  let ?g = "networkGeneration (fst (fst r)) d"
  obtain e where d': "d' = attachNetworkOperations now r ?g e"
    and e: "server_network_generations e = server_network_generations d"
    using assms by (rule finishPublication_E) (use captureNodes_frame(2) in blast)
  show "networkGeneration sid d' = networkGeneration sid d"
    using networkGeneration_cong [OF e, of sid] d' by simp
  assume "lookup (server_network_generations d) (fst (fst r)) \<noteq> None"
  then show "publicationCurrent (fst (fst r)) d'"
    using e d' by (auto simp: publicationCurrent_def lookup_attach networkGeneration_def)
qed

lemma finishPublication_again:
  assumes "finishPublication now r g d = Inr d'"
  shows "finishPublication now' r g d' = Inr d'"
  using assms
proof (rule finishPublication_E)
  fix sv
  let ?sid = "fst (fst r)" and ?v = "snd (fst r)" and ?specs = "ds_Nodes (dr_Payload (snd r))"
  let ?e = "fold (captureNode (fst (fst r)) (snd (fst r)) sv) (ds_Nodes (dr_Payload (snd r))) d"
  assume sv: "lookup (servers d) ?sid = Some sv" and d': "d' = attachNetworkOperations now r g ?e"
  have "lookup (servers d') ?sid = Some sv" using sv d' by (simp add: captureNodes_frame)
  moreover have "\<forall>spec \<in> set ?specs. captured ?sid ?v d' spec"
    using capture_all [of ?specs ?sid ?v sv d] unfolding d' captured_def attach_frame by blast
  then have "fold (captureNode ?sid ?v sv) ?specs d' = d'" by (rule capture_again)
  moreover have "attachNetworkOperations now' r g d' = d'" unfolding d' by (rule attach_again)
  ultimately show ?thesis
    by (cases r) (auto simp: finishPublication_def captureNodeCandidates_def)
qed

lemma hd_desiredRows_created:
  assumes "PublishDesired now expected c force d = (Inr (r, True), d')"
  obtains rs where "desiredRows (ds_ServerID c) d' = r # rs"
proof -
  let ?sid = "ds_ServerID c"
  note p = PublishDesired_created [OF assms]
  have "r \<in> set (desiredRows ?sid d')" using p(2,3) by (simp add: set_desiredRows)
  then obtain q rs where q: "desiredRows ?sid d' = q # rs" by (cases "desiredRows ?sid d'") auto
  note h = desiredRows_hd [OF q]
  have "q = r"
  proof (rule ccontr)
    assume "q \<noteq> r"
    then obtain q0 where "q0 \<in> set (desired_states d)" "q = stalePending ?sid q0" using h p(3) by auto
    then have "fst q \<in> fst ` set (desired_states d)" by force
    moreover have "fst q = (?sid, expected + 1)" using h p(4) by (metis prod.collapse)
    ultimately obtain row where "((?sid, expected + 1), row) \<in> set (desired_states d)" by auto
    from latestRevision_ge [OF this] p(1) show False by (simp add: publishGuard_ok)
  qed
  with q that show ?thesis by blast
qed

text \<open>An operation that asked to be republished no longer does once it is attached.\<close>

lemma no_republish_attached: "\<not> wantsRepublish (fst (fst r)) g (attachNetworkOperations now r g d)"
  by (auto simp: wantsRepublish_def list_ex_iff attachOperation_def split: prod.splits if_splits)

lemma finishPublication_no_republish:
  "finishPublication now r g d = Inr d' \<Longrightarrow> \<not> wantsRepublish (fst (fst r)) g d'"
  by (erule finishPublication_E) (simp add: no_republish_attached)

lemma finishPublication_maintenance:
  "finishPublication now r g d = Inr d' \<Longrightarrow> maintenance_active d' = maintenance_active d"
  by (erule finishPublication_E) (simp add: captureNodes_frame)

lemma PublishDesired_idem:
  assumes p: "PublishDesired now expected c force d = (Inr (r, True), d')"
    and row: "lookup (server_network_generations d) (ds_ServerID c) \<noteq> None" and "0 \<le> expected"
  shows "PublishDesired now' (expected + 1) c False d' = (Inr (r, False), d')"
proof -
  let ?sid = "ds_ServerID c"
  note q = PublishDesired_created [OF p]
  obtain rs where rs: "desiredRows ?sid d' = r # rs" by (rule hd_desiredRows_created [OF p])
  let ?d1 = "insertRevision ?sid (expected + 1) (snd r) d"
  have fin: "finishPublication now r (networkGeneration ?sid d) ?d1 = Inr d'"
    by (rule PublishDesired_cases [of now expected c force d]) (use p q(2) in auto)
  have g1: "networkGeneration ?sid ?d1 = networkGeneration ?sid d" "fst (fst r) = ?sid"
    using q(2) by (simp_all add: insertRevision_def networkGeneration_def)
  have fin': "finishPublication now r (networkGeneration (fst (fst r)) ?d1) ?d1 = Inr d'" using fin g1 by simp
  note g = finishPublication_generation [OF fin', unfolded g1]
  have "lookup (server_network_generations ?d1) ?sid \<noteq> None" using row by (simp add: insertRevision_def)
  then have cur: "publicationCurrent ?sid d'" by (rule g(2))
  have gen: "networkGeneration ?sid d' = networkGeneration ?sid d" using g(1) [of ?sid] g1(1) by simp
  have "maintenance_active d' = maintenance_active d"
    using finishPublication_maintenance [OF fin] by (simp add: insertRevision_def)
  then have guard: "publishGuard (expected + 1) c d' = Inr ()" using q(1,4) gen by (simp add: publishGuard_ok)
  have "unchanged c False d' = Some r"
    using rs cur gen finishPublication_no_republish [OF fin] assms(3) q(2)
    by (simp add: unchanged_def Let_def g1(2) newRow_def)
  moreover have "finishPublication now' r (networkGeneration ?sid d') d' = Inr d'"
    unfolding gen by (rule finishPublication_again [OF fin])
  ultimately show ?thesis using guard by (simp add: PublishDesired_def publishTx_def Tx_def Let_def)
qed

end
