(* ===== verification/Operations.thy ===== *)
theory Operations
  imports Publish Receipts
begin

text \<open>
  The life of a network operation: the status machine of \<^verbatim>\<open>network_operations\<close> as the database
  operations drive it. \<open>net_step\<close> is one committed change of the database, by any of the
  operations modelled here that touch generations, revisions or operations; the theorems
  speak of everything reachable by such steps, in any order.
\<close>

section \<open>Statuses\<close>

definition op_moves :: "string \<Rightarrow> string list" where
  "op_moves st =
     (if st = ''queued'' then [''waiting_agent'', ''publish_failed'', ''superseded'']
      else if st = ''publish_failed'' then [''waiting_agent'', ''publish_failed'', ''superseded'', ''queued'']
      else if st = ''waiting_agent'' \<or> st = ''apply_failed''
      then [''waiting_agent'', ''applied'', ''apply_failed'', ''superseded'', ''queued'']
      else [])"

definition same_op :: "NetworkOperation \<Rightarrow> NetworkOperation \<Rightarrow> bool" where
  "same_op a b \<longleftrightarrow> no_ID b = no_ID a \<and> no_ServerID b = no_ServerID a \<and> no_Kind b = no_Kind a \<and>
     no_ResourceID b = no_ResourceID a \<and> no_ResourceRevision b = no_ResourceRevision a \<and>
     no_Generation b = no_Generation a \<and> no_RequestHash b = no_RequestHash a \<and> no_CreatedAt b = no_CreatedAt a"

inductive op_step :: "NetworkOperation \<Rightarrow> NetworkOperation \<Rightarrow> bool" where
  op_move: "same_op a b \<Longrightarrow> no_Status b \<in> set (op_moves (no_Status a)) \<Longrightarrow> op_step a b"

definition live :: "NetworkOperation \<Rightarrow> bool" where
  "live op \<longleftrightarrow> no_Status op \<notin> {''saved'', ''applied'', ''superseded''}"

lemma op_moves_final: "no_Status op \<in> {''saved'', ''applied'', ''superseded''} \<Longrightarrow> op_moves (no_Status op) = []"
  by (auto simp: op_moves_def)

inductive_cases op_stepE: "op_step a b"

lemma final_stuck: "op_step\<^sup>*\<^sup>* a b \<Longrightarrow> \<not> live a \<Longrightarrow> b = a"
  by (erule converse_rtranclpE) (auto elim!: op_stepE simp: live_def op_moves_def)

lemma op_steps_same: "op_step\<^sup>*\<^sup>* a b \<Longrightarrow> same_op a b"
  by (induction rule: rtranclp_induct) (auto elim!: op_stepE simp: same_op_def)

section \<open>Steps of the database\<close>

definition insertOperation :: "NetworkOperation \<Rightarrow> db \<Rightarrow> db" where
  "insertOperation op d = d\<lparr>network_operations := network_operations d @ [op]\<rparr>"

text \<open>
  A request stores its operation as queued for the generation its own edit has just
  produced, under an ID not used before.
\<close>

definition fresh_request :: "NetworkOperation \<Rightarrow> db \<Rightarrow> bool" where
  "fresh_request op d \<longleftrightarrow> no_Status op = ''queued'' \<and> no_ID op \<notin> no_ID ` set (network_operations d) \<and>
     map_option ng_Generation (lookup (server_network_generations d) (no_ServerID op)) = Some (no_Generation op)"

inductive net_step :: "db \<Rightarrow> db \<Rightarrow> bool" where
  net_publish: "PublishDesired now expected c force d = (r, d') \<Longrightarrow> net_step d d'"
| net_apply: "net_step d (RecordNetworkApply now sid revision hash status d)"
| net_retry: "RetryNetworkOperation valid now opID expected audit detail d = (r, d') \<Longrightarrow> net_step d d'"
| net_failed: "net_step d (NetworkPublicationFailed now jitter p d)"
| net_request: "fresh_request op d \<Longrightarrow> net_step d (insertOperation op d)"
| net_share: "net_step d (writeShare now v d)"
| net_usage: "net_step d (writeUsage now v d)"
| net_server: "net_step d (writeServer now sv d)"
| net_receipt: "CommitForwardReceipt E sid r applied now d = Inr d' \<Longrightarrow> net_step d d'"

section \<open>What holds of the table\<close>

definition op_valid :: "NetworkOperation \<Rightarrow> bool" where
  "op_valid op \<longleftrightarrow> no_Status op \<in> {''saved'', ''queued'', ''publish_failed'', ''waiting_agent'', ''apply_failed'',
     ''applied'', ''superseded''}"

definition gen_ok :: "NetworkGeneration \<Rightarrow> bool" where
  "gen_ok g \<longleftrightarrow> 0 \<le> ng_Published g \<and> ng_Published g \<le> ng_Generation g \<and> 1 \<le> ng_Generation g"

definition current_op :: "(i64 \<times> NetworkGeneration) list \<Rightarrow> NetworkOperation \<Rightarrow> bool" where
  "current_op gens op \<longleftrightarrow> op_valid op \<and>
     (live op \<longrightarrow> map_option ng_Generation (lookup gens (no_ServerID op)) = Some (no_Generation op))"

definition net_ok :: "db \<Rightarrow> bool" where
  "net_ok d \<longleftrightarrow> distinct (map no_ID (network_operations d)) \<and> keys_ok (server_network_generations d) \<and>
     (\<forall>s g. lookup (server_network_generations d) s = Some g \<longrightarrow> gen_ok g) \<and>
     (\<forall>op \<in> set (network_operations d). current_op (server_network_generations d) op)"

text \<open>Every operation of \<open>d\<close> is found again in \<open>d'\<close>, further along its machine.\<close>

definition evolves :: "db \<Rightarrow> db \<Rightarrow> bool" where
  "evolves d d' \<longleftrightarrow> (\<forall>op \<in> set (network_operations d). \<exists>op' \<in> set (network_operations d'). op_step\<^sup>*\<^sup>* op op')"

lemma evolves_refl [simp]: "evolves d d"
  by (auto simp: evolves_def)

lemma evolves_trans: "evolves a b \<Longrightarrow> evolves b c \<Longrightarrow> evolves a c"
  unfolding evolves_def by (meson rtranclp_trans)

text \<open>
  The common case: a step maps one function over the operations and another over the
  generations, and moves only operations that are allowed to.
\<close>

lemma map_step:
  assumes ok: "net_ok d"
    and ops: "network_operations d' = map f (network_operations d)"
    and gens: "keys_ok (server_network_generations d')"
      "\<And>s. lookup (server_network_generations d') s = map_option (h s) (lookup (server_network_generations d) s)"
      "\<And>s g. lookup (server_network_generations d) s = Some g \<Longrightarrow> gen_ok g \<Longrightarrow> gen_ok (h s g)"
    and move: "\<And>op. op \<in> set (network_operations d) \<Longrightarrow> op_valid op \<Longrightarrow> f op = op \<or> op_step op (f op)"
    and cur: "\<And>op g. op \<in> set (network_operations d) \<Longrightarrow> live (f op) \<Longrightarrow>
        lookup (server_network_generations d) (no_ServerID op) = Some g \<Longrightarrow> ng_Generation g = no_Generation op \<Longrightarrow>
        ng_Generation (h (no_ServerID op) g) = no_Generation op"
  shows "net_ok d' \<and> evolves d d'"
proof -
  have valid: "op_valid op" if "op \<in> set (network_operations d)" for op
    using ok that by (simp add: net_ok_def current_op_def)
  have step: "op_step\<^sup>*\<^sup>* op (f op)" if "op \<in> set (network_operations d)" for op
    using move [OF that valid [OF that]] by auto
  have same: "no_ID (f op) = no_ID op" "no_ServerID (f op) = no_ServerID op" "no_Generation (f op) = no_Generation op"
    if "op \<in> set (network_operations d)" for op
    using op_steps_same [OF step [OF that]] by (simp_all add: same_op_def)
  have ids: "map no_ID (map f (network_operations d)) = map no_ID (network_operations d)"
    using same(1) by simp
  have "current_op (server_network_generations d') (f op)" if o: "op \<in> set (network_operations d)" for op
  proof -
    have "op_valid (f op)"
      using move [OF o valid [OF o]] valid [OF o] by (auto elim!: op_stepE simp: op_valid_def op_moves_def split: if_splits)
    moreover have "map_option ng_Generation (lookup (server_network_generations d') (no_ServerID op)) = Some (no_Generation op)"
      if l: "live (f op)"
    proof -
      have "live op" using final_stuck [OF step [OF o]] l by metis
      then obtain g where g: "lookup (server_network_generations d) (no_ServerID op) = Some g" "ng_Generation g = no_Generation op"
        using ok o by (auto simp: net_ok_def current_op_def)
      from cur [OF o l g] g show ?thesis by (simp add: gens(2))
    qed
    ultimately show ?thesis using same [OF o] by (simp add: current_op_def)
  qed
  moreover have "distinct (map no_ID (network_operations d'))"
    using ok by (simp only: ops ids net_ok_def)
  ultimately have "net_ok d'" using ok gens by (auto simp: net_ok_def ops)
  then show ?thesis using step by (auto simp: evolves_def ops)
qed

lemma net_ok_frame:
  "server_network_generations d' = server_network_generations d \<Longrightarrow> network_operations d' = network_operations d \<Longrightarrow>
   net_ok d' = net_ok d \<and> evolves d d'"
  by (simp add: net_ok_def evolves_def) blast

section \<open>Every step keeps it\<close>

lemma live_moves:
  assumes "op_valid op" "live op"
  shows "''superseded'' \<in> set (op_moves (no_Status op))"
  using assms unfolding op_valid_def live_def by (elim insertE) (simp_all add: op_moves_def)

lemma supersedes_move: "op_valid op \<Longrightarrow> supersedes sid g now op = op \<or> op_step op (supersedes sid g now op)"
  using live_moves [of op] by (auto simp: supersedes_def same_op_def live_def intro!: op_move)

lemma supersedes_live: "live (supersedes sid g now op) \<Longrightarrow> no_ServerID op = sid \<Longrightarrow> g \<le> no_Generation op"
  by (auto simp: supersedes_def live_def split: if_splits)

lemma keys_ok_map: "keys_ok (map (\<lambda>(k, x). (k, f k x)) t) = keys_ok t"
  by (simp add: keys_ok_def comp_def split_beta)

lemma bump_step:
  assumes "net_ok d"
  shows "net_ok (bumpGeneration now sid d) \<and> evolves d (bumpGeneration now sid d)"
proof (cases "lookup (server_network_generations d) sid")
  case None
  then show ?thesis using assms by (simp add: bumpGeneration_def)
next
  case (Some g)
  show ?thesis
  proof (rule map_step [OF assms, where f = "supersedes sid (ng_Generation g + 1) now"
        and h = "\<lambda>s x. if s = sid then advanceRow x else x"])
    show "network_operations (bumpGeneration now sid d) =
      map (supersedes sid (ng_Generation g + 1) now) (network_operations d)" using Some by (simp add: bumpGeneration_def)
    show "keys_ok (server_network_generations (bumpGeneration now sid d))"
      using assms Some by (auto simp: bumpGeneration_def net_ok_def)
    show "lookup (server_network_generations (bumpGeneration now sid d)) s =
      map_option (\<lambda>x. if s = sid then advanceRow x else x) (lookup (server_network_generations d) s)" for s
      by (simp add: bumpGeneration_lookup option.map_ident)
    show "supersedes sid (ng_Generation g + 1) now op = op \<or> op_step op (supersedes sid (ng_Generation g + 1) now op)"
      if "op_valid op" for op using that by (rule supersedes_move)
  qed (use Some in \<open>auto simp: gen_ok_def advanceRow_def dest: supersedes_live\<close>)
qed

interpretation net: trigger_invariant "\<lambda>d. net_ok d \<and> evolves e d"
proof
  fix d now sids
  have "net_ok d \<and> evolves e d \<Longrightarrow> net_ok (fold (bumpGeneration now) xs d) \<and> evolves e (fold (bumpGeneration now) xs d)" for xs
    by (induction xs arbitrary: d) (auto dest: bump_step intro: evolves_trans)
  then show "net_ok d \<and> evolves e d \<Longrightarrow> net_ok (bumpGenerations now sids d) \<and> evolves e (bumpGenerations now sids d)"
    by (simp add: bumpGenerations_def)
qed (auto simp: net_ok_def evolves_def)

lemma attachOperation_move: "attachOperation now r g op = op \<or> op_step op (attachOperation now r g op)"
  by (auto simp: attachOperation_def same_op_def op_moves_def split: prod.splits intro!: op_move)

lemma recordOperation_move:
  "recordOperation now sid v hash status d op = op \<or> op_step op (recordOperation now sid v hash status d op)"
  by (auto simp: recordOperation_def same_op_def op_moves_def intro!: op_move)

lemma failOperation_move: "failOperation now next p op = op \<or> op_step op (failOperation now next p op)"
  by (auto simp: failOperation_def same_op_def op_moves_def intro!: op_move)

lemma completeOperation_move: "completeOperation sid r now op = op \<or> op_step op (completeOperation sid r now op)"
  by (auto simp: completeOperation_def same_op_def op_moves_def intro!: op_move)

lemma finishPublication_step:
  assumes "finishPublication now r g e = Inr d'" "net_ok d"
    and "network_operations e = network_operations d" "server_network_generations e = server_network_generations d"
  shows "net_ok d' \<and> evolves d d'"
  using assms(1)
proof (rule finishPublication_E)
  fix sv
  let ?c = "fold (captureNode (fst (fst r)) (snd (fst r)) sv) (ds_Nodes (dr_Payload (snd r))) e"
  assume d': "d' = attachNetworkOperations now r g ?c"
  show ?thesis
  proof (rule map_step [OF assms(2), where f = "attachOperation now r g"
        and h = "\<lambda>s x. if s = fst (fst r) \<and> ng_Generation x = g then x\<lparr>ng_Published := g\<rparr> else x"])
    show "network_operations d' = map (attachOperation now r g) (network_operations d)"
      using assms(3) d' by (simp add: captureNodes_frame)
    show "keys_ok (server_network_generations d')"
      using assms(2,4) d' by (simp add: attachNetworkOperations_def Let_def keys_ok_map captureNodes_frame net_ok_def)
    show "lookup (server_network_generations d') s = map_option
        (\<lambda>x. if s = fst (fst r) \<and> ng_Generation x = g then x\<lparr>ng_Published := g\<rparr> else x)
        (lookup (server_network_generations d) s)" for s
      using assms(4) d' by (simp add: lookup_attach captureNodes_frame)
  qed (auto simp: gen_ok_def attachOperation_move)
qed

lemma publish_step:
  assumes "PublishDesired now expected c force d = (r, d')" "net_ok d"
  shows "net_ok d' \<and> evolves d d'"
proof (cases rule: PublishDesired_cases [of now expected c force d])
  case (error e)
  with assms show ?thesis by simp
next
  case (same q e)
  with assms finishPublication_step [OF same(4) assms(2)] show ?thesis by simp
next
  case (created row e)
  with assms finishPublication_step [OF created(5) assms(2)] show ?thesis by (simp add: insertRevision_def)
qed

lemma apply_step:
  assumes "net_ok d"
  shows "net_ok (RecordNetworkApply now sid v hash status d) \<and> evolves d (RecordNetworkApply now sid v hash status d)"
proof (cases "(status \<noteq> ''applied'' \<and> status \<noteq> ''failed'') \<or> length hash \<noteq> 64")
  case True
  then show ?thesis using assms by (simp add: RecordNetworkApply_def)
next
  case False
  show ?thesis
    by (rule map_step [OF assms, where f = "recordOperation now sid v hash status d" and h = "\<lambda>s x. x"])
      (use False assms in \<open>auto simp: RecordNetworkApply_def net_ok_def option.map_ident recordOperation_move\<close>)
qed

lemma failed_step:
  assumes "net_ok d"
  shows "net_ok (NetworkPublicationFailed now jitter p d) \<and> evolves d (NetworkPublicationFailed now jitter p d)"
proof (cases "NetworkPublicationFailed now jitter p d = d")
  case True
  then show ?thesis using assms by simp
next
  case False
  let ?next = "now + retryDelay (ng_Attempts (snd p)) jitter"
  obtain g where g: "lookup (server_network_generations d) (fst p) = Some g"
    and d': "NetworkPublicationFailed now jitter p d = d\<lparr>server_network_generations :=
        upsert (fst p) (g\<lparr>ng_Attempts := ng_Attempts g + 1, ng_NextAttempt := ?next\<rparr>) (server_network_generations d),
      network_operations := map (failOperation now ?next p) (network_operations d)\<rparr>"
    using False by (auto simp: NetworkPublicationFailed_def Let_def split: option.splits if_splits)
  show ?thesis unfolding d'
    by (rule map_step [OF assms, where f = "failOperation now ?next p"
        and h = "\<lambda>s x. if s = fst p then g\<lparr>ng_Attempts := ng_Attempts g + 1, ng_NextAttempt := ?next\<rparr> else x"])
      (use g assms in \<open>auto simp: net_ok_def option.map_ident gen_ok_def failOperation_move\<close>)
qed

lemma find_unique:
  assumes "find (\<lambda>x. f x = k) xs = Some y" "distinct (map f xs)" "x \<in> set xs" "f x = k"
  shows "x = y"
proof -
  have "y \<in> set xs" "f y = k" using assms(1) by (auto simp: find_Some_iff)
  with assms(2-4) show ?thesis by (auto simp: distinct_map inj_on_def)
qed

lemma retried_step:
  "no_Status op \<in> {''publish_failed'', ''apply_failed'', ''waiting_agent''} \<Longrightarrow> op_step op (retried now op)"
  by (rule op_move) (auto simp: retried_def same_op_def op_moves_def)

lemma gen_ok_reopened: "gen_ok g \<Longrightarrow> gen_ok (reopened now g)" "ng_Generation (reopened now g) = ng_Generation g"
  by (simp_all add: gen_ok_def reopened_def)

lemma retry_step:
  assumes r: "RetryNetworkOperation valid now opID expected audit detail d = (r, d')" and ok: "net_ok d"
  shows "net_ok d' \<and> evolves d d'"
  using r
proof (cases rule: Retry_cases)
  case (error e)
  then show ?thesis using ok by simp
next
  case (retried op)
  have distinct: "distinct (map no_ID (network_operations d))" using ok by (simp add: net_ok_def)
  show ?thesis
  proof (rule map_step [OF ok, where f = "\<lambda>o'. if no_ID o' = opID then Publish.retried now op else o'"
        and h = "\<lambda>s g. if s = no_ServerID op then reopened now g else g"])
    show "(if no_ID o' = opID then Publish.retried now op else o') = o' \<or>
        op_step o' (if no_ID o' = opID then Publish.retried now op else o')"
      if "o' \<in> set (network_operations d)" for o'
      using find_unique [OF retried(1) distinct that] retried_step [OF retried(3)] by auto
  qed (use ok retried(6,7) in \<open>auto simp: net_ok_def lookup_map keys_ok_map gen_ok_reopened\<close>)
qed

lemma request_step:
  assumes "fresh_request op d" "net_ok d"
  shows "net_ok (insertOperation op d) \<and> evolves d (insertOperation op d)"
  using assms by (auto simp: fresh_request_def insertOperation_def net_ok_def evolves_def current_op_def op_valid_def)

lemma advance_step:
  assumes "net_ok d"
  shows "net_ok (advanceGeneration sid now d) \<and> evolves d (advanceGeneration sid now d)"
proof (cases "lookup (server_network_generations d) sid")
  case None
  then have "\<not> (op \<in> set (network_operations d) \<and> live op \<and> no_ServerID op = sid)" for op
    using assms by (auto simp: net_ok_def current_op_def)
  then show ?thesis using None assms
    by (auto simp: advanceGeneration_def net_ok_def evolves_def current_op_def gen_ok_def firstGeneration_def)
next
  case (Some g)
  then show ?thesis using bump_step [OF assms] by (simp add: advanceGeneration_def)
qed

lemma retire_step:
  assumes "retireForward sid now d f = Inr d'" "net_ok d"
  shows "net_ok d' \<and> evolves d d'"
proof -
  have del: "net_ok (deleteForward s i n d) \<and> evolves d (deleteForward s i n d)" for s i n
  proof -
    let ?e = "d\<lparr>port_forwards := deleteWhere (\<lambda>(j, _). j = i) (port_forwards d),
          port_forward_revisions := deleteWhere (\<lambda>((j, _), _). j = i) (port_forward_revisions d),
          listener_reservations :=
            filter (\<lambda>l. \<not> (lr_Kind l = ''forward'' \<and> lr_ResourceID l = i)) (listener_reservations d)\<rparr>"
    have e: "net_ok ?e" "evolves d ?e" using net_ok_frame [of ?e d] assms(2) by simp_all
    show ?thesis using advance_step [OF e(1), of s n] e evolves_trans by (auto simp: deleteForward_def)
  qed
  show ?thesis using assms del net_ok_frame [of "releaseListeners sid f d" d]
    by (auto simp: retireForward_def releaseListeners_def Let_def split: if_splits option.splits)
qed

interpretation net_retire: loop_invariant "retireForward sid now" "\<lambda>d. net_ok d \<and> evolves e d"
  by unfold_locales (use retire_step evolves_trans in blast)

lemma receipt_step:
  assumes c: "CommitForwardReceipt E sid r applied now d = Inr d'" and ok: "net_ok d"
  shows "net_ok d' \<and> evolves d d'"
proof -
  let ?e = "d\<lparr>forward_receipts := upsert (sid, fr_ID r) (digestReceipt E r) (forward_receipts d),
          network_operations := map (completeOperation sid r now) (network_operations d)\<rparr>"
  have "net_ok ?e \<and> evolves d ?e"
    by (rule map_step [OF ok, where f = "completeOperation sid r now" and h = "\<lambda>s x. x"])
      (use ok in \<open>auto simp: net_ok_def option.map_ident completeOperation_move\<close>)
  then show ?thesis using net_retire.loop_inv [OF c [unfolded CommitForwardReceipt_def]] by blast
qed

section \<open>The whole machine\<close>

lemma net_step_ok:
  assumes "net_step d d'" "net_ok d"
  shows "net_ok d' \<and> evolves d d'"
  using assms
proof (induction rule: net_step.induct)
  case (net_publish now expected c force d r d')
  then show ?case by (rule publish_step)
next
  case (net_apply d now sid revision hash status)
  then show ?case by (rule apply_step)
next
  case (net_retry valid now opID expected audit detail d r d')
  then show ?case by (rule retry_step)
next
  case (net_failed d now jitter p)
  then show ?case by (rule failed_step)
next
  case (net_request op d)
  then show ?case by (rule request_step)
next
  case (net_share d now v)
  then show ?case by (intro net.writeShare_inv) simp
next
  case (net_usage d now v)
  then show ?case by (intro net.writeUsage_inv) simp
next
  case (net_server d now sv)
  then show ?case by (intro net.writeServer_inv) simp
next
  case (net_receipt E sid r applied now d d')
  then show ?case by (rule receipt_step)
qed

lemma net_steps_ok: "net_step\<^sup>*\<^sup>* d d' \<Longrightarrow> net_ok d \<Longrightarrow> net_ok d' \<and> evolves d d'"
  by (induction rule: rtranclp_induct) (auto dest: net_step_ok intro: evolves_trans)

text \<open>A completed or superseded operation is never changed again.\<close>

lemma final_forever:
  assumes "net_step\<^sup>*\<^sup>* d d'" "net_ok d" "op \<in> set (network_operations d)" "\<not> live op"
  shows "op \<in> set (network_operations d')"
  using net_steps_ok [OF assms(1,2)] assms(3,4) final_stuck unfolding evolves_def by blast

text \<open>An operation is completed by an apply report only for its own revision and hash, and
  only while its generation is the current one.\<close>

lemma RecordNetworkApply_exact:
  assumes "op \<in> set (network_operations d)" "live op"
    and "op' \<in> set (network_operations (RecordNetworkApply now sid v hash status d))" "no_ID op' = no_ID op"
    and "no_Status op' = ''applied''" "distinct (map no_ID (network_operations d))"
  shows "status = ''applied'' \<and> no_ServerID op = sid \<and> no_DesiredRevision op = v \<and> no_DesiredHash op = hash \<and>
    length hash = 64 \<and> no_Generation op = networkGeneration sid d \<and> no_Kind op \<notin> set forwardKinds"
proof -
  have st: "no_Status op \<noteq> ''applied''" using assms(2) by (auto simp: live_def)
  have g: "(status = ''applied'' \<or> status = ''failed'') \<and> length hash = 64"
  proof (rule ccontr)
    assume "\<not> ?thesis"
    then have "op' \<in> set (network_operations d)" using assms(3) by (auto simp: RecordNetworkApply_def split: if_splits)
    then have "op' = op" using assms(1,4,6) by (auto simp: distinct_map inj_on_def)
    with st assms(5) show False by simp
  qed
  then obtain o' where o: "o' \<in> set (network_operations d)" "op' = recordOperation now sid v hash status d o'"
    using assms(3) by (auto simp: RecordNetworkApply_def split: if_splits)
  have "no_ID o' = no_ID op" using o(2) assms(4) by (simp add: recordOperation_def split: if_splits)
  then have "o' = op" using assms(1,6) o(1) by (auto simp: distinct_map inj_on_def)
  with o(2) assms(5) st g show ?thesis by (auto simp: recordOperation_def split: if_splits)
qed

end
