(* ===== verification/Barrier.thy ===== *)
theory Barrier
  imports Publish
begin

text \<open>
  Why the generation is a barrier: \<open>accessView\<close> is everything about a server's nodes, their
  shares and the server itself that decides who may pass, and every write that changes it
  moves the generation. So a candidate whose generation is still current when it is
  published was built from the access rules in force at that moment, whatever committed in
  between. The usage total of a share is deliberately outside: crossing the share's quota
  takes effect when the share is evaluated.
\<close>

section \<open>The access rules of a server\<close>

record share_access =
  sa_Status :: ShareStatus
  sa_Connlog :: bool
  sa_ExpiresAt :: "time option"
  sa_QuotaBytes :: i64
  sa_BillingMode :: string
  sa_Targets :: "ShareTarget list"
  sa_Exhausted :: bool

definition shareAccess :: "Node \<Rightarrow> Share \<Rightarrow> share_access" where
  "shareAccess n sh = \<lparr>sa_Status = sh_Status sh, sa_Connlog = sh_ConnlogEnabled sh, sa_ExpiresAt = sh_ExpiresAt sh,
     sa_QuotaBytes = sh_QuotaBytes sh, sa_BillingMode = sh_BillingMode sh, sa_Targets = sh_Targets sh,
     sa_Exhausted = NodeExhausted sh n\<rparr>"

definition serverAccess :: "Server \<Rightarrow> string \<times> string \<times> string \<times> bool \<times> string \<times> bool" where
  "serverAccess s = (sv_Name s, sv_PublicHost s, sv_CoreMode s, sv_IPv4Only s, sv_CertMode s, sv_Enabled s)"

definition deployedOn :: "i64 \<Rightarrow> db \<Rightarrow> Node list" where
  "deployedOn sid d = filter (\<lambda>n. nd_ServerID n = Some sid \<and> nd_Source n = NodeDeployed) (nodes d)"

definition nodeAccess :: "db \<Rightarrow> Node \<Rightarrow> Node \<times> share_access option" where
  "nodeAccess d n =
     (n, case nd_ShareID n of None \<Rightarrow> None | Some i \<Rightarrow> map_option (shareAccess n) (lookup (shares d) i))"

definition accessView where
  "accessView sid d = (map_option serverAccess (lookup (servers d) sid), map (nodeAccess d) (deployedOn sid d))"

section \<open>Writes\<close>

definition usage_valid :: "Share \<Rightarrow> bool" where
  "usage_valid sh \<longleftrightarrow> (\<forall>i u v. sh_NodeUsage sh i = Some (u, v) \<longrightarrow> 0 \<le> u \<and> 0 \<le> v \<and> u + v \<le> MaxInt64)"

inductive access_step :: "db \<Rightarrow> db \<Rightarrow> bool" where
  access_settings: "lookup (shares d) (sh_ID v) = Some old \<Longrightarrow> sh_NodeUsage v = sh_NodeUsage old \<Longrightarrow>
     access_step d (writeShare now v d)"
| access_usage: "lookup (shares d) (sh_ID v) = Some old \<Longrightarrow> sh_BillingMode v = sh_BillingMode old \<Longrightarrow>
     sh_Targets v = sh_Targets old \<Longrightarrow> usage_valid old \<Longrightarrow> usage_valid v \<Longrightarrow> access_step d (writeUsage now v d)"
| access_server: "access_step d (writeServer now s d)"
| access_publish: "PublishDesired now expected c force d = (r, d') \<Longrightarrow> access_step d d'"
| access_apply: "access_step d (RecordNetworkApply now sid revision hash status d)"
| access_retry: "RetryNetworkOperation valid now opID expected audit detail d = (r, d') \<Longrightarrow> access_step d d'"
| access_failed: "access_step d (NetworkPublicationFailed now jitter p d)"

section \<open>The contract of a barrier\<close>

locale barrier =
  fixes step :: "'s \<Rightarrow> 's \<Rightarrow> bool"
    and gen :: "'s \<Rightarrow> int"
    and tracked :: "'s \<Rightarrow> bool"
    and view :: "'s \<Rightarrow> 'v"
  assumes gen_mono: "step s t \<Longrightarrow> gen s \<le> gen t"
    and tracked_step: "step s t \<Longrightarrow> tracked s \<Longrightarrow> tracked t"
    and gen_view: "step s t \<Longrightarrow> tracked s \<Longrightarrow> gen t = gen s \<Longrightarrow> view t = view s"
begin

lemma steps_mono: "step\<^sup>*\<^sup>* s t \<Longrightarrow> gen s \<le> gen t"
  by (induction rule: rtranclp_induct) (auto dest: gen_mono)

lemma steps_tracked: "step\<^sup>*\<^sup>* s t \<Longrightarrow> tracked s \<Longrightarrow> tracked t"
  by (induction rule: rtranclp_induct) (auto dest: tracked_step)

lemma steps_view: "step\<^sup>*\<^sup>* s t \<Longrightarrow> tracked s \<Longrightarrow> gen t = gen s \<Longrightarrow> view t = view s"
proof (induction rule: rtranclp_induct)
  case base
  then show ?case by simp
next
  case (step t u)
  have "gen t = gen s" using steps_mono [OF step(1)] gen_mono [OF step(2)] step.prems(2) by simp
  with step steps_tracked [OF step(1)] gen_view [OF step(2)] show ?case by simp
qed

end

section \<open>Every write that changes the rules moves the generation\<close>

definition tracked :: "i64 \<Rightarrow> db \<Rightarrow> bool" where
  "tracked sid d \<longleftrightarrow> lookup (server_network_generations d) sid \<noteq> None"

lemma tracked_frame [simp]:
  "tracked sid (d\<lparr>shares := x\<rparr>) = tracked sid d" "tracked sid (d\<lparr>servers := y\<rparr>) = tracked sid d"
  "tracked sid (bumpGenerations now sids d) = tracked sid d"
  by (simp_all add: tracked_def bumpGenerations_lookup)

interpretation tracked_trig: trigger_invariant "tracked sid"
  by unfold_locales simp_all

lemma bump_moves: "tracked sid d \<Longrightarrow> sid \<in> set sids \<Longrightarrow> networkGeneration sid d < networkGeneration sid (bumpGenerations now sids d)"
  by (simp add: networkGeneration_bump tracked_def)

lemma nodes_bump [simp]: "nodes (bumpGenerations now sids d) = nodes d"
  using bumpGenerations_frame [of d now sids] by (auto elim!: gen_frame_E)

lemma mem_shareServers: "n \<in> set (deployedOn sid d) \<Longrightarrow> nd_ShareID n = Some i \<Longrightarrow> sid \<in> set (shareServers i d)"
  by (force simp: deployedOn_def shareServers_def List.map_filter_def)

text \<open>The settings of a share that the triggers watch.\<close>

definition settings where
  "settings sh = (sh_Status sh, sh_ConnlogEnabled sh, sh_ExpiresAt sh, sh_QuotaBytes sh, sh_BillingMode sh, sh_Targets sh)"

lemma shareServers_frame:
  "shareServers i (bumpGenerations now sids d) = shareServers i d"
  "shareServers i (d\<lparr>shares := x\<rparr>) = shareServers i d"
  by (simp_all add: shareServers_def)

lemma shareTriggers_moves:
  assumes "settings new \<noteq> settings old" "tracked sid d" "sid \<in> set (shareServers (sh_ID new) d)"
  shows "networkGeneration sid d < networkGeneration sid (shareTriggers now old new d)"
proof -
  let ?s = "shareServers (sh_ID new) d"
  let ?a = "network_generation_share_update now old new d"
  let ?b = "network_generation_share_access now old new ?a"
  have a: "tracked sid ?a \<and> shareServers (sh_ID new) ?a = ?s \<and> networkGeneration sid d \<le> networkGeneration sid ?a"
    using assms(2) by (simp add: network_generation_share_update_def shareServers_frame networkGeneration_bump_mono)
  have b: "tracked sid ?b \<and> shareServers (sh_ID new) ?b = ?s \<and> networkGeneration sid ?a \<le> networkGeneration sid ?b"
    using a by (simp add: network_generation_share_access_def shareServers_frame networkGeneration_bump_mono)
  have c: "networkGeneration sid ?b \<le> networkGeneration sid (shareTriggers now old new d)"
    by (simp add: shareTriggers_def network_generation_share_targets_def networkGeneration_bump_mono)
  consider "?a = bumpGenerations now ?s d" | "?b = bumpGenerations now ?s ?a"
    | "shareTriggers now old new d = bumpGenerations now ?s ?b"
    using assms(1) a b
    by (auto simp: settings_def network_generation_share_update_def network_generation_share_access_def
        network_generation_share_targets_def shareTriggers_def)
  then show ?thesis
  proof cases
    case 1
    then have "networkGeneration sid d < networkGeneration sid ?a" using bump_moves assms(2,3) by metis
    with b c show ?thesis by simp
  next
    case 2
    then have "networkGeneration sid ?a < networkGeneration sid ?b" using bump_moves a assms(3) by metis
    with a c show ?thesis by simp
  next
    case 3
    then have "networkGeneration sid ?b < networkGeneration sid (shareTriggers now old new d)"
      using bump_moves b assms(3) by metis
    with a b show ?thesis by simp
  qed
qed

lemma NodeExhausted_cong:
  "sh_Targets a = sh_Targets b \<Longrightarrow> sh_BillingMode a = sh_BillingMode b \<Longrightarrow> sh_NodeUsage a = sh_NodeUsage b \<Longrightarrow>
   NodeExhausted a n = NodeExhausted b n"
  by (simp add: NodeExhausted_def NodeQuota_def Let_def split: option.splits)

lemma NodeQuota_loop_target:
  "NodeQuota_loop sid proto ts = q \<Longrightarrow> 0 < q \<Longrightarrow> \<exists>t \<in> set ts. st_ServerID t = sid \<and> (proto, q) \<in> set (st_QuotaBytes t)"
proof (induction ts)
  case Nil
  then show ?case by simp
next
  case (Cons t ts)
  then show ?case by (auto split: if_splits option.splits dest: map_of_SomeD)
qed

lemma usageBilled_eq:
  assumes "usage_valid sh"
  shows "usageBilled (sh_BillingMode sh) (sh_NodeUsage sh) i =
    (case (case sh_NodeUsage sh i of None \<Rightarrow> (0, 0) | Some u \<Rightarrow> u) of (u, v) \<Rightarrow> QuotaBilled (sh_BillingMode sh) u v)"
proof -
  obtain u v where uv: "(case sh_NodeUsage sh i of None \<Rightarrow> (0, 0) | Some u \<Rightarrow> u) = (u, v)" by fastforce
  have "0 \<le> u \<and> 0 \<le> v \<and> u + v \<le> MaxInt64"
    using assms uv by (cases "sh_NodeUsage sh i") (auto simp: usage_valid_def)
  then show ?thesis using uv Total_exact [of u v]
    by (simp add: usageBilled_def QuotaBilled_def Inbound_def Outbound_def max_def)
qed

lemma exhausted_crossed:
  assumes "usage_valid old" "usage_valid new" "sh_BillingMode new = sh_BillingMode old" "sh_Targets new = sh_Targets old"
    and "NodeExhausted new n \<noteq> NodeExhausted old n" "nd_ServerID n = Some sid"
  shows "quotaCrossed old new n"
proof -
  have q: "NodeQuota new n = NodeQuota old n" using assms(4) by (simp add: NodeQuota_def split: option.splits)
  define q where "q = NodeQuota old n"
  have pos: "0 < q" using assms(5) q by (auto simp: NodeExhausted_def Let_def q_def)
  have "(usageBilled (sh_BillingMode old) (sh_NodeUsage old) (nd_ID n) \<ge> q) \<noteq>
      (usageBilled (sh_BillingMode new) (sh_NodeUsage new) (nd_ID n) \<ge> q)"
    using assms(5) pos q unfolding usageBilled_eq [OF assms(1)] usageBilled_eq [OF assms(2)]
    by (auto simp: NodeExhausted_def Let_def q_def split: prod.splits)
  moreover obtain t where "t \<in> set (sh_Targets new)" "st_ServerID t = sid" "(nd_Protocol n, q) \<in> set (st_QuotaBytes t)"
    using NodeQuota_loop_target [of sid "nd_Protocol n" "sh_Targets old" q] pos assms(4,6) by (auto simp: q_def NodeQuota_def)
  ultimately show ?thesis using pos assms(6) by (fastforce simp: quotaCrossed_def list_ex_iff)
qed

lemma accessView_write:
  assumes "share_frame d d'" "shares d' = upsert i v (shares d)" "lookup (shares d) i = Some old"
    and "\<And>n. n \<in> set (deployedOn sid d) \<Longrightarrow> nd_ShareID n = Some i \<Longrightarrow> shareAccess n v = shareAccess n old"
  shows "accessView sid d' = accessView sid d"
proof -
  have f: "nodes d' = nodes d" "servers d' = servers d" using assms(1) by (auto elim!: share_frame_E)
  have "nodeAccess d' n = nodeAccess d n" if "n \<in> set (deployedOn sid d)" for n
    using assms(2-4) that by (auto simp: nodeAccess_def split: option.splits)
  then show ?thesis using f by (simp add: accessView_def deployedOn_def)
qed

lemma settings_step:
  assumes old: "lookup (shares d) (sh_ID v) = Some old" and u: "sh_NodeUsage v = sh_NodeUsage old" and t: "tracked sid d"
    and g: "networkGeneration sid (writeShare now v d) = networkGeneration sid d"
  shows "accessView sid (writeShare now v d) = accessView sid d"
proof (rule accessView_write [OF writeShare_share_frame _ old])
  show "shares (writeShare now v d) = upsert (sh_ID v) v (shares d)" using old by simp
  fix n assume n: "n \<in> set (deployedOn sid d)" "nd_ShareID n = Some (sh_ID v)"
  let ?d = "d\<lparr>shares := upsert (sh_ID v) v (shares d)\<rparr>"
  have "settings v = settings old"
  proof (rule ccontr)
    assume "settings v \<noteq> settings old"
    from shareTriggers_moves [OF this, of sid ?d now] t mem_shareServers [OF n] g old
    show False by (simp add: writeShare_def shareServers_frame)
  qed
  then show "shareAccess n v = shareAccess n old"
    using u NodeExhausted_cong [of v old n] by (simp add: shareAccess_def settings_def)
qed

lemma usage_step:
  assumes old: "lookup (shares d) (sh_ID v) = Some old" and same: "sh_BillingMode v = sh_BillingMode old" "sh_Targets v = sh_Targets old"
    and valid: "usage_valid old" "usage_valid v" and t: "tracked sid d"
    and g: "networkGeneration sid (writeUsage now v d) = networkGeneration sid d"
  shows "accessView sid (writeUsage now v d) = accessView sid d"
proof (rule accessView_write [OF writeUsage_share_frame _ old])
  show "shares (writeUsage now v d) = upsert (sh_ID v) v (shares d)" using old by simp
  fix n assume n: "n \<in> set (deployedOn sid d)" "nd_ShareID n = Some (sh_ID v)"
  let ?d = "d\<lparr>shares := upsert (sh_ID v) v (shares d)\<rparr>" and ?w = "writeShare now v d"
  have w: "writeUsage now v d = network_generation_share_node_usage now old v ?w"
    using old by (simp add: writeUsage_def)
  have nw: "nodes ?w = nodes d" using writeShare_share_frame [of d now v] by (auto elim!: share_frame_E)
  have mono: "networkGeneration sid d \<le> networkGeneration sid ?w" "networkGeneration sid ?w \<le> networkGeneration sid (writeUsage now v d)"
    by (rule generation_mono_writes(1)) (simp add: w network_generation_share_node_usage_def networkGeneration_bump_mono)
  have s: "settings v = settings old"
  proof (rule ccontr)
    assume "settings v \<noteq> settings old"
    from shareTriggers_moves [OF this, of sid ?d now] t mem_shareServers [OF n] g mono old
    show False by (simp add: writeShare_def shareServers_frame)
  qed
  have "NodeExhausted v n = NodeExhausted old n"
  proof (rule ccontr)
    assume e: "NodeExhausted v n \<noteq> NodeExhausted old n"
    have sn: "nd_ServerID n = Some sid" "n \<in> set (nodes d)" "nd_Source n = NodeDeployed"
      using n by (simp_all add: deployedOn_def)
    from exhausted_crossed [OF valid same e sn(1)] sn n(2)
    have "sid \<in> set (List.map_filter nd_ServerID (filter (\<lambda>n. nd_ShareID n = Some (sh_ID v) \<and> nd_Source n = NodeDeployed \<and>
        quotaCrossed old v n) (nodes ?w)))" by (force simp: nw List.map_filter_def)
    from bump_moves [OF _ this, of ?w now] tracked_trig.writeShare_inv [OF t, of now v] g mono
    show False by (simp add: w network_generation_share_node_usage_def)
  qed
  then show "shareAccess n v = shareAccess n old" using s by (simp add: shareAccess_def settings_def)
qed

lemma server_step:
  assumes t: "tracked sid d" and g: "networkGeneration sid (writeServer now s d) = networkGeneration sid d"
  shows "accessView sid (writeServer now s d) = accessView sid d"
proof (cases "lookup (servers d) (sv_ID s)")
  case None
  then show ?thesis by (simp add: writeServer_def)
next
  case (Some old)
  let ?d = "d\<lparr>servers := upsert (sv_ID s) s (servers d)\<rparr>"
  have w: "writeServer now s d = network_generation_server_update now old s ?d" using Some by (simp add: writeServer_def)
  have f: "nodes (writeServer now s d) = nodes d" "shares (writeServer now s d) = shares d"
    using writeServer_frame [where d = d and now = now and v = s] by (auto elim!: gen_frame_E)
  have "serverAccess s = serverAccess old" if "sv_ID s = sid"
  proof (rule ccontr)
    assume "serverAccess s \<noteq> serverAccess old"
    then have "writeServer now s d = bumpGenerations now [sid] ?d"
      using w that by (auto simp: network_generation_server_update_def serverAccess_def bumpGenerations_def)
    with bump_moves [of sid ?d "[sid]" now] t g show False by simp
  qed
  then show ?thesis using f Some by (auto simp: accessView_def deployedOn_def nodeAccess_def split: option.splits)
qed

text \<open>The operations of the publication itself leave the rules and the generations alone.\<close>

definition quiet :: "db \<Rightarrow> db \<Rightarrow> bool" where
  "quiet d d' \<longleftrightarrow> nodes d' = nodes d \<and> servers d' = servers d \<and> shares d' = shares d \<and>
     (\<forall>s. map_option ng_Generation (lookup (server_network_generations d') s) =
          map_option ng_Generation (lookup (server_network_generations d) s))"

lemma networkGeneration_map_option:
  "networkGeneration sid d = (case map_option ng_Generation (lookup (server_network_generations d) sid) of None \<Rightarrow> 0 | Some g \<Rightarrow> g)"
  by (simp add: networkGeneration_def split: option.splits)

lemma quiet_step:
  assumes "quiet d d'"
  shows "networkGeneration sid d' = networkGeneration sid d" "tracked sid d' = tracked sid d" "accessView sid d' = accessView sid d"
proof -
  have m: "map_option ng_Generation (lookup (server_network_generations d') sid) =
      map_option ng_Generation (lookup (server_network_generations d) sid)" using assms by (simp add: quiet_def)
  show "networkGeneration sid d' = networkGeneration sid d" unfolding networkGeneration_map_option m ..
  show "tracked sid d' = tracked sid d" using m unfolding tracked_def by (metis option.map_disc_iff)
  show "accessView sid d' = accessView sid d"
    using assms by (auto simp: quiet_def accessView_def deployedOn_def nodeAccess_def split: option.splits)
qed


lemma finishPublication_quiet:
  assumes "finishPublication now r g e = Inr d'" "quiet d e"
  shows "quiet d d'"
  using assms(1)
proof (rule finishPublication_E)
  fix sv
  let ?c = "fold (captureNode (fst (fst r)) (snd (fst r)) sv) (ds_Nodes (dr_Payload (snd r))) e"
  assume d': "d' = attachNetworkOperations now r g ?c"
  have sh: "shares (fold (captureNode i j sv) specs x) = shares x" for i j specs x
    by (induction specs arbitrary: x) (auto simp: captureNode_def split: option.splits)
  have "map_option ng_Generation (lookup (server_network_generations d') s) =
      map_option ng_Generation (lookup (server_network_generations e) s)" for s
    unfolding d' lookup_attach captureNodes_frame by (cases "lookup (server_network_generations e) s") auto
  moreover have "shares d' = shares e" unfolding d' by (simp add: attachNetworkOperations_def Let_def sh)
  ultimately show ?thesis using assms(2) d' by (simp add: quiet_def captureNodes_frame)
qed

lemma PublishDesired_quiet:
  assumes "PublishDesired now expected c force d = (r, d')"
  shows "quiet d d'"
proof (cases rule: PublishDesired_cases [of now expected c force d])
  case (error e)
  with assms show ?thesis by (simp add: quiet_def)
next
  case (same q e)
  with assms finishPublication_quiet [OF same(4)] show ?thesis by (simp add: quiet_def)
next
  case (created row e)
  with assms finishPublication_quiet [OF created(5), of d] show ?thesis by (simp add: quiet_def insertRevision_def)
qed

lemma RecordNetworkApply_quiet: "quiet d (RecordNetworkApply now sid v hash status d)"
  by (simp add: quiet_def RecordNetworkApply_def)

lemma Retry_quiet:
  assumes "RetryNetworkOperation valid now opID expected audit detail d = (r, d')"
  shows "quiet d d'"
proof -
  have "shares d' = shares d \<and> nodes d' = nodes d \<and> servers d' = servers d"
    using assms by (auto simp: RetryNetworkOperation_def retryTx_def addAudit_def Tx_def split: if_splits option.splits sum.splits)
  moreover from assms have "map_option ng_Generation (lookup (server_network_generations d') s) =
      map_option ng_Generation (lookup (server_network_generations d) s)" for s
    by (rule Retry_cases) (auto simp: lookup_map reopened_def option.map_comp comp_def intro!: option.map_cong)
  ultimately show ?thesis by (simp add: quiet_def)
qed

lemma Failed_quiet: "quiet d (NetworkPublicationFailed now jitter p d)"
  by (auto simp: quiet_def NetworkPublicationFailed_def Let_def split: option.splits)

lemmas quiet_ops = PublishDesired_quiet RecordNetworkApply_quiet Retry_quiet Failed_quiet

lemma access_step_ok:
  assumes "access_step d d'"
  shows "networkGeneration sid d \<le> networkGeneration sid d' \<and> (tracked sid d \<longrightarrow> tracked sid d') \<and>
    (tracked sid d \<longrightarrow> networkGeneration sid d' = networkGeneration sid d \<longrightarrow> accessView sid d' = accessView sid d)"
  using assms
proof (induction rule: access_step.induct)
  case (access_settings d v old now)
  then show ?case
    using settings_step [of d v old sid now] generation_mono_writes(1) tracked_trig.writeShare_inv by blast
next
  case (access_usage d v old now)
  then show ?case
    using usage_step [of d v old sid now] generation_mono_writes(2) tracked_trig.writeUsage_inv by blast
next
  case (access_server d now s)
  then show ?case using server_step generation_mono_writes(3) tracked_trig.writeServer_inv by blast
next
  case (access_publish now expected c force d r d')
  then show ?case using quiet_step [OF quiet_ops(1), of now expected c force d r d' sid] by simp
next
  case (access_apply d now sid' revision hash status)
  then show ?case using quiet_step [OF quiet_ops(2)] by simp
next
  case (access_retry valid now opID expected audit detail d r d')
  then show ?case using quiet_step [OF quiet_ops(3)] by simp
next
  case (access_failed d now jitter p)
  then show ?case using quiet_step [OF quiet_ops(4)] by simp
qed

interpretation access: barrier access_step "networkGeneration sid" "tracked sid" "accessView sid"
  by unfold_locales (use access_step_ok in blast)+

end
