(* ===== verification/Desired.thy ===== *)
theory Desired
  imports Barrier
begin

text \<open>
  Building and publishing the desired state of a server (\<^verbatim>\<open>internal/desired/desired.go\<close>,
  \<^verbatim>\<open>network_operations.go\<close>). The builder reads the database in several queries, and other
  requests may commit between any two of them: \<open>T i\<close> is the database at the \<open>i\<close>-th query of an
  attempt. Publication retries, at most eight times, when the generation or the latest
  revision moved meanwhile. What the builder takes from parts that are not modelled
  (versions, transports and their credentials, forwards, the content hash) are fields of
  \<open>BuildEnv\<close>, arbitrary functions of the database.
\<close>

section \<open>Building\<close>

record BuildEnv =
  be_now :: time
  be_versions :: "Server \<Rightarrow> db \<Rightarrow> string res"
  be_binding :: "i64 \<Rightarrow> db \<Rightarrow> int res"
  be_egress :: "Node \<Rightarrow> db \<Rightarrow> (string \<times> bool) res"
  be_forwards :: "i64 \<Rightarrow> db \<Rightarrow> ForwardRef list res"
  be_forwardVersion :: "i64 \<Rightarrow> db \<Rightarrow> int"
  be_param :: "string \<Rightarrow> string \<Rightarrow> string"
  be_selfLog :: "db \<Rightarrow> bool"
  be_hash :: "DesiredState \<Rightarrow> string"

definition needsCert :: "string \<Rightarrow> bool" where
  "needsCert protocol \<longleftrightarrow> protocol \<in> {''anytls'', ''hysteria2'', ''tuic'', ''trojan''}"

text \<open>\<^verbatim>\<open>fmt.Sprint\<close> of a missing parameter is \<^verbatim>\<open><nil>\<close>.\<close>

definition orDefault :: "string \<Rightarrow> string \<Rightarrow> string" where
  "orDefault v dflt = (if v = '''' \<or> v = ''<nil>'' then dflt else v)"

definition certSpec :: "BuildEnv \<Rightarrow> Server \<Rightarrow> Node \<Rightarrow> CertSpec option" where
  "certSpec E server n =
     (if needsCert (nd_Protocol n) then
        let mode = orDefault (be_param E (nd_ServerParams n) ''cert_mode'') (sv_CertMode server)
        in Some \<lparr>cert_Mode = mode,
                 cert_Domain = orDefault (be_param E (nd_ServerParams n) ''tls_domain'') (sv_PublicHost server),
                 cert_ID = (if mode = ''external'' then be_param E (nd_ServerParams n) ''cert_id'' else '''')\<rparr>
      else None)"

definition deployedNodes :: "i64 \<Rightarrow> db \<Rightarrow> Node list" where
  "deployedNodes sid d = sort_key nd_SortOrder (sort_key nd_ID
     (filter (\<lambda>n. nd_ServerID n = Some sid \<and> nd_Source n \<in> {NodeDeployed, NodeTransit}) (nodes d)))"

definition shareBlocks :: "time \<Rightarrow> Share \<Rightarrow> Node \<Rightarrow> bool" where
  "shareBlocks now sh n \<longleftrightarrow> NodeExhausted sh n \<or> sh_Status sh \<noteq> ShareActive \<or>
     (case sh_ExpiresAt sh of None \<Rightarrow> False | Some e \<Rightarrow> \<not> now < e) \<or>
     (sh_QuotaBytes sh > 0 \<and> QuotaBilled (sh_BillingMode sh) (sh_UsedUpload sh) (sh_UsedDownload sh) \<ge> sh_QuotaBytes sh)"

text \<open>Shares are read once per build and kept.\<close>

definition cachedShare :: "(i64 \<times> Share) list \<Rightarrow> i64 \<Rightarrow> db \<Rightarrow> Share option \<times> (i64 \<times> Share) list" where
  "cachedShare cache i d =
     (case lookup cache i of Some sh \<Rightarrow> (Some sh, cache)
      | None \<Rightarrow> (case lookup (shares d) i of None \<Rightarrow> (None, cache) | Some sh \<Rightarrow> (Some sh, upsert i sh cache)))"

definition nodeSpec :: "BuildEnv \<Rightarrow> Server \<Rightarrow> bool \<Rightarrow> db \<Rightarrow> Node \<Rightarrow> Share option \<Rightarrow> NodeSpec res" where
  "nodeSpec E server selfLog d n share =
     bindR (if nd_Network n \<noteq> None then be_egress E n d else Inr ('''', False)) (\<lambda>(network, disabled).
       Inr \<lparr>np_NodeID = nd_ID n, np_Name = nd_Name n, np_Protocol = nd_Protocol n,
            np_Core = CoreFor (nd_Protocol n) (sv_CoreMode server), np_ListenPort = nd_ListenPort n,
            np_ShareID = nd_ShareID n,
            np_Blocked = (\<not> nd_Enabled n \<or> disabled \<or>
              (nd_ShareID n \<noteq> None \<and> (case share of None \<Rightarrow> True | Some sh \<Rightarrow> shareBlocks (be_now E) sh n))),
            np_ConnlogEnabled = (if nd_ShareID n = None then selfLog
              else case share of None \<Rightarrow> False | Some sh \<Rightarrow> sh_ConnlogEnabled sh),
            np_Params = nd_ServerParams n, np_Network = network, np_Cert = certSpec E server n\<rparr>)"

type_synonym build_state = "(i64 \<times> Share) list \<times> NodeSpec list"

definition buildNode ::
  "BuildEnv \<Rightarrow> Server \<Rightarrow> bool \<Rightarrow> db \<Rightarrow> (nat \<Rightarrow> db) \<Rightarrow> build_state \<Rightarrow> nat \<times> Node \<Rightarrow> build_state res" where
  "buildNode E server selfLog d T st x =
     (case (st, x) of ((cache, specs), (j, n)) \<Rightarrow>
        if nd_Revoked n then Inr st
        else
          case (case nd_ShareID n of None \<Rightarrow> (None, cache) | Some i \<Rightarrow> cachedShare cache i (T j)) of (share, cache') \<Rightarrow>
            bindR (nodeSpec E server selfLog d n share) (\<lambda>spec. Inr (cache', specs @ [spec])))"

text \<open>A node with a network policy, or a forward, requires the binding contract.\<close>

definition bound :: "int \<Rightarrow> bool \<Rightarrow> Node list \<Rightarrow> ForwardRef list \<Rightarrow> bool" where
  "bound binding enabled ns forwards \<longleftrightarrow> binding \<noteq> 0 \<or> forwards \<noteq> [] \<or>
     (enabled \<and> list_ex (\<lambda>n. \<not> nd_Revoked n \<and> nd_Network n \<noteq> None) ns)"

definition sealState :: "BuildEnv \<Rightarrow> i64 \<Rightarrow> bool \<Rightarrow> DesiredState \<Rightarrow> DesiredState" where
  "sealState E generation isBound ds =
     (let ds1 = ds\<lparr>ds_NetworkGeneration := (if isBound then generation else 0)\<rparr>
      in ds1\<lparr>ds_Hash := be_hash E (ds1\<lparr>ds_Revision := 0, ds_Hash := '''', ds_GeneratedAt := 0\<rparr>)\<rparr>)"

text \<open>The queries of the build are numbered from \<open>3\<close>: the first three belong to the caller.\<close>

definition Build :: "BuildEnv \<Rightarrow> Server \<Rightarrow> (nat \<Rightarrow> db) \<Rightarrow> DesiredState res" where
  "Build E server T =
     (let sid = sv_ID server; generation = networkGeneration sid (T 3)
      in bindR (be_binding E sid (T 3)) (\<lambda>binding.
         bindR (be_versions E server (T 3)) (\<lambda>rest.
         bindR (if sv_Enabled server then
                  foldE (buildNode E server (be_selfLog E (T 4)) (T 4) (\<lambda>j. T (5 + j))) ([], [])
                    (enumerate 0 (deployedNodes sid (T 4)))
                else Inr ([], [])) (\<lambda>(_, specs).
         bindR (be_forwards E sid (T 4)) (\<lambda>forwards.
           Inr (sealState E generation (bound binding (sv_Enabled server) (deployedNodes sid (T 4)) forwards)
             \<lparr>ds_PublicationGeneration = generation,
              ds_NetworkForwardVersion = (if forwards \<noteq> [] then 1 else be_forwardVersion E sid (T 3)),
              ds_NetworkGeneration = generation, ds_Revision = 0, ds_Hash = '''', ds_ServerID = sid,
              ds_Nodes = specs, ds_Forwards = forwards, ds_Rest = rest, ds_GeneratedAt = 0\<rparr>))))))"

section \<open>Publishing\<close>

text \<open>What other requests commit between two queries, and the clock, per attempt.\<close>

record PublishEnv =
  pe_build :: BuildEnv
  pe_now :: "nat \<Rightarrow> time"
  pe_others :: "nat \<Rightarrow> nat \<Rightarrow> db \<Rightarrow> db"

fun trace :: "(nat \<Rightarrow> db \<Rightarrow> db) \<Rightarrow> db \<Rightarrow> nat \<Rightarrow> db" where
  "trace others d 0 = d"
| "trace others d (Suc i) = others i (trace others d i)"

definition lastQuery :: "i64 \<Rightarrow> (nat \<Rightarrow> db) \<Rightarrow> nat" where
  "lastQuery sid T = 5 + length (deployedNodes sid (T 4))"

fun publishLoop :: "PublishEnv \<Rightarrow> i64 \<Rightarrow> bool \<Rightarrow> nat \<Rightarrow> nat \<Rightarrow> db \<Rightarrow> (desired_rec \<times> bool) res \<times> db" where
  "publishLoop P sid force 0 attempt d = (Inl ErrDesiredConflict, d)"
| "publishLoop P sid force (Suc left) attempt d =
     (let T = trace (pe_others P attempt) d;
          E = (pe_build P)\<lparr>be_now := pe_now P attempt\<rparr>;
          expected = latestRevision sid (T 0);
          generation = networkGeneration sid (T 1)
      in case lookup (servers (T 2)) sid of
           None \<Rightarrow> (Inl ErrNotFound, T 2)
         | Some server \<Rightarrow>
             (case Build E (server\<lparr>sv_ID := sid\<rparr>) T of
                Inl e \<Rightarrow> (Inl e, T (lastQuery sid T))
              | Inr ds \<Rightarrow>
                  if generation \<noteq> ds_PublicationGeneration ds
                  then publishLoop P sid force left (Suc attempt) (T (lastQuery sid T))
                  else
                    (case PublishDesired (pe_now P attempt) expected
                            (ds\<lparr>ds_GeneratedAt := pe_now P attempt\<rparr>) force (T (lastQuery sid T)) of
                       (Inl e, d') \<Rightarrow>
                         if e = ErrDesiredConflict then publishLoop P sid force left (Suc attempt) d'
                         else (Inl e, d')
                     | (Inr r, d') \<Rightarrow> (Inr r, d'))))"

definition publish :: "PublishEnv \<Rightarrow> i64 \<Rightarrow> bool \<Rightarrow> db \<Rightarrow> (desired_rec \<times> bool) res \<times> db" where
  "publish P sid force d = publishLoop P sid force 8 0 d"

definition Publish :: "PublishEnv \<Rightarrow> i64 \<Rightarrow> db \<Rightarrow> (desired_rec \<times> bool) res \<times> db" where
  "Publish P sid d = publish P sid False d"

definition ForcePublish :: "PublishEnv \<Rightarrow> i64 \<Rightarrow> db \<Rightarrow> (desired_rec \<times> bool) res \<times> db" where
  "ForcePublish P sid d = publish P sid True d"

text \<open>A loop over servers that stops at the first error.\<close>

fun publishEach :: "PublishEnv \<Rightarrow> i64 list \<Rightarrow> db \<Rightarrow> unit res \<times> db" where
  "publishEach P [] d = (Inr (), d)"
| "publishEach P (sid # sids) d =
     (case Publish P sid d of (Inl e, d') \<Rightarrow> (Inl e, d') | (Inr _, d') \<Rightarrow> publishEach P sids d')"

text \<open>\<open>order\<close> is the order of \<^verbatim>\<open>ListServers\<close>, by name.\<close>

definition PublishAll :: "PublishEnv \<Rightarrow> (i64 list \<Rightarrow> i64 list) \<Rightarrow> db \<Rightarrow> unit res \<times> db" where
  "PublishAll P order d = publishEach P (order (map fst (servers d))) d"

text \<open>The outbox part of \<^verbatim>\<open>ReconcileNetworkOperations\<close>: the servers whose publication failed.\<close>

fun reconcileEach :: "PublishEnv \<Rightarrow> time \<Rightarrow> int \<Rightarrow> publication list \<Rightarrow> db \<Rightarrow> i64 list \<times> db" where
  "reconcileEach P now jitter [] d = ([], d)"
| "reconcileEach P now jitter (p # ps) d =
     (case Publish P (fst p) d of
        (Inr _, d') \<Rightarrow> reconcileEach P now jitter ps d'
      | (Inl e, d') \<Rightarrow>
          if e = ErrNetworkMaintenance then reconcileEach P now jitter ps d'
          else
            (case reconcileEach P now jitter ps (NetworkPublicationFailed now jitter p d') of
               (failures, d'') \<Rightarrow> (fst p # failures, d'')))"

definition reconcilePublications :: "PublishEnv \<Rightarrow> time \<Rightarrow> int \<Rightarrow> db \<Rightarrow> i64 list \<times> db" where
  "reconcilePublications P now jitter d = reconcileEach P now jitter (PendingNetworkPublications now d) d"

section \<open>What a build has seen\<close>

text \<open>
  Every node of a build comes from a node of the server and, if it belongs to a share, from
  that share as it was at one of the build's own queries.
\<close>

definition seen :: "(nat \<Rightarrow> db) \<Rightarrow> nat \<Rightarrow> i64 \<Rightarrow> Share option \<Rightarrow> bool" where
  "seen T N i share \<longleftrightarrow> (\<exists>j < N. share = lookup (shares (T j)) i)"

definition spec_of :: "BuildEnv \<Rightarrow> Server \<Rightarrow> bool \<Rightarrow> db \<Rightarrow> (nat \<Rightarrow> db) \<Rightarrow> nat \<Rightarrow> Node list \<Rightarrow> NodeSpec \<Rightarrow> bool" where
  "spec_of E server selfLog d T N ns spec \<longleftrightarrow>
     (\<exists>n share. n \<in> set ns \<and> \<not> nd_Revoked n \<and> nodeSpec E server selfLog d n share = Inr spec \<and>
        (\<forall>i. nd_ShareID n = Some i \<longrightarrow> seen T N i share))"

definition cache_ok :: "(nat \<Rightarrow> db) \<Rightarrow> nat \<Rightarrow> (i64 \<times> Share) list \<Rightarrow> bool" where
  "cache_ok T N cache \<longleftrightarrow> (\<forall>i sh. lookup cache i = Some sh \<longrightarrow> seen T N i (Some sh))"

lemma cachedShare_seen:
  assumes "cachedShare cache i (T j) = (share, cache')" "cache_ok T N cache" "j < N"
  shows "seen T N i share \<and> cache_ok T N cache'"
  using assms by (auto simp: cachedShare_def cache_ok_def seen_def split: option.splits if_splits) metis+

lemma build_loop:
  assumes "foldE (buildNode E server selfLog d T) st xs = Inr (cache', specs')"
    and "\<forall>(j, n) \<in> set xs. j < N \<and> n \<in> set ns"
    and "cache_ok T N (fst st)" "list_all (spec_of E server selfLog d T N ns) (snd st)"
  shows "list_all (spec_of E server selfLog d T N ns) specs'"
  using assms
proof (induction xs arbitrary: st)
  case Nil
  then show ?case by simp
next
  case (Cons x xs)
  obtain j n where x: "x = (j, n)" by fastforce
  obtain cache specs where st: "st = (cache, specs)" by fastforce
  obtain st1 where b: "buildNode E server selfLog d T st x = Inr st1"
    and r: "foldE (buildNode E server selfLog d T) st1 xs = Inr (cache', specs')"
    using Cons.prems(1) by (auto simp: bindR_eq_Inr)
  have jn: "j < N" "n \<in> set ns" using Cons.prems(2) x by auto
  have "cache_ok T N (fst st1) \<and> list_all (spec_of E server selfLog d T N ns) (snd st1)"
  proof (cases "nd_Revoked n")
    case True
    then show ?thesis using b x st Cons.prems(3,4) by (simp add: buildNode_def)
  next
    case False
    obtain share c where sc: "(case nd_ShareID n of None \<Rightarrow> (None, cache) | Some i \<Rightarrow> cachedShare cache i (T j)) = (share, c)"
      by fastforce
    with b x st False obtain spec where spec: "nodeSpec E server selfLog d n share = Inr spec" "st1 = (c, specs @ [spec])"
      by (auto simp: buildNode_def bindR_eq_Inr)
    have "cache_ok T N c \<and> (\<forall>i. nd_ShareID n = Some i \<longrightarrow> seen T N i share)"
      using sc Cons.prems(3) st jn(1) cachedShare_seen [of cache _ T j share c N] by (auto split: option.splits)
    moreover from this have "spec_of E server selfLog d T N ns spec"
      unfolding spec_of_def using spec(1) False jn(2) by blast
    ultimately show ?thesis using spec(2) Cons.prems(4) st by simp
  qed
  with Cons.IH [OF r] Cons.prems(2) show ?case by simp
qed

lemma sealState_sel [simp]:
  "ds_Nodes (sealState E g b ds) = ds_Nodes ds" "ds_ServerID (sealState E g b ds) = ds_ServerID ds"
  "ds_PublicationGeneration (sealState E g b ds) = ds_PublicationGeneration ds"
  "ds_NetworkGeneration (sealState E g b ds) = (if b then g else 0)"
  by (simp_all add: sealState_def Let_def)

lemma Build_E:
  assumes "Build E server T = Inr ds"
  shows "ds_ServerID ds = sv_ID server" "ds_PublicationGeneration ds = networkGeneration (sv_ID server) (T 3)"
    "candidateGeneration ds = networkGeneration (sv_ID server) (T 3)"
    "list_all (spec_of E server (be_selfLog E (T 4)) (T 4) (\<lambda>j. T (5 + j)) (length (deployedNodes (sv_ID server) (T 4)))
       (deployedNodes (sv_ID server) (T 4))) (ds_Nodes ds)"
proof -
  let ?sid = "sv_ID server"
  let ?ns = "deployedNodes ?sid (T 4)"
  obtain binding rest cache specs forwards where
    b: "be_binding E ?sid (T 3) = Inr binding" "be_versions E server (T 3) = Inr rest"
    and l: "(if sv_Enabled server then
              foldE (buildNode E server (be_selfLog E (T 4)) (T 4) (\<lambda>j. T (5 + j))) ([], []) (enumerate 0 ?ns)
            else Inr ([], [])) = Inr (cache, specs)"
    and f: "be_forwards E ?sid (T 4) = Inr forwards"
    and ds: "ds = sealState E (networkGeneration ?sid (T 3)) (bound binding (sv_Enabled server) ?ns forwards)
             \<lparr>ds_PublicationGeneration = networkGeneration ?sid (T 3),
              ds_NetworkForwardVersion = (if forwards \<noteq> [] then 1 else be_forwardVersion E ?sid (T 3)),
              ds_NetworkGeneration = networkGeneration ?sid (T 3), ds_Revision = 0, ds_Hash = '''', ds_ServerID = ?sid,
              ds_Nodes = specs, ds_Forwards = forwards, ds_Rest = rest, ds_GeneratedAt = 0\<rparr>"
    using assms unfolding Build_def Let_def by (auto elim!: bindR_InrE)
  show "ds_ServerID ds = ?sid" "ds_PublicationGeneration ds = networkGeneration ?sid (T 3)"
    using ds by simp_all
  show "candidateGeneration ds = networkGeneration ?sid (T 3)"
    using ds by (simp add: candidateGeneration_def)
  have "\<forall>(j, n) \<in> set (enumerate 0 ?ns). j < length ?ns \<and> n \<in> set ?ns"
    by (auto simp: enumerate_eq_zip dest: set_zip_leftD set_zip_rightD)
  then have "list_all (spec_of E server (be_selfLog E (T 4)) (T 4) (\<lambda>j. T (5 + j)) (length ?ns) ?ns) specs"
    using l build_loop [of E server "be_selfLog E (T 4)" "T 4" "\<lambda>j. T (5 + j)" "([], [])" "enumerate 0 ?ns" cache specs]
    by (auto simp: cache_ok_def split: if_splits)
  then show "list_all (spec_of E server (be_selfLog E (T 4)) (T 4) (\<lambda>j. T (5 + j)) (length ?ns) ?ns) (ds_Nodes ds)"
    using ds by simp
qed


section \<open>No publication reopens what a commit has closed\<close>

lemma trace_steps:
  assumes "\<And>i d. access_step\<^sup>*\<^sup>* d (others i d)" "i \<le> j"
  shows "access_step\<^sup>*\<^sup>* (trace others d i) (trace others d j)"
  using assms(2)
proof (induction j)
  case 0
  then show ?case by simp
next
  case (Suc j)
  then show ?case using assms(1) by (cases "i = Suc j") (auto intro: rtranclp_trans)
qed

text \<open>The rules of the database that say that a node is closed.\<close>

definition closed :: "db \<Rightarrow> Node \<Rightarrow> bool" where
  "closed d n \<longleftrightarrow> \<not> nd_Enabled n \<or>
     (\<exists>i. nd_ShareID n = Some i \<and>
        (case lookup (shares d) i of None \<Rightarrow> True | Some sh \<Rightarrow> NodeExhausted sh n \<or> sh_Status sh \<noteq> ShareActive))"

lemma nodeAccess_mem:
  assumes "accessView sid d = accessView sid e" "n \<in> set (deployedOn sid d)"
  shows "n \<in> set (deployedOn sid e) \<and> nodeAccess d n = nodeAccess e n"
proof -
  have m: "map (nodeAccess d) (deployedOn sid d) = map (nodeAccess e) (deployedOn sid e)"
    using assms(1) by (simp add: accessView_def)
  then have "map fst (map (nodeAccess d) (deployedOn sid d)) = map fst (map (nodeAccess e) (deployedOn sid e))" by simp
  then have eq: "deployedOn sid d = deployedOn sid e" by (simp add: nodeAccess_def comp_def)
  with m assms(2) show ?thesis by simp
qed

lemma deployedNodes_mem:
  "n \<in> set (deployedNodes sid d) \<Longrightarrow> nd_Source n = NodeDeployed \<Longrightarrow> n \<in> set (deployedOn sid d)"
  by (simp add: deployedNodes_def deployedOn_def)

lemma spec_closed:
  assumes "nodeSpec E server selfLog d n share = Inr spec"
    and "n \<in> set (deployedOn sid a)" "accessView sid a = accessView sid e" "closed e n"
    and "\<And>i. nd_ShareID n = Some i \<Longrightarrow> share = lookup (shares a) i"
  shows "np_Blocked spec"
proof -
  have blocked: "np_Blocked spec" if "\<not> nd_Enabled n \<or>
      (nd_ShareID n \<noteq> None \<and> (case share of None \<Rightarrow> True | Some sh \<Rightarrow> shareBlocks (be_now E) sh n))"
    using assms(1) that by (auto simp: nodeSpec_def elim!: bindR_InrE)
  from assms(4) consider "\<not> nd_Enabled n"
    | i where "nd_ShareID n = Some i" "case lookup (shares e) i of None \<Rightarrow> True | Some sh \<Rightarrow> NodeExhausted sh n \<or> sh_Status sh \<noteq> ShareActive"
    by (auto simp: closed_def)
  then show ?thesis
  proof cases
    case 1
    then show ?thesis using blocked by simp
  next
    case 2
    have "map_option (shareAccess n) (lookup (shares a) i) = map_option (shareAccess n) (lookup (shares e) i)"
      using nodeAccess_mem [OF assms(3,2)] 2(1) by (simp add: nodeAccess_def)
    then show ?thesis using blocked assms(5) [OF 2(1)] 2
      by (auto simp: shareAccess_def shareBlocks_def split: option.splits)
  qed
qed

lemma candidateGeneration_stamp [simp]: "candidateGeneration (ds\<lparr>ds_GeneratedAt := t\<rparr>) = candidateGeneration ds"
  by (simp add: candidateGeneration_def)

lemma publish_attempt_closed:
  fixes T :: "nat \<Rightarrow> db"
  assumes steps: "\<And>i j. i \<le> j \<Longrightarrow> access_step\<^sup>*\<^sup>* (T i) (T j)" and tr: "tracked sid (T 0)"
    and b: "Build E server T = Inr ds" "sv_ID server = sid"
    and p: "PublishDesired now expected (ds\<lparr>ds_GeneratedAt := t\<rparr>) force (T (lastQuery sid T)) = (Inr (r, True), d')"
    and spec: "spec \<in> set (ds_Nodes (dr_Payload (snd r)))"
    and n: "n \<in> set (nodes d')" "nd_ID n = np_NodeID spec" "nd_ServerID n = Some sid" "nd_Source n = NodeDeployed" "closed d' n"
    and ids: "distinct (map nd_ID (nodes (T 4)))"
  shows "np_Blocked spec"
proof -
  let ?L = "lastQuery sid T"
  note B = Build_E [OF b(1), unfolded b(2)]
  have gen: "networkGeneration sid (T ?L) = networkGeneration sid (T 3)"
    using PublishDesired_created(1) [OF p] B(1,3) by (simp add: publishGuard_ok)
  have view: "accessView sid (T i) = accessView sid (T ?L)" if i: "3 \<le> i" "i \<le> ?L" for i
  proof -
    have "networkGeneration sid (T ?L) = networkGeneration sid (T i)"
      using access.steps_mono [OF steps [OF i(1)], of sid] access.steps_mono [OF steps [OF i(2)], of sid] gen by simp
    moreover have "tracked sid (T i)" using access.steps_tracked [OF steps [of 0 i]] tr by simp
    ultimately show ?thesis using access.steps_view [OF steps [OF i(2)]] by metis
  qed
  have q: "nodes d' = nodes (T ?L)" "shares d' = shares (T ?L)"
    using PublishDesired_quiet [OF p] by (simp_all add: quiet_def)
  have nL: "n \<in> set (deployedOn sid (T ?L))" "closed (T ?L) n" using n q by (simp_all add: deployedOn_def closed_def)
  have n4: "n \<in> set (deployedOn sid (T 4))" using nodeAccess_mem [OF view [symmetric] nL(1)] by (simp add: lastQuery_def)
  have "spec \<in> set (ds_Nodes ds)" using spec PublishDesired_created(2) [OF p] by (simp add: newRow_def)
  then obtain m share where m: "m \<in> set (deployedNodes sid (T 4))" "nodeSpec E server (be_selfLog E (T 4)) (T 4) m share = Inr spec"
    and sh: "\<And>i. nd_ShareID m = Some i \<Longrightarrow> seen (\<lambda>j. T (5 + j)) (length (deployedNodes sid (T 4))) i share"
    using B(4) by (auto simp: list_all_iff spec_of_def)
  have "nd_ID m = np_NodeID spec" using m(2) by (auto simp: nodeSpec_def elim!: bindR_InrE)
  then have mn: "m = n"
    using m(1) n4 n(2) ids by (auto simp: deployedNodes_def deployedOn_def distinct_map inj_on_def)
  show ?thesis
  proof (cases "nd_ShareID n")
    case None
    then show ?thesis using spec_closed [OF m(2) [unfolded mn] n4 view nL(2)] by (simp add: lastQuery_def)
  next
    case (Some i)
    then obtain j where j: "j < length (deployedNodes sid (T 4))" "share = lookup (shares (T (5 + j))) i"
      using sh mn by (auto simp: seen_def)
    have le: "3 \<le> 5 + j" "5 + j \<le> ?L" using j(1) by (simp_all add: lastQuery_def)
    have "n \<in> set (deployedOn sid (T (5 + j)))" using nodeAccess_mem [OF view [OF le, symmetric] nL(1)] by simp
    from spec_closed [OF m(2) [unfolded mn] this view [OF le] nL(2)] j(2) Some show ?thesis by simp
  qed
qed


lemma access_step_nodes: "access_step d d' \<Longrightarrow> nodes d' = nodes d"
proof (induction rule: access_step.induct)
  case (access_settings d v old now)
  show ?case using writeShare_share_frame [of d now v] by (auto elim!: share_frame_E)
next
  case (access_usage d v old now)
  show ?case using writeUsage_share_frame [of d now v] by (auto elim!: share_frame_E)
next
  case (access_server d now s)
  show ?case using writeServer_frame [where d = d and now = now and v = s] by (auto elim!: gen_frame_E)
qed (use quiet_ops in \<open>auto simp: quiet_def\<close>)

lemma access_steps_nodes: "access_step\<^sup>*\<^sup>* d d' \<Longrightarrow> nodes d' = nodes d"
  by (induction rule: rtranclp_induct) (auto dest: access_step_nodes)

definition tame :: "PublishEnv \<Rightarrow> bool" where
  "tame P \<longleftrightarrow> (\<forall>k i d. access_step\<^sup>*\<^sup>* d (pe_others P k i d))"

text \<open>One attempt of the loop, by cases.\<close>

lemma publishLoop_cases:
  fixes d :: db and P :: PublishEnv
  defines "T \<equiv> \<lambda>k. trace (pe_others P k) d" and "E \<equiv> \<lambda>k. (pe_build P)\<lparr>be_now := pe_now P k\<rparr>"
  obtains (gone) "publishLoop P sid force (Suc left) k d = (Inl ErrNotFound, T k 2)" "lookup (servers (T k 2)) sid = None"
  | (unbuilt) e where "publishLoop P sid force (Suc left) k d = (Inl e, T k (lastQuery sid (T k)))"
  | (again) d1 where "publishLoop P sid force (Suc left) k d = publishLoop P sid force left (Suc k) d1"
      "d1 = T k (lastQuery sid (T k))"
  | (published) server ds r d' where "publishLoop P sid force (Suc left) k d = (r, d')"
      "lookup (servers (T k 2)) sid = Some server" "Build (E k) (server\<lparr>sv_ID := sid\<rparr>) (T k) = Inr ds"
      "PublishDesired (pe_now P k) (latestRevision sid (T k 0)) (ds\<lparr>ds_GeneratedAt := pe_now P k\<rparr>) force
         (T k (lastQuery sid (T k))) = (r, d')"
proof (cases "lookup (servers (T k 2)) sid")
  case None
  then show ?thesis using gone by (simp add: T_def)
next
  case (Some server)
  show ?thesis
  proof (cases "Build (E k) (server\<lparr>sv_ID := sid\<rparr>) (T k)")
    case (Inl e)
    then show ?thesis using Some unbuilt by (simp add: T_def E_def Let_def)
  next
    case (Inr ds)
    obtain r d' where p: "PublishDesired (pe_now P k) (latestRevision sid (T k 0)) (ds\<lparr>ds_GeneratedAt := pe_now P k\<rparr>) force
         (T k (lastQuery sid (T k))) = (r, d')" by fastforce
    have conflict: "d' = T k (lastQuery sid (T k))" if "r = Inl e" for e
      using p that by (auto simp: PublishDesired_def dest: Tx_error_rolls_back)
    show ?thesis
    proof (cases "networkGeneration sid (T k 1) \<noteq> ds_PublicationGeneration ds \<or> r = Inl ErrDesiredConflict")
      case True
      then have "publishLoop P sid force (Suc left) k d = publishLoop P sid force left (Suc k) (T k (lastQuery sid (T k)))"
        using Some Inr p conflict by (auto simp: T_def E_def Let_def)
      then show ?thesis using again by blast
    next
      case False
      then have "publishLoop P sid force (Suc left) k d = (r, d')"
        using Some Inr p by (auto simp: T_def E_def Let_def split: sum.splits)
      then show ?thesis using Some Inr p published by blast
    qed
  qed
qed

lemma publishLoop_closed:
  assumes "publishLoop P sid force left k d = (Inr (r, True), d')" "tame P" "tracked sid d" "distinct (map nd_ID (nodes d))"
    and spec: "spec \<in> set (ds_Nodes (dr_Payload (snd r)))"
    and n: "n \<in> set (nodes d')" "nd_ID n = np_NodeID spec" "nd_ServerID n = Some sid" "nd_Source n = NodeDeployed" "closed d' n"
  shows "np_Blocked spec"
  using assms(1,3,4)
proof (induction left arbitrary: k d)
  case 0
  then show ?case by simp
next
  case (Suc left)
  let ?T = "trace (pe_others P k) d"
  have steps: "i \<le> j \<Longrightarrow> access_step\<^sup>*\<^sup>* (?T i) (?T j)" for i j
    by (rule trace_steps) (use assms(2) in \<open>auto simp: tame_def\<close>)
  have from0: "access_step\<^sup>*\<^sup>* d (?T j)" for j using steps [of 0 j] by simp
  show ?case
  proof (cases rule: publishLoop_cases [of P sid force left k d])
    case (again d1)
    have "tracked sid d1" using access.steps_tracked [OF from0] Suc.prems(2) again(2) by simp
    moreover have "distinct (map nd_ID (nodes d1))" using access_steps_nodes [OF from0] Suc.prems(3) again(2) by simp
    ultimately show ?thesis using Suc.IH Suc.prems(1) again(1) by simp
  next
    case (published server ds r0 e)
    then have "r0 = Inr (r, True)" "e = d'" using Suc.prems(1) by simp_all
    with published publish_attempt_closed [OF steps _ published(3) _ _ spec n] Suc.prems(2,3) access_steps_nodes [OF from0]
    show ?thesis by simp
  qed (use Suc.prems(1) in simp_all)
qed

lemma publishLoop_steps:
  assumes "publishLoop P sid force left k d = (r, d')" "tame P"
  shows "access_step\<^sup>*\<^sup>* d d'"
  using assms(1)
proof (induction left arbitrary: k d)
  case 0
  then show ?case by simp
next
  case (Suc left)
  have from0: "access_step\<^sup>*\<^sup>* d (trace (pe_others P k) d j)" for j
    using trace_steps [of "pe_others P k" 0 j d] assms(2) by (simp add: tame_def)
  show ?case
  proof (cases rule: publishLoop_cases [of P sid force left k d])
    case (again d1)
    then show ?thesis using Suc.IH Suc.prems from0 by (metis rtranclp_trans)
  next
    case (published server ds r0 e)
    then have "access_step (trace (pe_others P k) d (lastQuery sid (trace (pe_others P k) d))) d'"
      using Suc.prems by (auto intro: access_publish)
    then show ?thesis using from0 by (rule rtranclp.rtrancl_into_rtrancl [rotated])
  qed (use Suc.prems from0 in auto)
qed

section \<open>Publication succeeds when nobody interferes\<close>

lemma trace_still: "(\<And>i d. others i d = d) \<Longrightarrow> trace others d i = d"
  by (induction i) simp_all

lemma publish_alone:
  assumes "\<And>i d. pe_others P 0 i d = d" and server: "lookup (servers d) sid = Some server"
    and build: "Build ((pe_build P)\<lparr>be_now := pe_now P 0\<rparr>) (server\<lparr>sv_ID := sid\<rparr>) (\<lambda>_. d) = Inr ds"
    and "tracked sid d" "sid \<notin> set (maintenance_active d)"
  shows "\<exists>r d'. publish P sid force d = (Inr r, d') \<and> publicationCurrent sid d'"
proof -
  let ?c = "ds\<lparr>ds_GeneratedAt := pe_now P 0\<rparr>"
  have T: "trace (pe_others P 0) d = (\<lambda>_. d)" by (rule ext) (simp add: trace_still assms(1))
  have c: "ds_ServerID ?c = sid" "candidateGeneration ?c = networkGeneration sid d"
    "ds_PublicationGeneration ds = networkGeneration sid d"
    using Build_E [OF build] by simp_all
  have guard: "publishGuard (latestRevision sid d) ?c d = Inr ()" using c assms(5) by (simp add: publishGuard_ok)
  obtain r d' where p: "PublishDesired (pe_now P 0) (latestRevision sid d) ?c force d = (Inr r, d')"
    and cur: "publicationCurrent sid d'"
  proof (cases "unchanged ?c force d")
    case None
    let ?row = "newRow (?c\<lparr>ds_Revision := latestRevision sid d + 1\<rparr>) (ds_Hash ?c) (pe_now P 0)"
    let ?out = "((sid, latestRevision sid d + 1), ?row)" and ?e = "insertRevision sid (latestRevision sid d + 1) ?row d"
    have g: "networkGeneration sid ?e = networkGeneration sid d" "lookup (servers ?e) sid = Some server"
      "lookup (server_network_generations ?e) sid \<noteq> None"
      using server assms(4) by (simp_all add: insertRevision_def networkGeneration_def tracked_def)
    obtain d1 where fin: "finishPublication (pe_now P 0) ?out (networkGeneration sid ?e) ?e = Inr d1"
      using g(2) by (simp add: finishPublication_def captureNodeCandidates_def)
    have "publicationCurrent sid d1"
      using finishPublication_generation(2) [of "pe_now P 0" ?out ?e d1] fin g(3) by simp
    then show ?thesis using that [of "(?out, True)" d1] None guard fin g(1) c(1)
      by (simp add: PublishDesired_def publishTx_def Tx_def Let_def)
  next
    case (Some q)
    then have q: "fst (fst q) = sid"
      using c(1) desiredRows_hd [of sid d] by (auto simp: unchanged_def Let_def split: list.splits if_splits)
    obtain d1 where fin: "finishPublication (pe_now P 0) q (networkGeneration sid d) d = Inr d1"
      using server q by (cases q) (auto simp: finishPublication_def captureNodeCandidates_def)
    have "publicationCurrent sid d1"
      using finishPublication_generation(2) [of "pe_now P 0" q d d1] fin assms(4) q by (simp add: tracked_def)
    then show ?thesis using that [of "(q, False)" d1] Some guard fin c(1)
      by (simp add: PublishDesired_def publishTx_def Tx_def Let_def)
  qed
  have "publishLoop P sid force (Suc left) 0 d = (Inr r, d')" for left
    using server build c p by (simp add: T Let_def)
  from this [of 7] have "publish P sid force d = (Inr r, d')" by (simp add: publish_def)
  with cur show ?thesis by blast
qed

end
