(* ===== verification/Shares.thy ===== *)
theory Shares
  imports Desired Ingest
begin

text \<open>
  Customer shares: the rows and their guarded updates (\<^verbatim>\<open>internal/store/shares.go\<close>) and the
  manager that runs their state machine (\<^verbatim>\<open>internal/share/share.go\<close>). Between the moment a
  share is read and the moment a decision about it is written, other requests may commit;
  \<open>mg_others\<close> is what they do. The manager's clock and the store's clock are separate fields,
  as they are in the code; the notification hook \<^verbatim>\<open>OnEvent\<close> is outside the model.
\<close>

section \<open>Rows\<close>

definition GetShare :: "i64 \<Rightarrow> db \<Rightarrow> Share res" where
  "GetShare i d = (case lookup (shares d) i of None \<Rightarrow> Inl ErrNotFound | Some sh \<Rightarrow> Inr sh)"

definition ListShares :: "i64 option \<Rightarrow> db \<Rightarrow> Share list" where
  "ListShares userID d = map snd (sort_key fst
     (filter (\<lambda>(_, sh). case userID of None \<Rightarrow> True | Some u \<Rightarrow> sh_UserID sh = Some u) (shares d)))"

definition shareArgs :: "Share \<Rightarrow> Share" where
  "shareArgs v = v\<lparr>sh_BillingMode := (if sh_BillingMode v = '''' then BillingDual else sh_BillingMode v)\<rparr>"

text \<open>\<open>fresh\<close> is the row ID SQLite assigns.\<close>

definition CreateShare :: "time \<Rightarrow> i64 \<Rightarrow> Share \<Rightarrow> db \<Rightarrow> Share res \<times> db" where
  "CreateShare now fresh v d =
     (if \<not> ValidTrafficTotals (sh_UsedUpload v) (sh_UsedDownload v) then (Inl (Err ''invalid share traffic totals''), d)
      else
        let v' = (shareArgs v)\<lparr>sh_ID := fresh, sh_NodeUsage := Map.empty, sh_CreatedAt := now, sh_UpdatedAt := now,
              sh_PeriodStart := (if IsZero (sh_PeriodStart v) then now else sh_PeriodStart v)\<rparr>
        in (Inr v', d\<lparr>shares := shares d @ [(fresh, v')]\<rparr>))"

definition UpdateShare :: "time \<Rightarrow> Share \<Rightarrow> db \<Rightarrow> unit res \<times> db" where
  "UpdateShare now v d =
     (if \<not> ValidTrafficTotals (sh_UsedUpload v) (sh_UsedDownload v) then (Inl (Err ''invalid share traffic totals''), d)
      else case lookup (shares d) (sh_ID v) of
             None \<Rightarrow> (Inr (), d)
           | Some old \<Rightarrow>
               (Inr (), writeShare now ((shareArgs v)\<lparr>sh_NodeUsage := sh_NodeUsage old, sh_CreatedAt := sh_CreatedAt old,
                  sh_UpdatedAt := now\<rparr>) d))"

definition updateShareSettings :: "time \<Rightarrow> Share \<Rightarrow> db \<Rightarrow> db" where
  "updateShareSettings now v d =
     (case lookup (shares d) (sh_ID v) of None \<Rightarrow> d
      | Some old \<Rightarrow>
          writeShare now (old\<lparr>sh_ID := sh_ID v, sh_Name := sh_Name v, sh_UserID := sh_UserID v, sh_Targets := sh_Targets v,
            sh_ExtraNodeIDs := sh_ExtraNodeIDs v, sh_QuotaBytes := sh_QuotaBytes v, sh_BillingMode := sh_BillingMode v,
            sh_ResetDay := sh_ResetDay v, sh_ExpiresAt := sh_ExpiresAt v, sh_TemplateID := sh_TemplateID v,
            sh_ConnlogEnabled := sh_ConnlogEnabled v, sh_Notes := sh_Notes v, sh_UpdatedAt := now\<rparr>) d)"

definition addUsageTx :: "time \<Rightarrow> i64 \<Rightarrow> i64 \<Rightarrow> i64 \<Rightarrow> db \<Rightarrow> ((i64 \<times> i64) \<times> db) res" where
  "addUsageTx now i up down d =
     (case lookup (shares d) i of None \<Rightarrow> Inl ErrNoRows
      | Some sh \<Rightarrow>
        if \<not> ValidTrafficTotals (sh_UsedUpload sh) (sh_UsedDownload sh) \<or>
           \<not> ValidTrafficTotals (Total (sh_UsedUpload sh) (sh_UsedDownload sh)) (Total up down)
        then Inl (Err ''share traffic total overflow'')
        else
          let usedUp = add64 (sh_UsedUpload sh) up; usedDown = add64 (sh_UsedDownload sh) down
          in Inr ((usedUp, usedDown),
               writeShare now (sh\<lparr>sh_ID := i, sh_UsedUpload := usedUp, sh_UsedDownload := usedDown, sh_UpdatedAt := now\<rparr>) d))"

definition AddShareUsage :: "time \<Rightarrow> i64 \<Rightarrow> i64 \<Rightarrow> i64 \<Rightarrow> db \<Rightarrow> (i64 \<times> i64) res \<times> db" where
  "AddShareUsage now i up down d =
     (if \<not> ValidTrafficTotals up down then (Inl (Err ''invalid share traffic delta''), d)
      else Tx d (addUsageTx now i up down))"

definition ResetShareUsage :: "time \<Rightarrow> i64 \<Rightarrow> time \<Rightarrow> db \<Rightarrow> db" where
  "ResetShareUsage now i periodStart d =
     (case lookup (shares d) i of None \<Rightarrow> d
      | Some sh \<Rightarrow>
          writeUsage now (sh\<lparr>sh_ID := i, sh_NodeUsage := Map.empty, sh_UsedUpload := 0, sh_UsedDownload := 0,
            sh_PeriodStart := periodStart, sh_UpdatedAt := now\<rparr>) d)"

definition ResetShareUsageIfBefore :: "time \<Rightarrow> i64 \<Rightarrow> int \<Rightarrow> time \<Rightarrow> db \<Rightarrow> bool res \<times> db" where
  "ResetShareUsageIfBefore now i resetDay periodStart d =
     (if resetDay \<le> 0 \<or> IsZero periodStart then (Inr False, d)
      else case lookup (shares d) i of
             None \<Rightarrow> (Inl ErrNoRows, d)
           | Some sh \<Rightarrow>
               if sh_ResetDay sh \<noteq> resetDay \<or> \<not> periodStart > sh_PeriodStart sh then (Inr False, d)
               else (Inr True, writeUsage now ((rollShare periodStart sh)\<lparr>sh_ID := i, sh_UpdatedAt := now\<rparr>) d))"

text \<open>What the conditional update compares.\<close>

definition snapshotHolds :: "Share \<Rightarrow> Share \<Rightarrow> bool" where
  "snapshotHolds snapshot sh \<longleftrightarrow> sh_Status sh = sh_Status snapshot \<and> sh_BillingMode sh = sh_BillingMode snapshot \<and>
     sh_QuotaBytes sh = sh_QuotaBytes snapshot \<and> sh_ResetDay sh = sh_ResetDay snapshot \<and>
     sh_ExpiresAt sh = sh_ExpiresAt snapshot \<and> sh_UsedUpload sh = sh_UsedUpload snapshot \<and>
     sh_UsedDownload sh = sh_UsedDownload snapshot \<and> sh_PeriodStart sh = sh_PeriodStart snapshot"

definition SetShareEvaluatedStatus :: "time \<Rightarrow> Share \<Rightarrow> ShareStatus \<Rightarrow> db \<Rightarrow> bool \<times> db" where
  "SetShareEvaluatedStatus now snapshot next d =
     (if sh_Status snapshot = SharePaused \<or> sh_Status snapshot = ShareRevoked then (False, d)
      else case lookup (shares d) (sh_ID snapshot) of
             None \<Rightarrow> (False, d)
           | Some sh \<Rightarrow>
               if snapshotHolds snapshot sh
               then (True, writeShare now (sh\<lparr>sh_ID := sh_ID snapshot, sh_Status := next, sh_UpdatedAt := now\<rparr>) d)
               else (False, d))"

definition SetShareStatus :: "time \<Rightarrow> i64 \<Rightarrow> ShareStatus \<Rightarrow> db \<Rightarrow> db" where
  "SetShareStatus now i st d =
     (case lookup (shares d) i of None \<Rightarrow> d
      | Some sh \<Rightarrow> writeShare now (sh\<lparr>sh_ID := i, sh_Status := st, sh_UpdatedAt := now\<rparr>) d)"

definition AddShareEvent :: "time \<Rightarrow> i64 \<Rightarrow> string \<Rightarrow> string \<Rightarrow> db \<Rightarrow> db" where
  "AddShareEvent now i kind detail d =
     d\<lparr>share_events := share_events d @ [\<lparr>se_ID = 1 + fold max (map se_ID (share_events d)) 0, se_ShareID = i,
        se_TS = now, se_Kind = kind, se_Detail = detail\<rparr>]\<rparr>"

definition ListShareEvents :: "i64 \<Rightarrow> int \<Rightarrow> db \<Rightarrow> ShareEvent list" where
  "ListShareEvents i limit d =
     take (nat (if limit \<le> 0 then 100 else limit))
       (rev (sort_key se_ID (filter (\<lambda>e. se_ShareID e = i) (share_events d))))"

section \<open>The manager\<close>

record Manager =
  mg_publisher :: PublishEnv
  mg_now :: "nat \<Rightarrow> time"
  mg_store :: time
  mg_others :: "nat \<Rightarrow> db \<Rightarrow> db"

definition shareFilter :: "i64 \<Rightarrow> NodeFilter" where
  "shareFilter i = no_filter\<lparr>nf_ShareID := Some i, nf_IncludeRevoked := True\<rparr>"

text \<open>The servers of a share's nodes, each once, in the order they are met.\<close>

definition nodeServers :: "i64 \<Rightarrow> db \<Rightarrow> i64 list" where
  "nodeServers i d = rev (remdups (rev (List.map_filter nd_ServerID (ListNodes (shareFilter i) d))))"

definition republishShareServers :: "Manager \<Rightarrow> i64 \<Rightarrow> db \<Rightarrow> unit res \<times> db" where
  "republishShareServers M i d = publishEach (mg_publisher M) (nodeServers i d) d"

definition expired :: "time \<Rightarrow> Share \<Rightarrow> bool" where
  "expired now sh = (case sh_ExpiresAt sh of None \<Rightarrow> False | Some e \<Rightarrow> \<not> now < e)"

definition overQuota :: "Share \<Rightarrow> bool" where
  "overQuota sh \<longleftrightarrow> sh_QuotaBytes sh > 0 \<and>
     QuotaBilled (sh_BillingMode sh) (sh_UsedUpload sh) (sh_UsedDownload sh) \<ge> sh_QuotaBytes sh"

definition nextStatus :: "time \<Rightarrow> Share \<Rightarrow> ShareStatus" where
  "nextStatus now sh =
     (let next0 = (if expired now sh then ShareExpired
                   else if sh_Status sh = ShareExpired then ShareActive else sh_Status sh)
      in if next0 \<noteq> ShareExpired then
           (if overQuota sh then ShareExhausted else if next0 = ShareExhausted then ShareActive else next0)
         else next0)"

definition hasNodeQuota :: "Share \<Rightarrow> bool" where
  "hasNodeQuota sh = list_ex (\<lambda>t. list_ex (\<lambda>(_, quota). quota > 0) (st_QuotaBytes t)) (sh_Targets sh)"

text \<open>A status as the event log shows it; dates are day numbers.\<close>

definition statusText :: "ShareStatus \<Rightarrow> string" where
  "statusText st = (case st of ShareActive \<Rightarrow> ''active'' | SharePaused \<Rightarrow> ''paused'' | ShareExhausted \<Rightarrow> ''exhausted''
     | ShareExpired \<Rightarrow> ''expired'' | ShareRevoked \<Rightarrow> ''revoked'')"

text \<open>\<open>left\<close> counts the attempts that remain after this one; the code starts with two.\<close>

fun evaluateAttempt :: "Manager \<Rightarrow> i64 \<Rightarrow> nat \<Rightarrow> db \<Rightarrow> unit res \<times> db" where
  "evaluateAttempt M i left d =
     (case lookup (shares d) i of
        None \<Rightarrow> (Inl ErrNotFound, d)
      | Some sh \<Rightarrow>
        let now = mg_now M left; ps = PeriodStart now (sh_ResetDay sh); d1 = mg_others M left d;
            again = (\<lambda>e. case left of 0 \<Rightarrow> (Inr (), e) | Suc k \<Rightarrow> evaluateAttempt M i k e)
        in if sh_Status sh = ShareRevoked \<or> sh_Status sh = SharePaused then (Inr (), d)
           else if sh_ResetDay sh > 0 \<and> ps > sh_PeriodStart sh then
             (case ResetShareUsageIfBefore (mg_store M) i (sh_ResetDay sh) ps d1 of
                (Inl e, d2) \<Rightarrow> (Inl e, d2)
              | (Inr changed, d2) \<Rightarrow>
                  if changed then
                    (case republishShareServers M i (AddShareEvent (mg_store M) i ''period_reset'' (show_int (day_of ps)) d2) of
                       (Inl e, d3) \<Rightarrow> (Inl e, d3)
                     | (Inr _, d3) \<Rightarrow> again d3)
                  else again d2)
           else
             let next = nextStatus now sh
             in if next \<noteq> sh_Status sh then
                  (case SetShareEvaluatedStatus (mg_store M) (sh\<lparr>sh_ID := i\<rparr>) next d1 of
                     (False, d2) \<Rightarrow> again d2
                   | (True, d2) \<Rightarrow> republishShareServers M i (AddShareEvent (mg_store M) i ''status'' (statusText next) d2))
                else if hasNodeQuota sh then republishShareServers M i d
                else (Inr (), d))"

declare evaluateAttempt.simps [simp del]

definition evaluate :: "Manager \<Rightarrow> i64 \<Rightarrow> db \<Rightarrow> unit res \<times> db" where
  "evaluate M i d = evaluateAttempt M i 2 d"

fun evaluateAll :: "Manager \<Rightarrow> i64 list \<Rightarrow> db \<Rightarrow> unit res \<times> db" where
  "evaluateAll M [] d = (Inr (), d)"
| "evaluateAll M (i # is) d = (case evaluate M i d of (Inl e, d') \<Rightarrow> (Inl e, d') | (Inr _, d') \<Rightarrow> evaluateAll M is d')"

definition Tick :: "Manager \<Rightarrow> db \<Rightarrow> unit res \<times> db" where
  "Tick M d = evaluateAll M (map sh_ID (ListShares None d)) d"

fun ApplyDeltas :: "Manager \<Rightarrow> ShareDelta list \<Rightarrow> db \<Rightarrow> unit res \<times> db" where
  "ApplyDeltas M [] d = (Inr (), d)"
| "ApplyDeltas M (x # xs) d =
     (case AddShareUsage (mg_store M) (sd_ShareID x) (sd_Up x) (sd_Down x) d of
        (Inl e, d1) \<Rightarrow> (Inl e, d1)
      | (Inr _, d1) \<Rightarrow>
          (case evaluate M (sd_ShareID x) d1 of (Inl e, d2) \<Rightarrow> (Inl e, d2) | (Inr _, d2) \<Rightarrow> ApplyDeltas M xs d2))"

fun EvaluateDeltas :: "Manager \<Rightarrow> ShareDelta list \<Rightarrow> db \<Rightarrow> unit res \<times> db" where
  "EvaluateDeltas M [] d = (Inr (), d)"
| "EvaluateDeltas M (x # xs) d =
     (case (if sd_PeriodReset x then republishShareServers M (sd_ShareID x) d else (Inr (), d)) of
        (Inl e, d1) \<Rightarrow> (Inl e, d1)
      | (Inr _, d1) \<Rightarrow>
          (case evaluate M (sd_ShareID x) d1 of (Inl e, d2) \<Rightarrow> (Inl e, d2) | (Inr _, d2) \<Rightarrow> EvaluateDeltas M xs d2))"

definition SetConnlogEnabled :: "Manager \<Rightarrow> i64 \<Rightarrow> bool \<Rightarrow> db \<Rightarrow> unit res \<times> db" where
  "SetConnlogEnabled M i enabled d =
     (case lookup (shares d) i of
        None \<Rightarrow> (Inl ErrNotFound, d)
      | Some sh \<Rightarrow>
        if sh_ConnlogEnabled sh = enabled then (Inr (), d)
        else
          (case UpdateShare (mg_store M) (sh\<lparr>sh_ID := i, sh_ConnlogEnabled := enabled\<rparr>) (mg_others M 0 d) of
             (Inl e, d1) \<Rightarrow> (Inl e, d1)
           | (Inr _, d1) \<Rightarrow> republishShareServers M i d1))"

definition Pause :: "Manager \<Rightarrow> i64 \<Rightarrow> db \<Rightarrow> unit res \<times> db" where
  "Pause M i d =
     (case lookup (shares d) i of
        None \<Rightarrow> (Inl ErrNotFound, d)
      | Some sh \<Rightarrow>
        if sh_Status sh = ShareRevoked then (Inl (Err ''a revoked share cannot be paused''), d)
        else republishShareServers M i
          (AddShareEvent (mg_store M) i ''paused'' '''' (SetShareStatus (mg_store M) i SharePaused (mg_others M 0 d))))"

definition Resume :: "Manager \<Rightarrow> i64 \<Rightarrow> db \<Rightarrow> unit res \<times> db" where
  "Resume M i d =
     (case lookup (shares d) i of
        None \<Rightarrow> (Inl ErrNotFound, d)
      | Some sh \<Rightarrow>
        if sh_Status sh = ShareRevoked then (Inl (Err ''a revoked share must be reissued''), d)
        else
          (case republishShareServers M i
                  (AddShareEvent (mg_store M) i ''resumed'' '''' (SetShareStatus (mg_store M) i ShareActive (mg_others M 0 d))) of
             (Inl e, d1) \<Rightarrow> (Inl e, d1)
           | (Inr _, d1) \<Rightarrow> evaluate M i d1))"

definition ResetUsage :: "Manager \<Rightarrow> i64 \<Rightarrow> db \<Rightarrow> unit res \<times> db" where
  "ResetUsage M i d =
     (case lookup (shares d) i of
        None \<Rightarrow> (Inl ErrNotFound, d)
      | Some sh \<Rightarrow>
          (case republishShareServers M i
                  (AddShareEvent (mg_store M) i ''manual_reset'' '''' (ResetShareUsage (mg_store M) i (mg_now M 0) (mg_others M 0 d))) of
             (Inl e, d1) \<Rightarrow> (Inl e, d1)
           | (Inr _, d1) \<Rightarrow> evaluate M i d1))"

record ShareUsage =
  ug_Used :: i64
  ug_Billed :: i64
  ug_BillingMode :: string
  ug_Inbound :: i64
  ug_Outbound :: i64
  ug_Total :: i64
  ug_OneWay :: i64
  ug_TwoWay :: i64
  ug_Quota :: i64
  ug_NextReset :: "time option"
  ug_Remaining :: i64

definition UsageOf :: "time \<Rightarrow> Share \<Rightarrow> ShareUsage" where
  "UsageOf now sh =
     (let mode = (case NormalizeQuotaBilling (sh_BillingMode sh) of (m, ok) \<Rightarrow> if ok then m else BillingDual);
          billed = QuotaBilled mode (sh_UsedUpload sh) (sh_UsedDownload sh);
          left = sub64 (sh_QuotaBytes sh) billed
      in \<lparr>ug_Used = billed, ug_Billed = billed, ug_BillingMode = mode, ug_Inbound = sh_UsedUpload sh, ug_Outbound = sh_UsedDownload sh,
          ug_Total = Total (sh_UsedUpload sh) (sh_UsedDownload sh),
          ug_OneWay = sh_UsedDownload sh, ug_TwoWay = Total (sh_UsedUpload sh) (sh_UsedDownload sh), ug_Quota = sh_QuotaBytes sh,
          ug_NextReset = (if sh_ResetDay sh > 0 then Some (NextReset now (sh_ResetDay sh)) else None),
          ug_Remaining = (if sh_QuotaBytes sh > 0 then (if left < 0 then 0 else left) else - 1)\<rparr>)"

section \<open>The state machine\<close>

definition manual :: "ShareStatus \<Rightarrow> bool" where
  "manual st \<longleftrightarrow> st = SharePaused \<or> st = ShareRevoked"

text \<open>Expiry takes precedence over exhaustion, whatever the automatic status was.\<close>

lemma nextStatus_automatic:
  "\<not> manual (sh_Status sh) \<Longrightarrow>
   nextStatus now sh = (if expired now sh then ShareExpired else if overQuota sh then ShareExhausted else ShareActive)"
  by (cases "sh_Status sh") (simp_all add: nextStatus_def manual_def Let_def)

lemma nextStatus_not_manual: "\<not> manual (sh_Status sh) \<Longrightarrow> \<not> manual (nextStatus now sh)"
  by (simp add: nextStatus_automatic manual_def)

lemma nextStatus_snapshot: "snapshotHolds snapshot sh \<Longrightarrow> nextStatus now sh = nextStatus now snapshot"
  by (simp add: nextStatus_def snapshotHolds_def expired_def overQuota_def)

lemma nextStatus_cong:
  "sh_Status a = nextStatus now b \<Longrightarrow> \<not> manual (sh_Status b) \<Longrightarrow> expired now a = expired now b \<Longrightarrow>
   overQuota a = overQuota b \<Longrightarrow> nextStatus now a = sh_Status a"
  using nextStatus_not_manual [of b now] nextStatus_automatic [of a now] nextStatus_automatic [of b now] by metis

text \<open>The conditional update writes exactly when the row still is what was evaluated.\<close>

lemma SetShareEvaluatedStatus_cases:
  obtains (lost) "SetShareEvaluatedStatus now snapshot next d = (False, d)"
  | (won) sh where "lookup (shares d) (sh_ID snapshot) = Some sh" "snapshotHolds snapshot sh" "\<not> manual (sh_Status sh)"
      "SetShareEvaluatedStatus now snapshot next d =
         (True, writeShare now (sh\<lparr>sh_ID := sh_ID snapshot, sh_Status := next, sh_UpdatedAt := now\<rparr>) d)"
proof (cases "fst (SetShareEvaluatedStatus now snapshot next d)")
  case True
  then show ?thesis using won
    by (auto simp: SetShareEvaluatedStatus_def manual_def snapshotHolds_def split: if_splits option.splits)
next
  case False
  then have "SetShareEvaluatedStatus now snapshot next d = (False, d)"
    by (auto simp: SetShareEvaluatedStatus_def split: if_splits option.splits)
  with lost show ?thesis by blast
qed

lemma ResetShareUsageIfBefore_cases:
  obtains (missing) "ResetShareUsageIfBefore now i day ps d = (Inl ErrNoRows, d)"
  | (kept) "ResetShareUsageIfBefore now i day ps d = (Inr False, d)"
  | (rolled) sh where "lookup (shares d) i = Some sh" "sh_ResetDay sh = day" "sh_PeriodStart sh < ps"
      "ResetShareUsageIfBefore now i day ps d =
         (Inr True, writeUsage now ((rollShare ps sh)\<lparr>sh_ID := i, sh_UpdatedAt := now\<rparr>) d)"
proof (cases "lookup (shares d) i")
  case None
  then show ?thesis using missing kept by (cases "day \<le> 0 \<or> IsZero ps") (auto simp: ResetShareUsageIfBefore_def)
next
  case (Some sh)
  show ?thesis
  proof (cases "day \<le> 0 \<or> IsZero ps \<or> sh_ResetDay sh \<noteq> day \<or> \<not> sh_PeriodStart sh < ps")
    case True
    then have "ResetShareUsageIfBefore now i day ps d = (Inr False, d)"
      using Some by (auto simp: ResetShareUsageIfBefore_def)
    then show ?thesis by (rule kept)
  next
    case False
    then have "ResetShareUsageIfBefore now i day ps d =
         (Inr True, writeUsage now ((rollShare ps sh)\<lparr>sh_ID := i, sh_UpdatedAt := now\<rparr>) d)"
      using Some by (simp add: ResetShareUsageIfBefore_def)
    then show ?thesis using Some False rolled by blast
  qed
qed

lemma shares_AddShareEvent [simp]: "shares (AddShareEvent now i kind detail d) = shares d"
  by (simp add: AddShareEvent_def)

section \<open>Usage\<close>

definition totals_valid :: "Share \<Rightarrow> bool" where
  "totals_valid sh \<longleftrightarrow> 0 \<le> sh_UsedUpload sh \<and> 0 \<le> sh_UsedDownload sh \<and> sh_UsedUpload sh + sh_UsedDownload sh \<le> MaxInt64"

definition totals_ok :: "db \<Rightarrow> bool" where
  "totals_ok d \<longleftrightarrow> (\<forall>i sh. lookup (shares d) i = Some sh \<longrightarrow> totals_valid sh)"

lemma totals_ok_shares: "shares d' = shares d \<Longrightarrow> totals_ok d \<Longrightarrow> totals_ok d'"
  by (simp add: totals_ok_def)

lemma totals_ok_write:
  "totals_ok d \<Longrightarrow> totals_valid v \<Longrightarrow> totals_ok (writeShare now v d)"
  "totals_ok d \<Longrightarrow> totals_valid v \<Longrightarrow> totals_ok (writeUsage now v d)"
  by (auto simp: totals_ok_def split: if_splits)

lemma totals_ok_row: "totals_ok d \<Longrightarrow> lookup (shares d) i = Some sh \<Longrightarrow> totals_valid sh"
  by (simp add: totals_ok_def)

text \<open>Usage is added without wrap-around, or not at all.\<close>

lemma AddShareUsage_cases:
  obtains (refused) e where "AddShareUsage now i up down d = (Inl e, d)"
  | (added) sh where "lookup (shares d) i = Some sh" "ValidTrafficTotals up down"
      "ValidTrafficTotals (sh_UsedUpload sh) (sh_UsedDownload sh)"
      "ValidTrafficTotals (Total (sh_UsedUpload sh) (sh_UsedDownload sh)) (Total up down)"
      "AddShareUsage now i up down d = (Inr (add64 (sh_UsedUpload sh) up, add64 (sh_UsedDownload sh) down),
         writeShare now (sh\<lparr>sh_ID := i, sh_UsedUpload := add64 (sh_UsedUpload sh) up,
         sh_UsedDownload := add64 (sh_UsedDownload sh) down, sh_UpdatedAt := now\<rparr>) d)"
proof (cases "\<exists>e. AddShareUsage now i up down d = (Inl e, d)")
  case False
  then show ?thesis using added
    by (cases "lookup (shares d) i") (auto simp: AddShareUsage_def addUsageTx_def Tx_def Let_def split: if_splits)
qed (use refused in blast)

lemma AddShareUsage_exact:
  assumes "totals_ok d" "in64 up" "in64 down" "AddShareUsage now i up down d = (Inr (u, v), d')"
  shows "\<exists>sh sh'. lookup (shares d) i = Some sh \<and> lookup (shares d') i = Some sh' \<and>
    u = sh_UsedUpload sh + up \<and> v = sh_UsedDownload sh + down \<and>
    sh_UsedUpload sh' = u \<and> sh_UsedDownload sh' = v \<and> totals_valid sh'"
proof (cases rule: AddShareUsage_cases [of now i up down d])
  case (refused e)
  with assms show ?thesis by simp
next
  case (added sh)
  have old: "totals_valid sh" using assms(1) added(1) by (rule totals_ok_row)
  have new: "0 \<le> up" "0 \<le> down" "up + down \<le> MaxInt64" using added(2) assms(2,3) by (simp_all add: ValidTrafficTotals_iff)
  have "Total (sh_UsedUpload sh) (sh_UsedDownload sh) = sh_UsedUpload sh + sh_UsedDownload sh" "Total up down = up + down"
    using old new by (simp_all add: totals_valid_def Total_exact)
  moreover have "in64 (sh_UsedUpload sh + sh_UsedDownload sh)" "in64 (up + down)"
    using old new by (simp_all add: totals_valid_def in64_def)
  ultimately have sum: "sh_UsedUpload sh + sh_UsedDownload sh + (up + down) \<le> MaxInt64"
    using added(4) by (simp add: ValidTrafficTotals_iff)
  have "add64 (sh_UsedUpload sh) up = sh_UsedUpload sh + up" "add64 (sh_UsedDownload sh) down = sh_UsedDownload sh + down"
    using old new sum by (simp_all add: totals_valid_def int64_simps)
  then show ?thesis using added assms(4) old new sum by (auto simp: totals_valid_def)
qed

text \<open>Every operation on the rows keeps the totals of every share in range.\<close>

lemma lookup_append: "lookup (t @ u) k = (case lookup t k of None \<Rightarrow> lookup u k | Some x \<Rightarrow> Some x)"
  by (induction t) auto

lemma CreateShare_totals:
  "totals_ok d \<Longrightarrow> in64 (sh_UsedUpload v) \<Longrightarrow> in64 (sh_UsedDownload v) \<Longrightarrow> totals_ok (snd (CreateShare now fresh v d))"
  by (auto simp: CreateShare_def totals_ok_def totals_valid_def ValidTrafficTotals_iff shareArgs_def Let_def
      lookup_append split: option.splits if_splits)

lemma UpdateShare_totals:
  assumes "totals_ok d" "in64 (sh_UsedUpload v)" "in64 (sh_UsedDownload v)"
  shows "totals_ok (snd (UpdateShare now v d))"
proof (cases "ValidTrafficTotals (sh_UsedUpload v) (sh_UsedDownload v)")
  case True
  then have "totals_valid v" using assms(2,3) by (simp add: ValidTrafficTotals_iff totals_valid_def)
  then show ?thesis using True assms(1)
    by (auto simp: UpdateShare_def totals_valid_def shareArgs_def split: option.splits intro!: totals_ok_write)
qed (use assms in \<open>simp add: UpdateShare_def\<close>)

lemma AddShareUsage_totals:
  assumes "totals_ok d" "in64 up" "in64 down"
  shows "totals_ok (snd (AddShareUsage now i up down d))"
proof (cases rule: AddShareUsage_cases [of now i up down d])
  case (refused e)
  with assms show ?thesis by simp
next
  case (added sh)
  obtain sh' where "lookup (shares (snd (AddShareUsage now i up down d))) i = Some sh'" "totals_valid sh'"
    using AddShareUsage_exact [OF assms] added(5) by (metis snd_conv)
  then show ?thesis using added assms(1) by (auto simp: totals_ok_def)
qed

lemma row_totals:
  assumes "totals_ok d"
  shows "totals_ok (updateShareSettings now v d)" "totals_ok (ResetShareUsage now i ps d)"
    "totals_ok (SetShareStatus now i st d)" "totals_ok (snd (ResetShareUsageIfBefore now i day ps d))"
    "totals_ok (snd (SetShareEvaluatedStatus now snapshot next d))" "totals_ok (AddShareEvent now i kind detail d)"
proof -
  show "totals_ok (updateShareSettings now v d)" "totals_ok (SetShareStatus now i st d)" "totals_ok (ResetShareUsage now i ps d)"
    using assms totals_ok_row [OF assms]
    by (auto simp: updateShareSettings_def SetShareStatus_def ResetShareUsage_def totals_valid_def
        split: option.splits intro!: totals_ok_write)
  show "totals_ok (snd (ResetShareUsageIfBefore now i day ps d))"
    by (rule ResetShareUsageIfBefore_cases [of now i day ps d])
       (use assms in \<open>auto simp: rollShare_def totals_valid_def intro!: totals_ok_write\<close>)
  show "totals_ok (snd (SetShareEvaluatedStatus now snapshot next d))"
    by (rule SetShareEvaluatedStatus_cases [of now snapshot "next" d])
       (use assms totals_ok_row [OF assms] in \<open>auto simp: totals_valid_def intro!: totals_ok_write\<close>)
  show "totals_ok (AddShareEvent now i kind detail d)" using assms by (rule totals_ok_shares [rotated]) simp
qed

end
