(* ===== verification/Enforcement.thy ===== *)
theory Enforcement
  imports Shares
begin

text \<open>
  What the share manager guarantees as a whole: invariants of its loops whatever other
  requests commit meanwhile, the status it settles on when it is left alone, and that a
  share it closes is closed in the published desired state of each of its servers.
\<close>

section \<open>Invariants of the manager's loops\<close>

definition others_keep :: "(db \<Rightarrow> bool) \<Rightarrow> Manager \<Rightarrow> bool" where
  "others_keep good M \<longleftrightarrow> (\<forall>k d. good d \<longrightarrow> good (mg_others M k d)) \<and>
     (\<forall>a k d. good d \<longrightarrow> good (pe_others (mg_publisher M) a k d))"

text \<open>What follows an attempt that has to be repeated.\<close>

definition again :: "Manager \<Rightarrow> i64 \<Rightarrow> nat \<Rightarrow> db \<Rightarrow> unit res \<times> db" where
  "again M i left d = (case left of 0 \<Rightarrow> (Inr (), d) | Suc k \<Rightarrow> evaluateAttempt M i k d)"

definition rollover_due :: "time \<Rightarrow> Share \<Rightarrow> bool" where
  "rollover_due now sh \<longleftrightarrow> sh_ResetDay sh > 0 \<and> PeriodStart now (sh_ResetDay sh) > sh_PeriodStart sh"

lemma evaluateAttempt_cases:
  fixes M :: Manager and d :: db
  obtains (gone) "evaluateAttempt M i left d = (Inl ErrNotFound, d)" "lookup (shares d) i = None"
  | (idle) sh where "lookup (shares d) i = Some sh"
      "manual (sh_Status sh) \<or> \<not> rollover_due (mg_now M left) sh \<and> nextStatus (mg_now M left) sh = sh_Status sh"
      "evaluateAttempt M i left d = (Inr (), d)"
  | (unreset) sh e d2 where "lookup (shares d) i = Some sh" "rollover_due (mg_now M left) sh"
      "ResetShareUsageIfBefore (mg_store M) i (sh_ResetDay sh) (PeriodStart (mg_now M left) (sh_ResetDay sh)) (mg_others M left d) =
         (Inl e, d2)" "evaluateAttempt M i left d = (Inl e, d2)"
  | (rolled) sh changed d2 d3 where "lookup (shares d) i = Some sh" "\<not> manual (sh_Status sh)" "rollover_due (mg_now M left) sh"
      "ResetShareUsageIfBefore (mg_store M) i (sh_ResetDay sh) (PeriodStart (mg_now M left) (sh_ResetDay sh)) (mg_others M left d) =
         (Inr changed, d2)"
      "d3 = AddShareEvent (mg_store M) i ''period_reset'' (show_int (day_of (PeriodStart (mg_now M left) (sh_ResetDay sh)))) d2"
      "evaluateAttempt M i left d =
         (if changed then
            (case republishShareServers M i d3 of (Inl e, d4) \<Rightarrow> (Inl e, d4) | (Inr _, d4) \<Rightarrow> again M i left d4)
          else again M i left d2)"
  | (moved) sh ok d2 where "lookup (shares d) i = Some sh" "\<not> manual (sh_Status sh)" "\<not> rollover_due (mg_now M left) sh"
      "SetShareEvaluatedStatus (mg_store M) (sh\<lparr>sh_ID := i\<rparr>) (nextStatus (mg_now M left) sh) (mg_others M left d) = (ok, d2)"
      "evaluateAttempt M i left d =
         (if ok then republishShareServers M i
            (AddShareEvent (mg_store M) i ''status'' (statusText (nextStatus (mg_now M left) sh)) d2)
          else again M i left d2)"
      "nextStatus (mg_now M left) sh \<noteq> sh_Status sh"
  | (refreshed) sh where "lookup (shares d) i = Some sh" "\<not> rollover_due (mg_now M left) sh"
      "nextStatus (mg_now M left) sh = sh_Status sh" "evaluateAttempt M i left d = republishShareServers M i d"
proof (cases "lookup (shares d) i")
  case None
  then show ?thesis using gone by (simp add: evaluateAttempt.simps)
next
  case (Some sh)
  let ?now = "mg_now M left"
  have ag: "(case left of 0 \<Rightarrow> (Inr (), e) | Suc k \<Rightarrow> evaluateAttempt M i k e) = again M i left e" for e
    by (simp add: again_def)
  note ev = evaluateAttempt.simps [of M i left d, unfolded ag Let_def]
  show ?thesis
  proof (cases "manual (sh_Status sh)")
    case True
    then show ?thesis using Some ev idle by (auto simp: manual_def)
  next
    case auto: False
    then have nm: "\<not> (sh_Status sh = ShareRevoked \<or> sh_Status sh = SharePaused)" by (auto simp: manual_def)
    show ?thesis
    proof (cases "rollover_due ?now sh")
      case True
      obtain r d2 where r: "ResetShareUsageIfBefore (mg_store M) i (sh_ResetDay sh) (PeriodStart ?now (sh_ResetDay sh))
          (mg_others M left d) = (r, d2)" by fastforce
      show ?thesis
      proof (cases r)
        case (Inl e)
        then show ?thesis using Some True nm r ev unreset [of sh e d2] by (simp add: rollover_due_def)
      next
        case (Inr changed)
        then show ?thesis using Some True auto nm r ev rolled [OF Some auto True, of changed d2]
          by (simp add: rollover_due_def)
      qed
    next
      case False
      note no = False
      obtain ok d2 where s: "SetShareEvaluatedStatus (mg_store M) (sh\<lparr>sh_ID := i\<rparr>) (nextStatus ?now sh) (mg_others M left d) = (ok, d2)"
        by fastforce
      have ev': "evaluateAttempt M i left d =
        (if nextStatus ?now sh \<noteq> sh_Status sh
         then (if ok then republishShareServers M i (AddShareEvent (mg_store M) i ''status'' (statusText (nextStatus ?now sh)) d2)
               else again M i left d2)
         else if hasNodeQuota sh then republishShareServers M i d else (Inr (), d))"
        using Some nm no s ev by (auto simp: rollover_due_def)
      then show ?thesis using Some auto no s idle moved [OF Some auto no s] refreshed by metis
    qed
  qed
qed

text \<open>
  The contract an invariant has with the manager: each of the four writes of an evaluation
  keeps it. It then survives every loop, provided the other requests keep it too.
\<close>

locale manager_invariant =
  fixes good :: "db \<Rightarrow> bool"
  assumes publication: "good d \<Longrightarrow> PublishDesired now expected c force d = (r, d') \<Longrightarrow> good d'"
    and reset: "good d \<Longrightarrow> good (snd (ResetShareUsageIfBefore now i day ps d))"
    and evaluated: "good d \<Longrightarrow> good (snd (SetShareEvaluatedStatus now snapshot next d))"
    and event: "good d \<Longrightarrow> good (AddShareEvent now i kind detail d)"
begin

lemma trace_inv: "(\<And>k d. good d \<Longrightarrow> good (others k d)) \<Longrightarrow> good d \<Longrightarrow> good (trace others d j)"
  by (induction j) auto

lemma publishLoop_inv:
  assumes "\<And>a k d. good d \<Longrightarrow> good (pe_others P a k d)" "good d"
  shows "good (snd (publishLoop P sid force left k d))"
  using assms(2)
proof (induction left arbitrary: k d)
  case 0
  then show ?case by simp
next
  case (Suc left)
  have T: "good (trace (pe_others P k) d j)" for j using assms(1) Suc.prems by (rule trace_inv)
  show ?case
    by (rule publishLoop_cases [of P sid force left k d]) (use T Suc.IH publication [OF T] in auto)
qed

lemma publishEach_inv:
  assumes "\<And>a k d. good d \<Longrightarrow> good (pe_others P a k d)" "good d"
  shows "good (snd (publishEach P sids d))"
  using assms(2)
proof (induction sids arbitrary: d)
  case (Cons sid sids)
  then have "good (snd (Publish P sid d))" using publishLoop_inv [OF assms(1)] by (simp add: Publish_def publish_def)
  then show ?case using Cons.IH by (auto split: prod.splits sum.splits)
qed simp

lemma republish_inv: "others_keep good M \<Longrightarrow> good d \<Longrightarrow> good (snd (republishShareServers M i d))"
  unfolding republishShareServers_def by (rule publishEach_inv) (auto simp: others_keep_def)

lemma attempt_inv:
  assumes keep: "others_keep good M" and good: "good d" and ag: "\<And>e. good e \<Longrightarrow> good (snd (again M i left e))"
  shows "good (snd (evaluateAttempt M i left d))"
proof -
  have d1: "good (mg_others M left d)" using keep good by (simp add: others_keep_def)
  show ?thesis
  proof (cases rule: evaluateAttempt_cases [of M i left d])
    case (unreset sh e d2)
    then show ?thesis using reset [OF d1] by (metis snd_conv)
  next
    case (rolled sh changed d2 d3)
    have d2: "good d2" using reset [OF d1] rolled(4) by (metis snd_conv)
    then have "good (snd (republishShareServers M i d3))" using rolled(5) event republish_inv [OF keep] by simp
    with d2 show ?thesis using rolled(6) ag by (auto split: prod.splits sum.splits)
  next
    case (moved sh ok d2)
    have "good d2" using evaluated [OF d1] moved(4) by (metis snd_conv)
    then show ?thesis using moved(5) ag event republish_inv [OF keep] by auto
  qed (use good republish_inv [OF keep] in auto)
qed

lemma evaluate_inv: "others_keep good M \<Longrightarrow> good d \<Longrightarrow> good (snd (evaluate M i d))"
proof -
  assume keep: "others_keep good M" and "good d"
  have "good d \<Longrightarrow> good (snd (evaluateAttempt M i left d))" for left d
    by (induction left arbitrary: d) (auto intro!: attempt_inv [OF keep] simp: again_def)
  with \<open>good d\<close> show ?thesis by (simp add: evaluate_def)
qed

lemma Tick_inv:
  assumes "others_keep good M" "good d"
  shows "good (snd (Tick M d))"
proof -
  have "good d \<Longrightarrow> good (snd (evaluateAll M is d))" for "is" d
    using evaluate_inv [OF assms(1)] by (induction "is" arbitrary: d) (auto split: prod.splits sum.splits, (metis snd_conv)+)
  with assms(2) show ?thesis by (simp add: Tick_def)
qed

end

text \<open>A status an administrator has set is kept.\<close>

definition statusIs :: "i64 \<Rightarrow> ShareStatus \<Rightarrow> db \<Rightarrow> bool" where
  "statusIs i st d \<longleftrightarrow> map_option sh_Status (lookup (shares d) i) = Some st"

lemma statusIs_shares: "shares d' = shares d \<Longrightarrow> statusIs i st d' = statusIs i st d"
  by (simp add: statusIs_def)

lemma shares_PublishDesired: "PublishDesired now expected c force d = (r, d') \<Longrightarrow> shares d' = shares d"
  using PublishDesired_quiet by (auto simp: quiet_def)

lemma statusIs_reset: "manual st \<Longrightarrow> statusIs i st d \<Longrightarrow> statusIs i st (snd (ResetShareUsageIfBefore now j day ps d))"
  by (rule ResetShareUsageIfBefore_cases [of now j day ps d])
     (auto simp: statusIs_def manual_def rollShare_def split: if_splits)

lemma statusIs_evaluated:
  "manual st \<Longrightarrow> statusIs i st d \<Longrightarrow> statusIs i st (snd (SetShareEvaluatedStatus now snapshot next d))"
  by (rule SetShareEvaluatedStatus_cases [of now snapshot "next" d]) (auto simp: statusIs_def split: if_splits)

interpretation sticky: manager_invariant "\<lambda>d. manual st \<longrightarrow> statusIs i st d"
proof unfold_locales
  fix d now expected c force r d'
  assume "manual st \<longrightarrow> statusIs i st d" "PublishDesired now expected c force d = (r, d')"
  then show "manual st \<longrightarrow> statusIs i st d'" using statusIs_shares [OF shares_PublishDesired] by blast
next
  fix d now i' kind detail
  assume "manual st \<longrightarrow> statusIs i st d"
  then show "manual st \<longrightarrow> statusIs i st (AddShareEvent now i' kind detail d)"
    using statusIs_shares [OF shares_AddShareEvent] by blast
qed (use statusIs_reset statusIs_evaluated in blast)+

interpretation in_range: manager_invariant totals_ok
proof unfold_locales
  fix d now expected c force r d'
  assume "totals_ok d" "PublishDesired now expected c force d = (r, d')"
  then show "totals_ok d'" using totals_ok_shares [OF shares_PublishDesired] by blast
qed (intro row_totals, assumption)+

section \<open>Left alone, an evaluation settles\<close>

definition alone :: "Manager \<Rightarrow> bool" where
  "alone M \<longleftrightarrow> (\<forall>k d. mg_others M k d = d) \<and> (\<forall>a k d. pe_others (mg_publisher M) a k d = d)"

definition settled :: "time \<Rightarrow> i64 \<Rightarrow> db \<Rightarrow> bool" where
  "settled now i d \<longleftrightarrow> (\<exists>sh. lookup (shares d) i = Some sh \<and>
     (manual (sh_Status sh) \<or> \<not> rollover_due now sh \<and> nextStatus now sh = sh_Status sh))"

text \<open>Publications keep the shares, the nodes and the servers.\<close>

lemma publish_still:
  assumes "\<And>a k d. pe_others P a k d = d" "publishLoop P sid force left a d = (r, d')"
  shows "quiet d d'"
  using assms(2)
proof (induction left arbitrary: a)
  case 0
  then show ?case by (simp add: quiet_def)
next
  case (Suc left)
  have T: "trace (pe_others P a) d j = d" for j by (rule trace_still) (rule assms(1))
  show ?case
    by (rule publishLoop_cases [of P sid force left a d])
       (use Suc T in \<open>auto simp: T quiet_def dest!: PublishDesired_quiet [unfolded quiet_def]\<close>)
qed

lemma quiet_trans: "quiet a b \<Longrightarrow> quiet b c \<Longrightarrow> quiet a c"
  by (simp add: quiet_def)

lemma publishEach_still:
  assumes "\<And>a k d. pe_others P a k d = d" "publishEach P sids d = (r, d')"
  shows "quiet d d'"
  using assms(2)
proof (induction sids arbitrary: d)
  case Nil
  then show ?case by (simp add: quiet_def)
next
  case (Cons sid sids)
  obtain q e where q: "Publish P sid d = (q, e)" by fastforce
  then have "quiet d e" using publish_still [OF assms(1)] by (auto simp: Publish_def publish_def)
  moreover have "quiet e d'" using Cons q by (cases q) (auto simp: quiet_def)
  ultimately show ?case by (rule quiet_trans)
qed

lemma republish_shares: "alone M \<Longrightarrow> republishShareServers M i d = (r, d') \<Longrightarrow> shares d' = shares d"
  unfolding republishShareServers_def using publishEach_still [of "mg_publisher M"] by (simp add: alone_def quiet_def)

lemma attempt_settles:
  assumes "alone M" "evaluateAttempt M i left d = (Inr (), d')" "lookup (shares d) i = Some sh" "\<not> rollover_due (mg_now M left) sh"
  shows "settled (mg_now M left) i d'"
proof (cases rule: evaluateAttempt_cases [of M i left d])
  case (moved sh0 ok d2)
  have d1: "mg_others M left d = d" using assms(1) by (simp add: alone_def)
  have sh0: "sh0 = sh" using moved(1) assms(3) by simp
  let ?now = "mg_now M left"
  have won: "ok" "d2 = writeShare (mg_store M) (sh\<lparr>sh_ID := i, sh_Status := nextStatus ?now sh, sh_UpdatedAt := mg_store M\<rparr>) d"
    using moved(2,4) assms(3) by (auto simp: d1 sh0 SetShareEvaluatedStatus_def snapshotHolds_def manual_def)
  have "shares d' = shares d2"
    using republish_shares [OF assms(1) moved(5) [unfolded assms(2), symmetric, simplified won(1) if_True]] by simp
  then have row: "lookup (shares d') i = Some (sh\<lparr>sh_ID := i, sh_Status := nextStatus ?now sh, sh_UpdatedAt := mg_store M\<rparr>)"
    using won(2) assms(3) by simp
  have "nextStatus ?now (sh\<lparr>sh_ID := i, sh_Status := nextStatus ?now sh, sh_UpdatedAt := mg_store M\<rparr>) = nextStatus ?now sh"
    using nextStatus_cong [of "sh\<lparr>sh_ID := i, sh_Status := nextStatus ?now sh, sh_UpdatedAt := mg_store M\<rparr>" ?now sh] moved(2)
    by (simp add: sh0 expired_def overQuota_def)
  with row show ?thesis using assms(4) by (auto simp: settled_def rollover_due_def)
next
  case (refreshed sh0)
  have "shares d' = shares d" using republish_shares [OF assms(1) refreshed(4) [symmetric, unfolded assms(2)]] .
  then show ?thesis using assms refreshed by (auto simp: settled_def)
qed (use assms in \<open>auto simp: settled_def\<close>)

lemma evaluate_settles:
  assumes "alone M" "\<And>k. mg_now M k = now" "evaluate M i d = (Inr (), d')"
    and "\<And>sh. lookup (shares d) i = Some sh \<Longrightarrow> 0 \<le> sh_PeriodStart sh"
  shows "settled now i d'"
proof (cases "\<exists>sh. lookup (shares d) i = Some sh \<and> rollover_due now sh \<and> \<not> manual (sh_Status sh)")
  case False
  show ?thesis
  proof (cases rule: evaluateAttempt_cases [of M i 2 d])
    case (idle sh)
    then show ?thesis using assms by (auto simp: evaluate_def settled_def)
  next
    case (moved sh ok d2)
    then show ?thesis using attempt_settles [OF assms(1), of i 2 d d' sh] assms by (simp add: evaluate_def)
  next
    case (refreshed sh)
    then show ?thesis using attempt_settles [OF assms(1), of i 2 d d' sh] assms by (simp add: evaluate_def)
  qed (use assms False in \<open>auto simp: evaluate_def\<close>)
next
  case True
  then obtain sh where sh: "lookup (shares d) i = Some sh" "rollover_due now sh" "\<not> manual (sh_Status sh)" by blast
  have d1: "mg_others M 2 d = d" using assms(1) by (simp add: alone_def)
  let ?ps = "PeriodStart now (sh_ResetDay sh)"
  show ?thesis
  proof (cases rule: evaluateAttempt_cases [of M i 2 d])
    case (rolled sh0 changed d2 d3)
    have sh0: "sh0 = sh" using rolled(1) sh(1) by simp
    have "\<not> IsZero ?ps" using sh(1,2) assms(4) by (auto simp: rollover_due_def IsZero_def)
    then have r: "changed" "d2 = writeUsage (mg_store M) ((rollShare ?ps sh)\<lparr>sh_ID := i, sh_UpdatedAt := mg_store M\<rparr>) d"
      using rolled(4) sh by (auto simp: d1 sh0 assms(2) ResetShareUsageIfBefore_def rollover_due_def)
    obtain u d4 where d4: "republishShareServers M i d3 = (u, d4)" by fastforce
    have "lookup (shares d4) i = Some ((rollShare ?ps sh)\<lparr>sh_ID := i, sh_UpdatedAt := mg_store M\<rparr>)"
      using republish_shares [OF assms(1) d4] rolled(5) r(2) sh(1) by simp
    moreover have "evaluateAttempt M i 1 d4 = (Inr (), d')"
      using rolled(6) r(1) d4 assms(3) by (cases u) (auto simp: evaluate_def again_def numeral_2_eq_2)
    ultimately show ?thesis
      using attempt_settles [OF assms(1), of i 1 d4 d'] assms(2) by (simp add: rollover_due_def rollShare_def)
  qed (use assms sh in \<open>auto simp: evaluate_def\<close>)
qed

section \<open>A closed share is closed on its servers\<close>

definition elsewhere :: "i64 \<Rightarrow> db \<Rightarrow> db \<Rightarrow> bool" where
  "elsewhere s d d' \<longleftrightarrow> desiredRows s d' = desiredRows s d \<and>
     lookup (server_network_generations d') s = lookup (server_network_generations d) s"

lemma elsewhere_refl [simp]: "elsewhere s d d"
  by (simp add: elsewhere_def)

lemma elsewhere_trans: "elsewhere s a b \<Longrightarrow> elsewhere s b c \<Longrightarrow> elsewhere s a c"
  by (simp add: elsewhere_def)

lemma finishPublication_elsewhere:
  assumes "finishPublication now r g d = Inr d'" "fst (fst r) \<noteq> s"
  shows "elsewhere s d d'"
  using assms(1)
proof (rule finishPublication_E)
  fix sv
  assume d': "d' = attachNetworkOperations now r g
     (fold (captureNode (fst (fst r)) (snd (fst r)) sv) (ds_Nodes (dr_Payload (snd r))) d)"
  show ?thesis using assms(2) unfolding d' elsewhere_def
    by (simp add: lookup_attach desiredRows_def captureNodes_frame option.map_ident)
qed

lemma insertRevision_elsewhere: "sid \<noteq> s \<Longrightarrow> elsewhere s d (insertRevision sid v row d)"
proof -
  assume "sid \<noteq> s"
  then have "filter (\<lambda>((x, _), _). x = s) (map (stalePending sid) t) = filter (\<lambda>((x, _), _). x = s) t" for t
    by (induction t) (auto simp: stalePending_def split: if_splits)
  with \<open>sid \<noteq> s\<close> show ?thesis by (simp add: elsewhere_def insertRevision_def desiredRows_def)
qed

lemma PublishDesired_elsewhere:
  assumes "PublishDesired now expected c force d = (r, d')" "ds_ServerID c \<noteq> s"
  shows "elsewhere s d d'"
proof (cases rule: PublishDesired_cases [of now expected c force d])
  case (same q e)
  have "fst (fst q) = ds_ServerID c"
    using same(3) desiredRows_hd [of "ds_ServerID c" d] by (auto simp: unchanged_def Let_def split: list.splits if_splits)
  then show ?thesis using finishPublication_elsewhere [OF same(4)] same(1) assms by simp
next
  case (created row e)
  then show ?thesis
    using finishPublication_elsewhere [OF created(5)] insertRevision_elsewhere [OF assms(2)] assms elsewhere_trans by fastforce
qed (use assms in simp)

lemma publish_elsewhere:
  assumes "\<And>a k d. pe_others P a k d = d" "publishLoop P sid force left a d = (r, d')" "sid \<noteq> s"
  shows "elsewhere s d d'"
  using assms(2)
proof (induction left arbitrary: a)
  case (Suc left)
  have T: "trace (pe_others P a) d j = d" for j by (rule trace_still) (rule assms(1))
  show ?case
  proof (cases rule: publishLoop_cases [of P sid force left a d])
    case (again d1)
    with Suc.prems T show ?thesis by (intro Suc.IH [of "Suc a"]) (simp del: publishLoop.simps)
  next
    case (published server ds r0 e)
    have "ds_ServerID ds = sid" using Build_E [OF published(3)] by simp
    then show ?thesis using PublishDesired_elsewhere [OF published(4)] published(1) Suc.prems assms(3) by (simp add: T)
  qed (use Suc.prems in \<open>simp_all add: T del: publishLoop.simps\<close>)
qed simp

lemma publish_created:
  assumes "\<And>a k d. pe_others P a k d = d" "publishLoop P sid force left a d = (Inr (r, b), d')" "\<not> publicationCurrent sid d"
  shows "b \<and> LatestDesiredState sid d' = Inr r"
  using assms(2)
proof (induction left arbitrary: a)
  case (Suc left)
  have T: "trace (pe_others P a) d j = d" for j by (rule trace_still) (rule assms(1))
  show ?case
  proof (cases rule: publishLoop_cases [of P sid force left a d])
    case (again d1)
    with Suc.prems T show ?thesis by (intro Suc.IH [of "Suc a"]) (simp del: publishLoop.simps)
  next
    case (published server ds r0 e)
    have sid: "ds_ServerID ds = sid" using Build_E [OF published(3)] by simp
    note p = published(4) [unfolded T]
    have "r0 = Inr (r, b)" "e = d'" using published(1) Suc.prems by simp_all
    note p = p [unfolded this]
    let ?c = "ds\<lparr>ds_GeneratedAt := pe_now P a\<rparr>"
    have none: "unchanged ?c force d = None" using assms(3) sid by (simp add: unchanged_def Let_def split: list.splits)
    have b: "b"
    proof (cases rule: PublishDesired_cases [of "pe_now P a" "latestRevision sid d" ?c force d])
      case (same q e)
      with none show ?thesis by simp
    qed (use p in simp_all)
    obtain rs where "desiredRows (ds_ServerID ?c) d' = r # rs" using p b by (auto elim: hd_desiredRows_created)
    then have "desiredRows sid d' = r # rs" using sid by simp
    with b show ?thesis by (simp add: LatestDesiredState_def)
  qed (use Suc.prems in \<open>simp_all add: T del: publishLoop.simps\<close>)
qed simp

lemma tame_still: "(\<And>a k d. pe_others P a k d = d) \<Longrightarrow> tame P"
  by (simp add: tame_def)

definition blocks :: "db \<Rightarrow> i64 \<Rightarrow> Node \<Rightarrow> bool" where
  "blocks d sid n \<longleftrightarrow> (\<exists>r. LatestDesiredState sid d = Inr r \<and>
     (\<forall>spec \<in> set (ds_Nodes (dr_Payload (snd r))). np_NodeID spec = nd_ID n \<longrightarrow> np_Blocked spec))"

lemma blocks_elsewhere: "elsewhere sid d d' \<Longrightarrow> blocks d sid n \<Longrightarrow> blocks d' sid n"
  by (simp add: blocks_def elsewhere_def LatestDesiredState_def)

lemma closed_quiet: "quiet d d' \<Longrightarrow> closed d n \<Longrightarrow> closed d' n"
  by (simp add: quiet_def closed_def)

lemma publishEach_elsewhere:
  assumes "\<And>a k d. pe_others P a k d = d" "publishEach P sids d = (r, d')" "s \<notin> set sids"
  shows "elsewhere s d d'"
  using assms(2,3)
proof (induction sids arbitrary: d)
  case (Cons sid sids)
  obtain q e where q: "Publish P sid d = (q, e)" by fastforce
  then have "elsewhere s d e" using publish_elsewhere [OF assms(1)] Cons.prems by (auto simp: Publish_def publish_def)
  moreover have "elsewhere s e d'" using Cons q by (cases q) auto
  ultimately show ?case by (rule elsewhere_trans)
qed simp

lemma publish_blocks:
  assumes still: "\<And>a k d. pe_others P a k d = d" and p: "Publish P sid d = (Inr x, d')"
    and "\<not> publicationCurrent sid d" "tracked sid d" "distinct (map nd_ID (nodes d))"
    and n: "n \<in> set (deployedOn sid d)" "closed d n"
  shows "blocks d' sid n"
proof -
  obtain r b where x: "x = (r, b)" by fastforce
  note pl = p [unfolded Publish_def publish_def x]
  have r: "b" "LatestDesiredState sid d' = Inr r" using publish_created [OF still pl assms(3)] by simp_all
  have q: "quiet d d'" using publish_still [OF still pl] .
  then have n': "n \<in> set (nodes d')" "nd_ServerID n = Some sid" "nd_Source n = NodeDeployed" "closed d' n"
    using n closed_quiet [OF q] by (simp_all add: quiet_def deployedOn_def)
  have "np_Blocked spec" if "spec \<in> set (ds_Nodes (dr_Payload (snd r)))" "np_NodeID spec = nd_ID n" for spec
    using publishLoop_closed [OF pl [unfolded eqTrueI [OF r(1)]] tame_still [OF still] assms(4,5) that(1) n'(1) that(2) [symmetric] n'(2-4)] .
  with r(2) show ?thesis by (auto simp: blocks_def)
qed

lemma publishEach_blocks:
  assumes still: "\<And>a k d. pe_others P a k d = d"
    and "publishEach P sids d = (Inr (), d')" "distinct sids" "sid \<in> set sids"
    and "\<not> publicationCurrent sid d" "tracked sid d" "distinct (map nd_ID (nodes d))"
    and "n \<in> set (deployedOn sid d)" "closed d n"
  shows "blocks d' sid n"
  using assms(2-9)
proof (induction sids arbitrary: d)
  case (Cons s sids)
  then obtain x e where x: "Publish P s d = (Inr x, e)" "publishEach P sids e = (Inr (), d')"
    by (auto split: prod.splits sum.splits)
  have q: "quiet d e" using publish_still [OF still] x(1) by (auto simp: Publish_def publish_def)
  show ?case
  proof (cases "s = sid")
    case True
    then have "blocks e sid n" using publish_blocks [OF still] x(1) Cons.prems(4-8) by blast
    moreover have "elsewhere sid e d'" using publishEach_elsewhere [OF still x(2)] Cons.prems(2) True by simp
    ultimately show ?thesis using blocks_elsewhere by blast
  next
    case False
    have el: "elsewhere sid d e" using publish_elsewhere [OF still _ False] x(1) by (auto simp: Publish_def publish_def)
    show ?thesis
    proof (rule Cons.IH [OF x(2)])
      show "\<not> publicationCurrent sid e" "tracked sid e"
        using Cons.prems(4,5) el by (simp_all add: elsewhere_def publicationCurrent_def tracked_def)
      show "distinct (map nd_ID (nodes e))" "n \<in> set (deployedOn sid e)" using Cons.prems(6,7) q by (simp_all add: quiet_def deployedOn_def)
      show "closed e n" using closed_quiet [OF q] Cons.prems(8) .
    qed (use Cons.prems(2,3) False in auto)
  qed
qed simp

interpretation published: trigger_invariant "\<lambda>d. map_option ng_Published (lookup (server_network_generations d) sid) = p"
  by unfold_locales (auto simp: bumpGenerations_lookup advanceRow_def option.map_comp comp_def)

text \<open>A change of status leaves no server of the share with a current publication.\<close>

lemma status_write_uncurrent:
  assumes "lookup (shares d) i = Some sh" "st \<noteq> sh_Status sh" "n \<in> set (deployedOn sid d)" "nd_ShareID n = Some i"
    and "lookup (server_network_generations d) sid = Some g" "ng_Published g \<le> ng_Generation g"
  shows "\<not> publicationCurrent sid (writeShare now (sh\<lparr>sh_ID := i, sh_Status := st, sh_UpdatedAt := now\<rparr>) d)"
proof -
  let ?v = "sh\<lparr>sh_ID := i, sh_Status := st, sh_UpdatedAt := now\<rparr>"
  let ?d = "d\<lparr>shares := upsert i ?v (shares d)\<rparr>"
  have w: "writeShare now ?v d = shareTriggers now sh ?v ?d" using assms(1) by (simp add: writeShare_def)
  have "networkGeneration sid ?d < networkGeneration sid (shareTriggers now sh ?v ?d)"
  proof (rule shareTriggers_moves)
    show "settings ?v \<noteq> settings sh" using assms(2) by (simp add: settings_def)
    show "tracked sid ?d" using assms(5) by (simp add: tracked_def)
    show "sid \<in> set (shareServers (sh_ID ?v) ?d)" using mem_shareServers [OF assms(3,4)] by (simp add: shareServers_frame)
  qed
  then have "ng_Generation g < networkGeneration sid (writeShare now ?v d)"
    using assms(5) by (simp add: w networkGeneration_def)
  moreover have "map_option ng_Published (lookup (server_network_generations (writeShare now ?v d)) sid) = Some (ng_Published g)"
    by (rule published.writeShare_inv) (simp add: assms(5))
  ultimately show ?thesis using assms(6) by (auto simp: publicationCurrent_def networkGeneration_def split: option.splits)
qed

lemma mem_nodeServers:
  "n \<in> set (deployedOn sid d) \<Longrightarrow> nd_ShareID n = Some i \<Longrightarrow> sid \<in> set (nodeServers i d)"
  by (auto simp: nodeServers_def ListNodes_def deployedOn_def nodeMatches_def shareFilter_def no_filter_def
      List.map_filter_def NodeDeployed_def NodeTransit_def image_iff)

lemma distinct_nodeServers: "distinct (nodeServers i d)"
  by (simp add: nodeServers_def)

lemma evaluate_enforces:
  assumes "alone M" and ev: "evaluate M i d = (Inr (), d')"
    and sh: "lookup (shares d) i = Some sh" "sh_Status sh = ShareActive" "\<not> rollover_due (mg_now M 2) sh"
    and over: "expired (mg_now M 2) sh \<or> overQuota sh"
    and n: "n \<in> set (deployedOn sid d)" "nd_ShareID n = Some i" "distinct (map nd_ID (nodes d))"
    and g: "lookup (server_network_generations d) sid = Some g" "ng_Published g \<le> ng_Generation g"
  shows "blocks d' sid n"
proof -
  let ?now = "mg_now M 2"
  let ?st = "nextStatus ?now sh"
  let ?v = "sh\<lparr>sh_ID := i, sh_Status := ?st, sh_UpdatedAt := mg_store M\<rparr>"
  have nm: "\<not> manual (sh_Status sh)" using sh(2) by (simp add: manual_def)
  have st: "?st \<noteq> ShareActive" using over nextStatus_automatic [OF nm] by auto
  have still: "\<And>a k d. pe_others (mg_publisher M) a k d = d" "mg_others M 2 d = d" using assms(1) by (simp_all add: alone_def)
  have won: "SetShareEvaluatedStatus (mg_store M) (sh\<lparr>sh_ID := i\<rparr>) ?st d = (True, writeShare (mg_store M) ?v d)"
    using sh(1) nm by (simp add: SetShareEvaluatedStatus_def snapshotHolds_def manual_def)
  let ?d2 = "AddShareEvent (mg_store M) i ''status'' (statusText ?st) (writeShare (mg_store M) ?v d)"
  have pub: "publishEach (mg_publisher M) (nodeServers i ?d2) ?d2 = (Inr (), d')"
  proof (cases rule: evaluateAttempt_cases [of M i 2 d])
    case (moved sh0 ok d2)
    then show ?thesis using ev sh(1) still(2) won by (simp add: evaluate_def republishShareServers_def)
  qed (use sh st nm ev in \<open>auto simp: evaluate_def\<close>)
  have fr: "nodes ?d2 = nodes d" "server_network_generations ?d2 = server_network_generations (writeShare (mg_store M) ?v d)"
    using writeShare_share_frame [of d "mg_store M" ?v] by (auto simp: AddShareEvent_def elim!: share_frame_E)
  have n2: "n \<in> set (deployedOn sid ?d2)" using n(1) fr(1) by (simp add: deployedOn_def)
  show ?thesis
  proof (rule publishEach_blocks [OF still(1) pub distinct_nodeServers mem_nodeServers [OF n2 n(2)]])
    show "\<not> publicationCurrent sid ?d2"
      using status_write_uncurrent [OF sh(1) _ n(1,2) g] st sh(2) fr(2) by (simp add: publicationCurrent_def)
    show "tracked sid ?d2"
      using tracked_trig.writeShare_inv [of sid d] g(1) fr(2) by (simp add: tracked_def)
    show "closed ?d2 n" using n(2) sh(1) st by (auto simp: closed_def)
  qed (use n fr(1) n2 in simp_all)
qed

end
