(* ===== verification/Examples.thy ===== *)
theory Examples
  imports Accounting Usage Operations Enforcement
begin

text \<open>
  A small installation, used to apply the theorems at concrete inputs: one server with a
  deployed node of a share, a port forward, and the reports its agent sends.
\<close>

definition ex_env :: env where
  "ex_env = \<lparr>parseMAC = (\<lambda>_. True), parsePrefix = (\<lambda>_. True),
     digestSettlement = (\<lambda>_ _. replicate 64 CHR ''a''), digestReceipt = (\<lambda>r. fr_ID r),
     digestSwitch = (\<lambda>sw. sw_ID sw)\<rparr>"

definition ex_server :: Server where
  "ex_server = \<lparr>sv_IsNAT = False, sv_ID = 1, sv_Name = ''vps'', sv_Region = '''', sv_PublicHost = ''vps.example'',
     sv_Tags = [], sv_Notes = '''', sv_QuotaBytes = 1000, sv_QuotaResetDay = 1, sv_QuotaBilling = ''dual'',
     sv_CoreMode = ''full'', sv_IPv4Only = False, sv_CertMode = ''self'', sv_Enabled = True,
     sv_CreatedAt = 0, sv_UpdatedAt = 0\<rparr>"

definition ex_now :: time where "ex_now = 63000000000000000000"

definition ex_node :: Node where
  "ex_node = no_node\<lparr>nd_ID := 7, nd_Source := NodeDeployed, nd_ServerID := Some 1, nd_ListenPort := 443,
     nd_ShareID := Some 5, nd_Protocol := ''vless'', nd_Enabled := True\<rparr>"

definition ex_share :: Share where
  "ex_share = \<lparr>sh_ID = 5, sh_Name = ''team'', sh_UserID = None,
     sh_Targets = [\<lparr>st_Network = None, st_ServerID = 1, st_Protocols = [''vless''], st_QuotaBytes = [(''vless'', 100)]\<rparr>],
     sh_NodeUsage = Map.empty, sh_ExtraNodeIDs = [], sh_QuotaBytes = 500, sh_BillingMode = ''dual'',
     sh_ResetDay = 1, sh_ExpiresAt = None, sh_Status = ShareActive, sh_TemplateID = None,
     sh_ConnlogEnabled = False, sh_Notes = '''', sh_SubscriptionID = None, sh_PeriodStart = 0,
     sh_UsedUpload = 0, sh_UsedDownload = 0, sh_CreatedAt = 0, sh_UpdatedAt = 0\<rparr>"

definition ex_db :: db where
  "ex_db = empty_db\<lparr>nodes := [ex_node], shares := [(5, ex_share)], servers := [(1, ex_server)],
     port_forwards := [(3, \<lparr>pf_ServerID = 1, pf_Revision = 1, pf_Retired = False\<rparr>)]\<rparr>"

definition ex_reading :: PortCounter where
  "ex_reading = \<lparr>pc_NodeID = 7, pc_Source = ''nft-node-v1'', pc_Epoch = ''e1'', pc_FromZero = True,
     pc_Port = 443, pc_Rx = 40, pc_Tx = 60, pc_RxPkts = 0, pc_TxPkts = 0\<rparr>"

definition ex_final :: MeterSettlement where
  "ex_final = \<lparr>ms_ID = replicate 64 CHR ''a'', ms_TS = ex_now, ms_Counters = [ex_reading]\<rparr>"

definition ex_heartbeat :: Heartbeat where
  "ex_heartbeat = \<lparr>hb_NetworkBillingHeld = False, hb_NetworkBillingRevision = 0,
     hb_NetworkBillingLegacy = None, hb_NetworkBillingSwitch = None, hb_FinalMeters = None,
     hb_Epoch = ''boot'', hb_TS = ex_now, hb_Metrics = \<lparr>me_NetRx = 1000, me_NetTx = 2000, me_Network = None\<rparr>,
     hb_Ports = [], hb_ForwardCounters = [], hb_ForwardReceipt = None\<rparr>"

definition ex_final_heartbeat :: Heartbeat where
  "ex_final_heartbeat = ex_heartbeat\<lparr>hb_FinalMeters := Some ex_final\<rparr>"

lemma ex_final_ok: "isOk (fst (Ingest ex_env (\<lambda>x. x) ex_now ex_server ex_final_heartbeat ex_db))"
  by code_simp

lemma ex_books: "billing_ok ex_db"
  by code_simp

definition ex_ctx :: "time \<Rightarrow> ictx" where
  "ex_ctx ts = \<lparr>ic_env = ex_env,
     ic_meter = \<lparr>mc_Server = 1, mc_TS = ts, mc_Identified = True, mc_Durable = False, mc_BaselineOnly = []\<rparr>,
     ic_hb = ex_heartbeat, ic_now = ts, ic_epoch = ''boot'', ic_byID = (\<lambda>i. if i = 7 then Some ex_node else None),
     ic_byPort = (\<lambda>p. if p = 443 then Some ex_node else None), ic_order = (\<lambda>x. x)\<rparr>"

definition ex_run :: run where
  "ex_run = \<lparr>m_db = ex_db, m_accepted = {}, r_res = no_result\<rparr>"

definition ex_forward :: "i64 \<Rightarrow> i64 \<Rightarrow> ForwardCounter" where
  "ex_forward rx tx = \<lparr>fc_ForwardID = 3, fc_Epoch = ''f1'', fc_Rx = rx, fc_Tx = tx, fc_RxPkts = 0, fc_TxPkts = 0\<rparr>"

definition ex_reports :: "(ictx \<times> ForwardCounter) list" where
  "ex_reports = [(ex_ctx ex_now, ex_forward 10 20), (ex_ctx (ex_now + 60), ex_forward 25 50),
     (ex_ctx (ex_now + 60), ex_forward 25 50), (ex_ctx (ex_now + 30), ex_forward 12 30)]"

lemma ex_reports_ok: "isOk (foldE forwardReport ex_run ex_reports)"
  by code_simp

lemma ex_reports_ledger: "map_sum (\<lambda>e. e) (\<lambda>s. ledgerRx SubjectForward 3 (m_db s)) (foldE forwardReport ex_run ex_reports) = Inr 25"
  by code_simp

lemma ex_run_inv: "forward_inv ex_run"
  using ex_books by (simp add: forward_inv_def forward_epochs_def ex_run_def billing_ok_def ex_db_def empty_db_def)

section \<open>Publication and enforcement\<close>

definition ex_builder :: BuildEnv where
  "ex_builder = \<lparr>be_now = ex_now, be_versions = (\<lambda>_ _. Inr ''v1''), be_binding = (\<lambda>_ _. Inr 0),
     be_egress = (\<lambda>_ _. Inr ('''', False)), be_forwards = (\<lambda>_ _. Inr []), be_forwardVersion = (\<lambda>_ _. 0),
     be_param = (\<lambda>_ _. ''''), be_selfLog = (\<lambda>_. False),
     be_hash = (\<lambda>ds. concat (map (\<lambda>n. show_int (np_NodeID n) @ (if np_Blocked n then ''-'' else ''+'')) (ds_Nodes ds)))\<rparr>"

definition ex_publisher :: PublishEnv where
  "ex_publisher = \<lparr>pe_build = ex_builder, pe_now = (\<lambda>_. ex_now), pe_others = (\<lambda>_ _ d. d)\<rparr>"

definition ex_manager :: Manager where
  "ex_manager = \<lparr>mg_publisher = ex_publisher, mg_now = (\<lambda>_. ex_now), mg_store = ex_now, mg_others = (\<lambda>_ d. d)\<rparr>"

definition ex_op :: NetworkOperation where
  "ex_op = \<lparr>no_ID = ''op1'', no_ServerID = 1, no_Kind = ''node_network'', no_ResourceID = 7, no_ResourceRevision = 1,
     no_Generation = 1, no_RequestHash = '''', no_Status = ''queued'', no_DesiredRevision = 0, no_DesiredHash = '''',
     no_Attempts = 0, no_RetryRevision = 0, no_Republish = False, no_NextAttemptAt = 0, no_Message = '''',
     no_CreatedAt = 0, no_UpdatedAt = 0\<rparr>"

text \<open>The share has used up its quota; nothing has been published since.\<close>

definition ex_over :: db where
  "ex_over = ex_db\<lparr>shares := [(5, ex_share\<lparr>sh_PeriodStart := ex_now, sh_UsedUpload := 300, sh_UsedDownload := 200\<rparr>)],
     server_network_generations := [(1, firstGeneration)], network_operations := [ex_op]\<rparr>"

lemma ex_alone: "alone ex_manager"
  by (simp add: alone_def ex_manager_def ex_publisher_def)

lemma ex_evaluate: "isOk (fst (evaluate ex_manager 5 ex_over))"
  by code_simp

text \<open>A publication that is overtaken by an administrator who pauses the share.\<close>

definition ex_open :: db where
  "ex_open = ex_over\<lparr>shares := [(5, ex_share\<lparr>sh_PeriodStart := ex_now\<rparr>)]\<rparr>"

definition ex_racing :: PublishEnv where
  "ex_racing = ex_publisher\<lparr>pe_others := (\<lambda>attempt query d.
     if attempt = 0 \<and> query = 5 then SetShareStatus ex_now 5 SharePaused d else d)\<rparr>"

definition ex_race_ok :: bool where
  "ex_race_ok = (case publish ex_racing 1 False ex_open of
     (Inr (r, b), d') \<Rightarrow> b \<and> map np_NodeID (ds_Nodes (dr_Payload (snd r))) = [7] \<and> nodes d' = [ex_node] \<and>
        map_option sh_Status (lookup (shares d') 5) = Some SharePaused
   | _ \<Rightarrow> False)"

lemma ex_racing_publishes: "ex_race_ok"
  by code_simp

lemma ex_racing_tame: "tame ex_racing"
  unfolding tame_def
proof (intro allI)
  fix k j :: nat and d :: db
  have "access_step\<^sup>*\<^sup>* d (SetShareStatus ex_now 5 SharePaused d)"
  proof (cases "lookup (shares d) 5")
    case None
    then show ?thesis by (simp add: SetShareStatus_def)
  next
    case (Some sh)
    then have "access_step d (writeShare ex_now (sh\<lparr>sh_ID := 5, sh_Status := SharePaused, sh_UpdatedAt := ex_now\<rparr>) d)"
      by (intro access_settings [of d _ sh]) simp_all
    then show ?thesis using Some by (simp add: SetShareStatus_def)
  qed
  then show "access_step\<^sup>*\<^sup>* d (pe_others ex_racing k j d)" by (simp add: ex_racing_def)
qed

section \<open>A machine that was restarted\<close>

definition ex_boot :: "string \<Rightarrow> string" where
  "ex_boot n = ''00000000-0000-0000-0000-00000000000'' @ n @ '':nonce''"

definition ex_counter :: "string \<Rightarrow> CounterState" where
  "ex_counter n = \<lparr>cs_Epoch = ex_boot n, cs_LastRx = 100, cs_LastTx = 100, cs_UpdatedAt = Some (ex_now - 60)\<rparr>"

definition ex_rebooted :: db where
  "ex_rebooted = ex_db\<lparr>counter_state := [((1, ''nic''), ex_counter ''2''),
     ((1, ''nic-boot:'' @ linuxBootEpoch (ex_boot ''1'')), ex_counter ''1'')]\<rparr>"

section \<open>Publishers and operations\<close>

definition ex_candidate :: DesiredState where
  "ex_candidate = \<lparr>ds_PublicationGeneration = 1, ds_NetworkForwardVersion = 0, ds_NetworkGeneration = 0, ds_Revision = 0,
     ds_Hash = ''h'', ds_ServerID = 1, ds_Nodes = [], ds_Forwards = [], ds_Rest = '''', ds_GeneratedAt = ex_now\<rparr>"

definition ex_created :: "(desired_rec \<times> bool) res \<times> db \<Rightarrow> bool" where
  "ex_created x = (case x of (Inr (_, b), _) \<Rightarrow> b | _ \<Rightarrow> False)"

text \<open>Two publishers that both read revision 0, and a third that read revision 1.\<close>

definition ex_race :: "(int \<times> time \<times> DesiredState \<times> bool) list" where
  "ex_race = [(0, ex_now, ex_candidate, False), (0, ex_now, ex_candidate\<lparr>ds_Hash := ''g''\<rparr>, False),
     (1, ex_now, ex_candidate\<lparr>ds_Hash := ''g''\<rparr>, True)]"

definition ex_done :: db where
  "ex_done = ex_over\<lparr>network_operations := [ex_op\<lparr>no_Status := ''applied''\<rparr>]\<rparr>"

definition ex_sent :: NetworkOperation where
  "ex_sent = ex_op\<lparr>no_Status := ''waiting_agent'', no_DesiredRevision := 4, no_DesiredHash := replicate 64 CHR ''b''\<rparr>"

definition ex_waiting :: db where
  "ex_waiting = ex_over\<lparr>network_operations := [ex_sent]\<rparr>"

section \<open>Interfaces and billing policies\<close>

definition ex_if :: NetworkInterface where
  "ex_if = \<lparr>ni_ID = replicate 32 CHR ''a'', ni_Generation = replicate 32 CHR ''b'', ni_Name = ''eth0'', ni_Index = 2,
     ni_Kind = ''device'', ni_MAC = '''', ni_MTU = 1500, ni_Up = True, ni_Carrier = True, ni_ParentIndex = 0,
     ni_MasterIndex = 0, ni_Addresses = [], ni_UsableAddresses = [], ni_DefaultIPv4 = True, ni_DefaultIPv6 = False,
     ni_CountersValid = True, ni_Rx = 500, ni_Tx = 600, ni_RateValid = False, ni_RxRate = 0, ni_TxRate = 0\<rparr>"

definition ex_snapshot :: NetworkSnapshot where
  "ex_snapshot = \<lparr>ns_Version = 1, ns_CollectorID = replicate 32 CHR ''c'', ns_BootID = ''boot'', ns_Sequence = 5,
     ns_SampledAt = ex_now, ns_Status = ''ok'', ns_Error = '''', ns_Interfaces = [ex_if]\<rparr>"

definition ex_policy :: NetworkBillingPolicy where
  "ex_policy = \<lparr>bp_Revision = 1, bp_Mode = ''interfaces'', bp_InterfaceIDs = [replicate 32 CHR ''a'']\<rparr>"

definition ex_switch :: NetworkBillingSwitch where
  "ex_switch = \<lparr>sw_ID = replicate 32 CHR ''d'', sw_PreviousRevision = 0, sw_Next = ex_policy, sw_TS = ex_now,
     sw_Legacy = \<lparr>lc_Epoch = ''boot'', lc_Rx = 1000, lc_Tx = 2000\<rparr>, sw_Snapshot = Some ex_snapshot\<rparr>"

definition ex_billing_ctx :: ictx where
  "ex_billing_ctx = (ex_ctx ex_now)\<lparr>ic_hb := ex_heartbeat\<lparr>hb_NetworkBillingSwitch := Some ex_switch,
     hb_Metrics := \<lparr>me_NetRx = 1000, me_NetTx = 2000, me_Network = Some ex_snapshot\<rparr>\<rparr>\<rparr>"

definition ex_billing :: run where
  "ex_billing = ex_run\<lparr>m_db := ex_db\<lparr>network_billing_state := [(1, no_state\<lparr>bs_Requested := 1\<rparr>)],
     network_billing_policies := [((1, 1), ex_policy)]\<rparr>\<rparr>"

lemma ex_billing_ok: "billed_ok ex_billing"
  by code_simp

lemma ex_cutover: "isOk (ingestNetworkBilling ex_billing_ctx ex_billing)"
  by code_simp

lemma ex_switch_valid: "NetworkBillingSwitch_Validate ex_env ex_switch = Inr ()"
  by code_simp

definition ex_baselined :: db where
  "ex_baselined = ex_db\<lparr>network_billing_baselines := [((1, replicate 32 CHR ''a''),
     \<lparr>bb_Source = snapshotSource ex_snapshot, bb_Generation = replicate 32 CHR ''b'', bb_Sequence = 4, bb_Rx = 100, bb_Tx = 200\<rparr>)]\<rparr>"

definition ex_receipt :: ForwardReceipt where
  "ex_receipt = \<lparr>fr_ID = replicate 32 CHR ''e'', fr_Revision = 4, fr_Hash = replicate 64 CHR ''b'', fr_TS = ex_now, fr_Counters = []\<rparr>"


definition ex_listening :: db where
  "ex_listening = ex_db\<lparr>port_forward_revisions := [((3, 1), 80), ((3, 2), 8080)],
     listener_reservations := [\<lparr>lr_ServerID = 1, lr_Kind = ''forward'', lr_ResourceID = 3, lr_ListenPort = 8080\<rparr>]\<rparr>"

definition ex_nat :: NatConfig where
  "ex_nat = \<lparr>nat_Schema = 1, nat_Interface = ''eth0'', nat_LocalAddress = ''10.0.0.5'',
     nat_Mappings = [\<lparr>nm_PublicPort = 20000, nm_LocalPort = 20000, nm_Count = 3, nm_Network = ''''\<rparr>,
       \<lparr>nm_PublicPort = 40022, nm_LocalPort = 2022, nm_Count = 0, nm_Network = ''tcp''\<rparr>]\<rparr>"


definition ex_measured :: ServerQuotaSnapshot where
  "ex_measured = \<lparr>qs_Server = ex_server, qs_ObservedAt = ex_now, qs_PeriodStart = PeriodStart ex_now 1, qs_Calibration = None\<rparr>"


definition ex_ledger :: db where
  "ex_ledger = ex_db\<lparr>traffic_daily := [((729166, ''node'', 7), (5, 3)), ((729165, ''node'', 7), (7, 5)), ((729166, ''node'', 8), (1, 1))]\<rparr>"

end
