(* ===== verification/NodeMeters.thy ===== *)
theory NodeMeters
  imports Tables
begin

text \<open>
  The meters an agent keeps on its host: the named counters of the nft table of nodes
  (\<^verbatim>\<open>internal/nft/nodes.go\<close>) and the accounting slices of standalone cores
  (\<^verbatim>\<open>internal/core/systemd.go\<close>). The record \<open>host\<close> is what nft and systemd hold; whether a
  command of theirs works at a given moment is an argument, so that every failure is covered.
\<close>

section \<open>What the host holds\<close>

datatype direction = DirRx | DirTx

text \<open>An accounting slice: does a task run in it, and what does its accounting say, if anything.\<close>

record slice =
  sl_Populated :: bool
  sl_Valid :: bool
  sl_Epoch :: string
  sl_Rx :: i64
  sl_Tx :: i64

text \<open>
  \<open>ho_nft\<close> is the table \<^verbatim>\<open>ctlvps_nodes\<close>, if there is one: bytes and packets of every named
  counter \<^verbatim>\<open>n<id>_rx\<close>, \<^verbatim>\<open>n<id>_tx\<close>. \<open>ho_counted\<close> are the nodes the rules of the table count.
\<close>

record host =
  ho_nft :: "((i64 \<times> direction) \<times> i64 \<times> i64) list option"
  ho_counted :: "i64 list"
  ho_slices :: "(i64 \<times> slice) list"

text \<open>The fields of a node's specification the accounting rules are made of (\<^verbatim>\<open>agent.MeterRule\<close>).\<close>

record MeterRule =
  mr_NodeID :: i64
  mr_Port :: int
  mr_Core :: string
  mr_Blocked :: bool
  mr_Retired :: bool

definition IsStandalone :: "string \<Rightarrow> bool" where
  "IsStandalone kind \<longleftrightarrow> kind = ''snell'' \<or> kind = ''mieru''"

section \<open>Node counters\<close>

text \<open>
  \<^verbatim>\<open>NodeRules\<close> sorts the nodes and refuses an identity without a mark or one it has seen; what
  is kept of the rules it prints is which counters they declare and which nodes they count.
\<close>

definition nodeRule :: "int set \<times> i64 set \<Rightarrow> MeterRule \<Rightarrow> (int set \<times> i64 set) res" where
  "nodeRule st n =
     (case st of (ports, ids) \<Rightarrow>
      if mr_Core n \<noteq> ''singbox'' then Inr (ports, ids)
      else bindR (NodeMark (mr_NodeID n)) (\<lambda>_.
        if (\<not> mr_Retired n \<and> (mr_Port n < 1 \<or> mr_Port n > 65535 \<or> mr_Port n \<in> ports)) \<or> mr_NodeID n \<in> ids
        then Inl (Err ''duplicate/invalid accounting identity'')
        else Inr (if mr_Retired n then ports else insert (mr_Port n) ports, insert (mr_NodeID n) ids)))"

definition NodeRules :: "MeterRule list \<Rightarrow> MeterRule list res" where
  "NodeRules ns =
     (let sorted = sort_key mr_NodeID ns
      in bindR (foldE nodeRule ({}, {}) sorted) (\<lambda>_. Inr (filter (\<lambda>n. mr_Core n = ''singbox'') sorted)))"

text \<open>The transaction nft runs: missing counters are added at zero, existing ones keep their values.\<close>

definition addCounters :: "((i64 \<times> direction) \<times> i64 \<times> i64) list \<Rightarrow> MeterRule \<Rightarrow>
    ((i64 \<times> direction) \<times> i64 \<times> i64) list" where
  "addCounters t n = insertNew (mr_NodeID n, DirTx) (0, 0) (insertNew (mr_NodeID n, DirRx) (0, 0) t)"

definition nftTable :: "host \<Rightarrow> ((i64 \<times> direction) \<times> i64 \<times> i64) list" where
  "nftTable h = (case ho_nft h of None \<Rightarrow> [] | Some t \<Rightarrow> t)"

definition installRules :: "MeterRule list \<Rightarrow> host \<Rightarrow> host" where
  "installRules rules h =
     h\<lparr>ho_nft := Some (foldl addCounters (nftTable h) rules),
       ho_counted := map mr_NodeID (filter (\<lambda>n. \<not> mr_Retired n) rules)\<rparr>"

text \<open>
  The routing check and the two runs of nft of \<^verbatim>\<open>EnsureNodes\<close>. A run that was killed may have
  committed although it reports an error: \<open>t 2\<close> says that it took effect, \<open>t 3\<close> that it
  reported success.
\<close>

definition EnsureNodes :: "(nat \<Rightarrow> bool) \<Rightarrow> MeterRule list \<Rightarrow> host \<Rightarrow> unit res \<times> host" where
  "EnsureNodes t ns h =
     (if \<not> t 0 then (Inl (Err ''policy routing overlaps VpsCT accounting marks''), h)
      else case NodeRules ns of
        Inl e \<Rightarrow> (Inl e, h)
      | Inr rules \<Rightarrow>
          if \<not> t 1 then (Inl (Err ''nft''), h)
          else (if t 3 then Inr () else Inl (Err ''nft''), if t 2 \<or> t 3 then installRules rules h else h))"

definition counterIDs :: "((i64 \<times> direction) \<times> i64 \<times> i64) list \<Rightarrow> i64 list" where
  "counterIDs t = sort (remdups (filter (\<lambda>i. i > 0) (map (fst \<circ> fst) t)))"

definition readCounter :: "((i64 \<times> direction) \<times> i64 \<times> i64) list \<Rightarrow> i64 \<Rightarrow> PortCounter res" where
  "readCounter t i =
     (case (lookup t (i, DirRx), lookup t (i, DirTx)) of
        (Some (rx, rxp), Some (tx, txp)) \<Rightarrow>
          Inr \<lparr>pc_NodeID = i, pc_Source = ''nft-node-v1'', pc_Epoch = '''', pc_FromZero = True, pc_Port = 0,
               pc_Rx = rx, pc_Tx = tx, pc_RxPkts = rxp, pc_TxPkts = txp\<rparr>
      | _ \<Rightarrow> Inl (Err ''incomplete node counter''))"

definition ReadNodes :: "bool \<Rightarrow> host \<Rightarrow> PortCounter list res" where
  "ReadNodes ok h =
     (case ho_nft h of
        None \<Rightarrow> Inl (Err ''nft'')
      | Some t \<Rightarrow>
          if \<not> ok then Inl (Err ''nft'')
          else foldE (\<lambda>out i. bindR (readCounter t i) (\<lambda>c. Inr (out @ [c]))) [] (counterIDs t))"

definition NodesExist :: "bool \<Rightarrow> host \<Rightarrow> bool" where
  "NodesExist ok h \<longleftrightarrow> ok \<and> ho_nft h \<noteq> None"

definition PruneNodes :: "(nat \<Rightarrow> bool) \<Rightarrow> MeterRule list \<Rightarrow> i64 list \<Rightarrow> host \<Rightarrow> unit res \<times> host" where
  "PruneNodes t remaining ids h =
     (case NodeRules remaining of
        Inl e \<Rightarrow> (Inl e, h)
      | Inr rules \<Rightarrow>
        case ReadNodes (t 0) h of
          Inl e \<Rightarrow>
            if NodesExist (t 1) h then (Inl e, h)
            else if list_ex (\<lambda>n. mr_NodeID n \<in> set ids) remaining
            then (Inl (Err ''cannot prune a retained meter''), h)
            else if \<not> t 2 then (Inl (Err ''nft''), h)
            else (if t 4 then Inr () else Inl (Err ''nft''), if t 3 \<or> t 4 then installRules rules h else h)
        | Inr existing \<Rightarrow>
            if list_ex (\<lambda>n. mr_NodeID n \<in> set ids) remaining
            then (Inl (Err ''cannot prune a retained meter''), h)
            else if \<not> t 2 then (Inl (Err ''nft''), h)
            else (if t 4 then Inr () else Inl (Err ''nft''),
                  if t 3 \<or> t 4 then
                    let h1 = installRules rules h
                    in h1\<lparr>ho_nft := Some (deleteWhere (\<lambda>((i, _), _). i \<in> set ids \<and> i \<in> pc_NodeID ` set existing)
                                    (nftTable h1))\<rparr>
                  else h))"

section \<open>Slices of standalone cores\<close>

definition EmptySnellMeter :: "bool \<Rightarrow> i64 \<Rightarrow> host \<Rightarrow> unit res" where
  "EmptySnellMeter ok nodeID h =
     (if nodeID \<le> 0 then Inl (Err ''invalid meter ID'')
      else case lookup (ho_slices h) nodeID of
        None \<Rightarrow> Inl (Err ''managed cgroup unavailable'')
      | Some s \<Rightarrow>
          if \<not> ok then Inl (Err ''managed cgroup unavailable'')
          else if sl_Populated s then Inl (Err ''retired Snell slice still populated'') else Inr ())"

definition FinalSnellReading :: "(nat \<Rightarrow> bool) \<Rightarrow> i64 \<Rightarrow> host \<Rightarrow> slice res" where
  "FinalSnellReading u nodeID h =
     bindR (EmptySnellMeter (u 0) nodeID h) (\<lambda>_.
       case lookup (ho_slices h) nodeID of
         None \<Rightarrow> Inl (Err ''final Snell counter unavailable'')
       | Some s \<Rightarrow>
           if \<not> u 1 then Inl (Err ''systemctl'')
           else if \<not> sl_Valid s then Inl (Err ''final Snell counter unavailable'') else Inr s)"

text \<open>
  \<open>u 0\<close>: \<^verbatim>\<open>systemctl is-active\<close> answers, \<open>u 1\<close>: the cgroup can be read, \<open>u 2\<close> and \<open>u 3\<close>: stopping
  the slice took effect and was reported, \<open>u 4\<close> and \<open>u 5\<close>: the unit file is removed and the
  daemon reloaded.
\<close>

definition RemoveSnellMeter :: "(nat \<Rightarrow> bool) \<Rightarrow> i64 \<Rightarrow> host \<Rightarrow> unit res \<times> host" where
  "RemoveSnellMeter u nodeID h =
     (if nodeID \<le> 0 then (Inl (Err ''invalid meter ID''), h)
      else
        let active = (u 0 \<and> lookup (ho_slices h) nodeID \<noteq> None);
            unlink = (\<lambda>h. if \<not> u 4 then (Inl (Err ''remove unit''), h)
                          else if \<not> u 5 then (Inl (Err ''daemon-reload''), h) else (Inr (), h))
        in if \<not> active then unlink h
           else case EmptySnellMeter (u 1) nodeID h of
             Inl e \<Rightarrow> (Inl e, h)
           | Inr _ \<Rightarrow>
               let h1 = (if u 2 \<or> u 3 then h\<lparr>ho_slices := deleteWhere (\<lambda>(i, _). i = nodeID) (ho_slices h)\<rparr> else h)
               in if \<not> u 3 then (Inl (Err ''stop''), h1) else unlink h1)"

section \<open>Readings\<close>

text \<open>What the meter of a node that runs on a given core shows, and whether it can still move.\<close>

definition nftReading :: "host \<Rightarrow> i64 \<Rightarrow> (i64 \<times> i64) option" where
  "nftReading h i =
     (case (lookup (nftTable h) (i, DirRx), lookup (nftTable h) (i, DirTx)) of
        (Some (rx, _), Some (tx, _)) \<Rightarrow> Some (rx, tx) | _ \<Rightarrow> None)"

definition reading :: "host \<Rightarrow> string \<Rightarrow> i64 \<Rightarrow> (i64 \<times> i64) option" where
  "reading h core i =
     (if core = ''singbox'' then nftReading h i
      else if IsStandalone core then map_option (\<lambda>s. (sl_Rx s, sl_Tx s)) (lookup (ho_slices h) i)
      else None)"

definition moving :: "host \<Rightarrow> string \<Rightarrow> i64 \<Rightarrow> bool" where
  "moving h core i \<longleftrightarrow>
     (if core = ''singbox'' then i \<in> set (ho_counted h)
      else case lookup (ho_slices h) i of None \<Rightarrow> False | Some s \<Rightarrow> sl_Populated s)"

lemma lookup_deleteKeys:
  assumes "\<And>k v. P (k, v) \<longleftrightarrow> Q k"
  shows "lookup (deleteWhere P t) k = (if Q k then None else lookup t k)"
  using assms by (induction t) (auto simp: deleteWhere_def)

lemma foldl_addCounters:
  "lookup (foldl addCounters t ns) (i, k) =
     (case lookup t (i, k) of Some v \<Rightarrow> Some v | None \<Rightarrow> if i \<in> mr_NodeID ` set ns then Some (0, 0) else None)"
proof (induction ns arbitrary: t)
  case Nil
  then show ?case by (simp split: option.splits)
next
  case (Cons n ns)
  then show ?case
    by (cases k) (auto simp: addCounters_def lookup_insertNew split: option.splits)
qed

lemma installRules_frame [simp]:
  "ho_slices (installRules rules h) = ho_slices h"
  "ho_counted (installRules rules h) = map mr_NodeID (filter (\<lambda>n. \<not> mr_Retired n) rules)"
  by (simp_all add: installRules_def)

lemma lookup_installRules:
  "lookup (nftTable (installRules rules h)) (i, k) =
     (case lookup (nftTable h) (i, k) of Some v \<Rightarrow> Some v
      | None \<Rightarrow> if i \<in> mr_NodeID ` set rules then Some (0, 0) else None)"
  by (simp add: installRules_def nftTable_def foldl_addCounters split: option.splits)

lemma installRules_reading:
  "i \<notin> mr_NodeID ` set rules \<Longrightarrow> nftReading (installRules rules h) i = nftReading h i"
  by (simp add: nftReading_def lookup_installRules split: option.splits)

lemma installRules_keeps: "nftReading h i = Some v \<Longrightarrow> nftReading (installRules rules h) i = Some v"
  by (auto simp: nftReading_def lookup_installRules split: option.splits)

lemma NodeRules_rules: "NodeRules ns = Inr rules \<Longrightarrow> set rules = {n \<in> set ns. mr_Core n = ''singbox''}"
  by (auto simp: NodeRules_def Let_def bindR_eq_Inr)

text \<open>Reading the table gives every complete counter as it stands.\<close>

lemma foldE_collect:
  assumes "foldE (\<lambda>out i. bindR (f i) (\<lambda>c. Inr (out @ [c]))) acc is = Inr out"
  shows "\<exists>cs. out = acc @ cs \<and> map f is = map Inr cs"
  using assms
proof (induction "is" arbitrary: acc)
  case Nil
  then show ?case by simp
next
  case (Cons i "is")
  then obtain c where c: "f i = Inr c" "foldE (\<lambda>out i. bindR (f i) (\<lambda>c. Inr (out @ [c]))) (acc @ [c]) is = Inr out"
    by (auto simp: bindR_eq_Inr)
  from Cons.IH [OF c(2)] obtain cs where "out = (acc @ [c]) @ cs" "map f is = map Inr cs" by blast
  then show ?case using c(1) by (intro exI [of _ "c # cs"]) simp
qed

lemma ReadNodes_reading:
  assumes "ReadNodes ok h = Inr cs" "c \<in> set cs"
  shows "nftReading h (pc_NodeID c) = Some (pc_Rx c, pc_Tx c)"
proof -
  obtain t where t: "ho_nft h = Some t"
    "foldE (\<lambda>out i. bindR (readCounter t i) (\<lambda>c. Inr (out @ [c]))) [] (counterIDs t) = Inr cs"
    using assms(1) by (auto simp: ReadNodes_def split: option.splits if_splits)
  obtain i where "readCounter t i = Inr c"
    using foldE_collect [OF t(2)] assms(2) by (metis append_Nil ex_map_conv image_eqI in_set_conv_nth length_map list.set_map nth_map)
  then show ?thesis using t(1)
    by (auto simp: readCounter_def nftReading_def nftTable_def split: option.splits prod.splits)
qed

end
