(* ===== verification/AgentState.thy ===== *)
theory AgentState
  imports NodeMeters Heartbeat
begin

text \<open>
  What an agent keeps in \<^verbatim>\<open>state.json\<close> (\<^verbatim>\<open>internal/agent/state.go\<close>): its record, the checks on
  loading it, and saving it. A save writes a temporary file, syncs it, renames it and syncs the
  directory, so it can fail before the rename, with the old file in place, or after it, with
  the new file in place until a power loss decides. \<open>ag_Disk\<close> lists the contents the file may
  have after a power loss, the one the running system sees first.
\<close>

section \<open>The record\<close>

record AgentMeter =
  am_Generation :: string
  am_NodeID :: i64
  am_Port :: int
  am_Core :: string

record Retirement =
  rt_Batch :: MeterSettlement
  rt_Nodes :: "AgentMeter list"
  rt_Remaining :: "MeterRule list"
  rt_Acked :: bool

record forwardPending =
  fp_Receipt :: ForwardReceipt
  fp_Retired :: "i64 list"
  fp_Acked :: bool

text \<open>\<^verbatim>\<open>agent.State\<close>: the fields the modelled operations read or write.\<close>

record State =
  as_ForwardUDPVersion :: int
  as_OpenRCMieruVersion :: int
  as_OpenRCVersion :: int
  as_NATVersion :: int
  as_ListenBindingVersion :: int
  as_ForwardDNSVersion :: int
  as_ForwardPrivateVersion :: int
  as_ForwardTransportVersion :: int
  as_NetworkForwardVersion :: int
  as_ForwardPending :: "forwardPending option"
  as_NetworkBindingVersion :: int
  as_NetworkSSHVersion :: int
  as_NetworkWireGuardVersion :: int
  as_MitaVersion :: int
  as_NetworkEgressVersion :: int
  as_NetworkDesiredRevision :: i64
  as_NetworkDesiredHash :: string
  as_Retirement :: "Retirement option"
  as_MeterNodes :: "AgentMeter list"
  as_MeteringV1 :: bool
  as_ServerURL :: string
  as_AgentToken :: string
  as_AppliedRevision :: i64
  as_AppliedHash :: string
  as_ApplyError :: string
  as_CounterNonce :: string

section \<open>Loading\<close>

definition NetworkBindingVersion :: int where "NetworkBindingVersion = 1"
definition NetworkEgressVersion :: int where "NetworkEgressVersion = 1"
definition NetworkWireGuardVersion :: int where "NetworkWireGuardVersion = 1"
definition NetworkSSHVersion :: int where "NetworkSSHVersion = 1"
definition ForwardUDPVersion :: int where "ForwardUDPVersion = 2"
definition ForwardVersion :: int where "ForwardVersion = 1"

definition loadDesired :: "State \<Rightarrow> State res" where
  "loadDesired s =
     (if as_NetworkDesiredRevision s < 0 \<or> (as_NetworkDesiredRevision s = 0) \<noteq> (as_NetworkDesiredHash s = '''')
      then Inl (Err ''network desired-state revision is invalid'')
      else if as_NetworkDesiredRevision s > 0 then
        (if hexDecodedLen (as_NetworkDesiredHash s) \<noteq> Some 32
         then Inl (Err ''network desired-state digest is invalid'')
         else Inr (if as_NetworkBindingVersion s = 0
                   then s\<lparr>as_NetworkBindingVersion := NetworkBindingVersion\<rparr> else s))
      else Inr s)"

definition loadVersions :: "State \<Rightarrow> unit res" where
  "loadVersions s =
     (if as_NetworkBindingVersion s \<noteq> 0 \<and> as_NetworkBindingVersion s \<noteq> NetworkBindingVersion
      then Inl (Err ''unsupported persisted network binding version'')
      else if as_NATVersion s < 0 \<or> as_NATVersion s > NATVersion
      then Inl (Err ''unsupported persisted NAT version'')
      else if as_OpenRCMieruVersion s < 0 \<or> as_OpenRCMieruVersion s > 1 \<or>
              as_OpenRCVersion s < 0 \<or> as_OpenRCVersion s > 1
      then Inl (Err ''unsupported persisted OpenRC version'')
      else if list_ex (\<lambda>version. version < 0 \<or> version > 1)
                [as_ListenBindingVersion s, as_ForwardDNSVersion s, as_ForwardPrivateVersion s, as_ForwardTransportVersion s]
      then Inl (Err ''unsupported persisted network feature version'')
      else if as_ForwardUDPVersion s < 0 \<or> as_ForwardUDPVersion s > ForwardUDPVersion
      then Inl (Err ''unsupported persisted UDP feature version'')
      else if as_NetworkEgressVersion s \<noteq> 0 \<and>
              (as_NetworkEgressVersion s \<noteq> NetworkEgressVersion \<or> as_NetworkBindingVersion s \<noteq> NetworkBindingVersion)
      then Inl (Err ''unsupported persisted network egress version'')
      else if as_NetworkWireGuardVersion s \<noteq> 0 \<and>
              (as_NetworkWireGuardVersion s \<noteq> NetworkWireGuardVersion \<or> as_NetworkEgressVersion s \<noteq> NetworkEgressVersion)
      then Inl (Err ''unsupported persisted WireGuard version'')
      else if as_MitaVersion s \<noteq> 0 \<and> as_MitaVersion s \<noteq> 1
      then Inl (Err ''unsupported persisted mita capability'')
      else if as_NetworkSSHVersion s \<noteq> 0 \<and>
              (as_NetworkSSHVersion s \<noteq> NetworkSSHVersion \<or> as_NetworkEgressVersion s \<noteq> NetworkEgressVersion)
      then Inl (Err ''unsupported persisted SSH version'')
      else if as_NetworkForwardVersion s \<noteq> 0 \<and>
              (as_NetworkForwardVersion s \<noteq> ForwardVersion \<or> as_NetworkBindingVersion s \<noteq> NetworkBindingVersion)
      then Inl (Err ''unsupported persisted forwarding version'')
      else Inr ())"

text \<open>The argument is the decoded content of the file.\<close>

definition LoadState :: "State \<Rightarrow> State res" where
  "LoadState s =
     (if as_ServerURL s = '''' \<or> as_AgentToken s = '''' then Inl (Err ''state file incomplete'')
      else bindR (loadDesired s) (\<lambda>s1.
        bindR (loadVersions s1) (\<lambda>_.
          case as_ForwardPending s1 of
            None \<Rightarrow> Inr s1
          | Some p \<Rightarrow> bindR (ForwardReceipt_Validate (fp_Receipt p)) (\<lambda>_. Inr s1))))"

section \<open>Meter identities\<close>

definition maxMeterIdentities :: nat where "maxMeterIdentities = 2048"

text \<open>\<open>nonces\<close> are the random generations drawn for the new identities, one by one.\<close>

definition rememberMeter ::
  "(nat \<Rightarrow> string) \<Rightarrow> i64 set \<times> AgentMeter list \<Rightarrow> NodeSpec \<Rightarrow> i64 set \<times> AgentMeter list" where
  "rememberMeter nonces st n =
     (case st of (known, additions) \<Rightarrow>
      if np_NodeID n \<in> known then st
      else (insert (np_NodeID n) known,
            additions @ [\<lparr>am_Generation = nonces (length additions), am_NodeID = np_NodeID n,
                          am_Port = np_ListenPort n, am_Core = np_Core n\<rparr>]))"

definition rememberMeters :: "(nat \<Rightarrow> string) \<Rightarrow> NodeSpec list \<Rightarrow> State \<Rightarrow> State res" where
  "rememberMeters nonces ns s =
     (let additions = snd (foldl (rememberMeter nonces) (am_NodeID ` set (as_MeterNodes s), []) ns)
      in if additions \<noteq> [] \<and> length (as_MeterNodes s) + length additions > maxMeterIdentities
         then Inl (Err ''retained meter identity budget exhausted'')
         else Inr (s\<lparr>as_MeterNodes := as_MeterNodes s @ additions\<rparr>))"

section \<open>The process and its file\<close>

record agent =
  ag_State :: State
  ag_Disk :: "State list"
  ag_bootID :: string
  ag_desired :: "DesiredState option"
  ag_finalMeters :: bool

datatype saving = Saved | Lost | Unsynced

definition Save :: "saving \<Rightarrow> agent \<Rightarrow> unit res \<times> agent" where
  "Save sv a =
     (case sv of
        Saved \<Rightarrow> (Inr (), a\<lparr>ag_Disk := [ag_State a]\<rparr>)
      | Lost \<Rightarrow> (Inl (Err ''save state''), a)
      | Unsynced \<Rightarrow> (Inl (Err ''sync state directory''), a\<lparr>ag_Disk := ag_State a # ag_Disk a\<rparr>))"

definition epoch :: "agent \<Rightarrow> string" where
  "epoch a = ag_bootID a @ '':'' @ as_CounterNonce (ag_State a)"

definition meterEpoch :: "agent \<Rightarrow> AgentMeter \<Rightarrow> string" where
  "meterEpoch a n =
     epoch a @ '':nft-node-v1'' @ (if am_Generation n \<noteq> '''' then '':'' @ am_Generation n else '''')"

section \<open>Identities are unique and bounded\<close>

definition meters_ok :: "State \<Rightarrow> bool" where
  "meters_ok s \<longleftrightarrow> distinct (map am_NodeID (as_MeterNodes s)) \<and> length (as_MeterNodes s) \<le> maxMeterIdentities"

lemma rememberMeter_loop:
  assumes "foldl (rememberMeter nonces) (am_NodeID ` set ms, []) ns = (known, additions)"
  shows "known = am_NodeID ` set ms \<union> np_NodeID ` set ns \<and> distinct (map am_NodeID additions) \<and>
    am_NodeID ` set additions = np_NodeID ` set ns - am_NodeID ` set ms"
proof -
  have "foldl (rememberMeter nonces) (am_NodeID ` set ms \<union> am_NodeID ` set acc, acc) ns = (known, additions) \<Longrightarrow>
      distinct (map am_NodeID acc) \<Longrightarrow> am_NodeID ` set acc \<inter> am_NodeID ` set ms = {} \<Longrightarrow>
      known = am_NodeID ` set ms \<union> am_NodeID ` set acc \<union> np_NodeID ` set ns \<and> distinct (map am_NodeID additions) \<and>
      am_NodeID ` set additions = am_NodeID ` set acc \<union> (np_NodeID ` set ns - am_NodeID ` set ms)" for acc
  proof (induction ns arbitrary: acc)
    case Nil
    then show ?case by auto
  next
    case (Cons n ns)
    show ?case
    proof (cases "np_NodeID n \<in> am_NodeID ` set ms \<union> am_NodeID ` set acc")
      case True
      then have "foldl (rememberMeter nonces) (am_NodeID ` set ms \<union> am_NodeID ` set acc, acc) ns = (known, additions)"
        using Cons.prems(1) by (simp add: rememberMeter_def [of nonces "(_, _)" n])
      from Cons.IH [OF this Cons.prems(2,3)] True show ?thesis by auto
    next
      case False
      let ?a = "acc @ [\<lparr>am_Generation = nonces (length acc), am_NodeID = np_NodeID n,
        am_Port = np_ListenPort n, am_Core = np_Core n\<rparr>]"
      have "foldl (rememberMeter nonces) (am_NodeID ` set ms \<union> am_NodeID ` set ?a, ?a) ns = (known, additions)"
        using Cons.prems(1) False by (simp add: rememberMeter_def [of nonces "(_, _)" n])
      moreover have "distinct (map am_NodeID ?a)" "am_NodeID ` set ?a \<inter> am_NodeID ` set ms = {}"
        using Cons.prems(2,3) False by auto
      ultimately show ?thesis using Cons.IH [of ?a] False by auto
    qed
  qed
  from this [of "[]"] assms show ?thesis by simp
qed

lemma rememberMeters_ok:
  assumes "rememberMeters nonces ns s = Inr s'" "meters_ok s"
  shows "meters_ok s' \<and> set (as_MeterNodes s) \<subseteq> set (as_MeterNodes s') \<and>
    am_NodeID ` set (as_MeterNodes s') = am_NodeID ` set (as_MeterNodes s) \<union> np_NodeID ` set ns \<and>
    s' = s\<lparr>as_MeterNodes := as_MeterNodes s'\<rparr>"
proof -
  obtain known additions where f: "foldl (rememberMeter nonces) (am_NodeID ` set (as_MeterNodes s), []) ns = (known, additions)"
    by fastforce
  note l = rememberMeter_loop [OF f]
  have s': "s' = s\<lparr>as_MeterNodes := as_MeterNodes s @ additions\<rparr>"
    "additions \<noteq> [] \<longrightarrow> length (as_MeterNodes s) + length additions \<le> maxMeterIdentities"
    using assms(1) f by (auto simp: rememberMeters_def Let_def split: if_splits)
  show ?thesis using l s' assms(2) by (auto simp: meters_ok_def)
qed

lemma LoadState_plan:
  "LoadState s = Inr t \<Longrightarrow> as_Retirement t = as_Retirement s \<and> as_MeterNodes t = as_MeterNodes s"
  by (auto simp: LoadState_def loadDesired_def bindR_eq_Inr split: if_splits option.splits)

end
