(* ===== verification/MeterRetirement.thy ===== *)
theory MeterRetirement
  imports AgentState Accounting
begin

text \<open>
  The end of a node's meter (\<^verbatim>\<open>internal/agent/retirement.go\<close>) and the other side of it, the
  heartbeat handler of the panel (\<^verbatim>\<open>internal/api/agent.go\<close>). When a node has left the applied
  configuration the agent freezes its final reading in a batch, saves the batch, sends it until
  the panel acknowledges it, saves the acknowledgement, and only then deletes the meter and
  forgets the identity. Everything that can go wrong on the way is an argument: the record
  \<open>outcome\<close> says what the network, the disk, nft and systemd do to one call.
\<close>

section \<open>The panel\<close>

record HeartbeatResponse =
  hr_ForwardReceiptAck :: string
  hr_NetworkBillingVersion :: int
  hr_NetworkBillingAck :: string
  hr_FinalMeterVersion :: int
  hr_FinalMeterAck :: string
  hr_MeteringVersion :: int

definition no_response :: HeartbeatResponse where
  "no_response = \<lparr>hr_ForwardReceiptAck = '''', hr_NetworkBillingVersion = 0, hr_NetworkBillingAck = '''',
     hr_FinalMeterVersion = 0, hr_FinalMeterAck = '''', hr_MeteringVersion = 0\<rparr>"

definition NetworkBillingVersion :: int where "NetworkBillingVersion = 1"

text \<open>
  The handler up to the point where a durable report (a receipt, a billing cutover or a final
  batch) is answered; \<open>live\<close> is its remainder, for a live heartbeat. The quota evaluation that
  follows a settlement runs in transactions of its own and does not change the answer. The
  diagnostics of a durable report are empty.
\<close>

definition agentHeartbeat ::
  "env \<Rightarrow> (i64 list \<Rightarrow> i64 list) \<Rightarrow> time \<Rightarrow> Server \<Rightarrow> (Heartbeat \<Rightarrow> db \<Rightarrow> HeartbeatResponse res \<times> db) \<Rightarrow>
   Heartbeat \<Rightarrow> db \<Rightarrow> HeartbeatResponse res \<times> db" where
  "agentHeartbeat E order now server live hb d =
     (let settle = (\<lambda>respond. case Ingest E order now server hb d of
                      (Inl e, d1) \<Rightarrow> (Inl e, d1) | (Inr res, d1) \<Rightarrow> (Inr (respond res), d1))
      in if length (hb_Ports hb) > 4096 \<or> length (hb_Epoch hb) > 256 then (Inl (Err ''report exceeds limits''), d)
      else if hb_ForwardReceipt hb \<noteq> None
      then settle (\<lambda>res. no_response\<lparr>hr_ForwardReceiptAck := rs_ForwardReceiptAck res\<rparr>)
      else case bindR (ValidateForwardCounters (hb_ForwardCounters hb)) (\<lambda>_.
                if hb_ForwardCounters hb \<noteq> [] \<and> (hb_FinalMeters hb \<noteq> None \<or> hb_NetworkBillingSwitch hb \<noteq> None)
                then Inl (Err ''forward counters must not mix node settlement or network billing cutover'')
                else bindR (ValidateNetwork E (me_Network (hb_Metrics hb))) (\<lambda>_.
                  if hb_NetworkBillingRevision hb < 0 \<or> hb_NetworkBillingRevision hb > 9007199254740992
                  then Inl (Err ''invalid billing report'')
                  else case hb_NetworkBillingLegacy hb of None \<Rightarrow> Inr () | Some lc \<Rightarrow> LegacyNetworkCounters_Validate lc)) of
        Inl e \<Rightarrow> (Inl e, d)
      | Inr _ \<Rightarrow>
        (case hb_NetworkBillingSwitch hb of
           Some sw \<Rightarrow>
             if hb_FinalMeters hb \<noteq> None \<or> hb_Ports hb \<noteq> []
             then (Inl (Err ''billing switch must not mix node counters''), d)
             else (case NetworkBillingSwitch_Validate E sw of
                     Inl e \<Rightarrow> (Inl e, d)
                   | Inr _ \<Rightarrow> settle (\<lambda>res. no_response\<lparr>hr_NetworkBillingVersion := NetworkBillingVersion,
                                hr_NetworkBillingAck := rs_NetworkBillingAck res\<rparr>))
         | None \<Rightarrow>
           (case hb_FinalMeters hb of
              Some fm \<Rightarrow>
                (case MeterSettlement_Validate E fm of
                   Inl e \<Rightarrow> (Inl (Err ''invalid final meter snapshot''), d)
                 | Inr _ \<Rightarrow> settle (\<lambda>res. no_response\<lparr>hr_FinalMeterVersion := 1,
                              hr_FinalMeterAck := rs_FinalMeterAck res, hr_MeteringVersion := 1\<rparr>))
            | None \<Rightarrow> live hb d)))"

section \<open>What can happen to one call\<close>

text \<open>A request may be lost or refused on the way, or handled with its answer lost.\<close>

datatype link = Refused | Unanswered | Answered

record outcome =
  oc_link :: link
  oc_clock :: time
  oc_now :: time
  oc_save :: "nat \<Rightarrow> saving"
  oc_lock :: bool
  oc_list :: bool
  oc_nft :: "nat \<Rightarrow> bool"
  oc_unit :: "i64 \<Rightarrow> nat \<Rightarrow> bool"

text \<open>
  What stays the same: the digests, the order of Go's maps, the server the agent is enrolled
  for, the remainder of the panel's handler, whether the host runs OpenRC, and the length of
  the JSON encoding of a plan.
\<close>

record setting =
  se_env :: env
  se_order :: "i64 list \<Rightarrow> i64 list"
  se_server :: Server
  se_live :: "Heartbeat \<Rightarrow> db \<Rightarrow> HeartbeatResponse res \<times> db"
  se_openrc :: bool
  se_size :: "Retirement \<Rightarrow> int"

record world =
  wd_agent :: agent
  wd_panel :: db
  wd_host :: host

abbreviation memory :: "world \<Rightarrow> State" where
  "memory w \<equiv> ag_State (wd_agent w)"

abbreviation disk :: "world \<Rightarrow> State list" where
  "disk w \<equiv> ag_Disk (wd_agent w)"

text \<open>\<^verbatim>\<open>Client.Heartbeat\<close>\<close>

definition exchange :: "setting \<Rightarrow> outcome \<Rightarrow> Heartbeat \<Rightarrow> db \<Rightarrow> HeartbeatResponse res \<times> db" where
  "exchange S oc hb d =
     (let answer = agentHeartbeat (se_env S) (se_order S) (oc_clock oc) (se_server S) (se_live S) hb d
      in case oc_link oc of
           Refused \<Rightarrow> (Inl (Err ''connection''), d)
         | Unanswered \<Rightarrow> (Inl (Err ''connection''), snd answer)
         | Answered \<Rightarrow> answer)"

section \<open>The privileged boundary\<close>

definition processMeterSource :: "bool \<Rightarrow> string" where
  "processMeterSource openrc = (if openrc then ''openrc-cgroup-v1'' else ''systemd-v1'')"

definition finalReading ::
  "setting \<Rightarrow> outcome \<Rightarrow> agent \<Rightarrow> host \<Rightarrow> PortCounter list \<Rightarrow> AgentMeter \<Rightarrow> PortCounter res" where
  "finalReading S oc a h nftCounters n =
     (if am_Core n = ''singbox'' then
        (case lastBy pc_NodeID nftCounters (am_NodeID n) of
           None \<Rightarrow> Inl (Err ''final counter unavailable for node'')
         | Some c \<Rightarrow> Inr (c\<lparr>pc_Epoch := meterEpoch a n, pc_FromZero := True\<rparr>))
      else if IsStandalone (am_Core n) then
        bindR (FinalSnellReading (oc_unit oc (am_NodeID n)) (am_NodeID n) h) (\<lambda>r.
          Inr \<lparr>pc_NodeID = am_NodeID n, pc_Source = processMeterSource (se_openrc S), pc_Epoch = sl_Epoch r,
               pc_FromZero = True, pc_Port = am_Port n, pc_Rx = sl_Rx r, pc_Tx = sl_Tx r, pc_RxPkts = 0, pc_TxPkts = 0\<rparr>)
      else Inl (Err ''unsupported retiring core''))"

definition FinalRead :: "setting \<Rightarrow> outcome \<Rightarrow> agent \<Rightarrow> host \<Rightarrow> AgentMeter list \<Rightarrow> PortCounter list res" where
  "FinalRead S oc a h ns =
     bindR (ReadNodes (oc_list oc) h) (\<lambda>nftCounters.
       foldE (\<lambda>out n. bindR (finalReading S oc a h nftCounters n) (\<lambda>c. Inr (out @ [c]))) [] ns)"

fun removeMeters :: "(i64 \<Rightarrow> nat \<Rightarrow> bool) \<Rightarrow> AgentMeter list \<Rightarrow> host \<Rightarrow> unit res \<times> host" where
  "removeMeters u [] h = (Inr (), h)"
| "removeMeters u (n # ns) h =
     (if IsStandalone (am_Core n) then
        (case RemoveSnellMeter (u (am_NodeID n)) (am_NodeID n) h of
           (Inl e, h1) \<Rightarrow> (Inl e, h1)
         | (Inr _, h1) \<Rightarrow> removeMeters u ns h1)
      else removeMeters u ns h)"

definition Clean :: "outcome \<Rightarrow> Retirement \<Rightarrow> host \<Rightarrow> unit res \<times> host" where
  "Clean oc p h =
     (if \<not> oc_lock oc then (Inl (Err ''configuration busy''), h)
      else
        let ids = map am_NodeID (filter (\<lambda>n. am_Core n = ''singbox'') (rt_Nodes p))
        in case PruneNodes (oc_nft oc) (rt_Remaining p) ids h of
             (Inl e, h1) \<Rightarrow> (Inl e, h1)
           | (Inr _, h1) \<Rightarrow> removeMeters (oc_unit oc) (rt_Nodes p) h1)"

section \<open>The plan\<close>

definition Retirement_validate :: "env \<Rightarrow> Retirement \<Rightarrow> unit res" where
  "Retirement_validate E p =
     bindR (MeterSettlement_Validate E (rt_Batch p)) (\<lambda>_.
       if length (rt_Nodes p) \<noteq> length (ms_Counters (rt_Batch p)) \<or> length (rt_Remaining p) > maxMeterIdentities
       then Inl (Err ''incomplete retirement plan'')
       else if \<not> distinct (map am_NodeID (rt_Nodes p)) then Inl (Err ''duplicate retirement identity'')
       else if \<not> list_all (\<lambda>c. pc_NodeID c \<in> am_NodeID ` set (rt_Nodes p)) (ms_Counters (rt_Batch p))
       then Inl (Err ''retirement snapshot identity mismatch'')
       else if list_ex (\<lambda>n. mr_NodeID n \<in> am_NodeID ` set (rt_Nodes p)) (rt_Remaining p)
       then Inl (Err ''retirement plan contains live identity'')
       else Inr ())"

text \<open>Which identities have left the configuration, at most one batch of them, and the rules of the rest.\<close>

definition retiringNodes :: "AgentMeter list \<Rightarrow> NodeSpec list \<Rightarrow> AgentMeter list" where
  "retiringNodes meters ns =
     take SettlementBatchSize (filter (\<lambda>n. lastBy np_NodeID ns (am_NodeID n) = None) meters)"

definition remainingRule :: "NodeSpec list \<Rightarrow> AgentMeter \<Rightarrow> MeterRule" where
  "remainingRule ns n =
     (case lastBy np_NodeID ns (am_NodeID n) of
        Some spec \<Rightarrow> \<lparr>mr_NodeID = am_NodeID n, mr_Port = np_ListenPort spec, mr_Core = np_Core spec,
                      mr_Blocked = np_Blocked spec, mr_Retired = False\<rparr>
      | None \<Rightarrow> \<lparr>mr_NodeID = am_NodeID n, mr_Port = am_Port n, mr_Core = am_Core n,
                 mr_Blocked = True, mr_Retired = True\<rparr>)"

definition remainingRules :: "AgentMeter list \<Rightarrow> NodeSpec list \<Rightarrow> MeterRule list" where
  "remainingRules meters ns =
     map (remainingRule ns)
       (filter (\<lambda>n. am_NodeID n \<notin> am_NodeID ` set (retiringNodes meters ns)) meters)"

definition SettlementBytes :: int where "SettlementBytes = 1048576"

definition beginRetirement :: "setting \<Rightarrow> outcome \<Rightarrow> world \<Rightarrow> unit res \<times> world" where
  "beginRetirement S oc w =
     (let a = wd_agent w; s = memory w
      in if as_Retirement s \<noteq> None \<or> \<not> ag_finalMeters a \<or> \<not> as_MeteringV1 s \<or> as_ApplyError s \<noteq> '''' then (Inr (), w)
      else case ag_desired a of
        None \<Rightarrow> (Inr (), w)
      | Some ds \<Rightarrow>
          let ns = retiringNodes (as_MeterNodes s) (ds_Nodes ds)
          in if ns = [] then (Inr (), w)
             else case FinalRead S oc a (wd_host w) ns of
               Inl e \<Rightarrow> (Inl e, w)
             | Inr counters \<Rightarrow>
                 let batch = \<lparr>ms_ID = digestSettlement (se_env S) (oc_now oc) counters, ms_TS = oc_now oc,
                              ms_Counters = counters\<rparr>;
                     p = \<lparr>rt_Batch = batch, rt_Nodes = ns,
                          rt_Remaining = remainingRules (as_MeterNodes s) (ds_Nodes ds), rt_Acked = False\<rparr>
                 in case MeterSettlement_Validate (se_env S) batch of
                      Inl e \<Rightarrow> (Inl e, w)
                    | Inr _ \<Rightarrow>
                        if se_size S p > SettlementBytes
                        then (Inl (Err ''final settlement exceeds batch budget''), w)
                        else case Save (oc_save oc 2) (a\<lparr>ag_State := s\<lparr>as_Retirement := Some p\<rparr>\<rparr>) of
                          (Inr _, a1) \<Rightarrow> (Inr (), w\<lparr>wd_agent := a1\<rparr>)
                        | (Inl e, a1) \<Rightarrow> (Inl e, w\<lparr>wd_agent := a1\<lparr>ag_State := s\<rparr>\<rparr>))"

section \<open>Settling and cleaning up\<close>

definition finalHeartbeat :: "MeterSettlement \<Rightarrow> Heartbeat" where
  "finalHeartbeat fm =
     \<lparr>hb_NetworkBillingHeld = False, hb_NetworkBillingRevision = 0, hb_NetworkBillingLegacy = None,
      hb_NetworkBillingSwitch = None, hb_FinalMeters = Some fm, hb_Epoch = '''', hb_TS = 0, hb_Metrics = no_metrics,
      hb_Ports = [], hb_ForwardCounters = [], hb_ForwardReceipt = None\<rparr>"

definition acknowledge :: "setting \<Rightarrow> outcome \<Rightarrow> Retirement \<Rightarrow> world \<Rightarrow> Retirement res \<times> world" where
  "acknowledge S oc p w =
     (if rt_Acked p then (Inr p, w)
      else case exchange S oc (finalHeartbeat (rt_Batch p)) (wd_panel w) of
        (Inl e, d) \<Rightarrow> (Inl e, w\<lparr>wd_panel := d\<rparr>)
      | (Inr resp, d) \<Rightarrow>
          let w1 = w\<lparr>wd_panel := d\<rparr>; a = wd_agent w; q = p\<lparr>rt_Acked := True\<rparr>
          in if hr_FinalMeterVersion resp < 1 \<or> hr_FinalMeterAck resp \<noteq> ms_ID (rt_Batch p)
             then (Inl (Err ''controller did not acknowledge final meter snapshot''), w1)
             else case Save (oc_save oc 0) (a\<lparr>ag_State := (ag_State a)\<lparr>as_Retirement := Some q\<rparr>\<rparr>) of
               (Inr _, a1) \<Rightarrow> (Inr q, w1\<lparr>wd_agent := a1\<rparr>)
             | (Inl e, a1) \<Rightarrow> (Inl e, w1\<lparr>wd_agent := a1\<lparr>ag_State := ag_State a\<rparr>\<rparr>))"

definition forget :: "Retirement \<Rightarrow> State \<Rightarrow> State" where
  "forget p s =
     s\<lparr>as_MeterNodes := filter (\<lambda>n. am_NodeID n \<notin> am_NodeID ` set (rt_Nodes p)) (as_MeterNodes s),
       as_Retirement := None\<rparr>"

definition flushRetirement :: "setting \<Rightarrow> outcome \<Rightarrow> world \<Rightarrow> unit res \<times> world" where
  "flushRetirement S oc w =
     (case as_Retirement (memory w) of
        None \<Rightarrow> (Inr (), w)
      | Some p \<Rightarrow>
        (case Retirement_validate (se_env S) p of
           Inl e \<Rightarrow> (Inl e, w)
         | Inr _ \<Rightarrow>
           (case acknowledge S oc p w of
              (Inl e, w1) \<Rightarrow> (Inl e, w1)
            | (Inr q, w1) \<Rightarrow>
              (case Clean oc q (wd_host w1) of
                 (Inl e, h) \<Rightarrow> (Inl e, w1\<lparr>wd_host := h\<rparr>)
               | (Inr _, h) \<Rightarrow>
                 (case Save (oc_save oc 1) ((wd_agent w1)\<lparr>ag_State := forget q (memory w1)\<rparr>) of
                    (Inr _, a1) \<Rightarrow> (Inr (), w1\<lparr>wd_host := h, wd_agent := a1\<rparr>)
                  | (Inl e, a1) \<Rightarrow> (Inl e, w1\<lparr>wd_host := h, wd_agent := a1\<lparr>ag_State := memory w1\<rparr>\<rparr>))))))"

definition retirementPending :: "setting \<Rightarrow> outcome \<Rightarrow> world \<Rightarrow> bool res \<times> world" where
  "retirementPending S oc w =
     (case flushRetirement S oc w of
        (Inl e, w1) \<Rightarrow> (Inl e, w1)
      | (Inr _, w1) \<Rightarrow>
        (case beginRetirement S oc w1 of
           (Inl e, w2) \<Rightarrow> (Inl e, w2)
         | (Inr _, w2) \<Rightarrow> (Inr (as_Retirement (memory w2) \<noteq> None), w2)))"

section \<open>Applying another configuration\<close>

text \<open>
  The accounting part of \<^verbatim>\<open>Agent.apply\<close>: identities are remembered and saved before anything
  can count, a missing table gets a new nonce, and the rules of the configuration are installed
  with every other known node of the shared core retired.
\<close>

definition meterRules :: "NodeSpec list \<Rightarrow> AgentMeter list \<Rightarrow> MeterRule list" where
  "meterRules ns meters =
     map (\<lambda>n. \<lparr>mr_NodeID = np_NodeID n, mr_Port = np_ListenPort n, mr_Core = np_Core n,
               mr_Blocked = np_Blocked n, mr_Retired = False\<rparr>) ns @
     map (\<lambda>n. \<lparr>mr_NodeID = am_NodeID n, mr_Port = 0, mr_Core = am_Core n, mr_Blocked = True, mr_Retired = True\<rparr>)
       (filter (\<lambda>n. am_Core n = ''singbox'' \<and> am_NodeID n \<notin> np_NodeID ` set ns) meters)"

definition renewNonce :: "outcome \<Rightarrow> string \<Rightarrow> host \<Rightarrow> agent \<Rightarrow> unit res \<times> agent" where
  "renewNonce oc fresh h a =
     (if NodesExist (oc_list oc) h then (Inr (), a)
      else Save (oc_save oc 1) (a\<lparr>ag_State := (ag_State a)\<lparr>as_CounterNonce := fresh\<rparr>\<rparr>))"

definition applyMeters ::
  "outcome \<Rightarrow> (nat \<Rightarrow> string) \<Rightarrow> string \<Rightarrow> bool \<Rightarrow> DesiredState \<Rightarrow> world \<Rightarrow> unit res \<times> world" where
  "applyMeters oc nonces fresh available ds w =
     (let a = wd_agent w
      in case rememberMeters nonces (ds_Nodes ds) (ag_State a) of
        Inl e \<Rightarrow> (Inl e, w)
      | Inr s \<Rightarrow>
        (case Save (oc_save oc 0) (a\<lparr>ag_State := s\<rparr>) of
           (Inl e, a1) \<Rightarrow> (Inl e, w\<lparr>wd_agent := a1\<rparr>)
         | (Inr _, a1) \<Rightarrow>
           if \<not> available
           then (Inl (Err ''nftables is required for shared-process node accounting''), w\<lparr>wd_agent := a1\<rparr>)
           else
             (case renewNonce oc fresh (wd_host w) a1 of
                (Inl e, a2) \<Rightarrow> (Inl e, w\<lparr>wd_agent := a2\<rparr>)
              | (Inr _, a2) \<Rightarrow>
                (case EnsureNodes (oc_nft oc) (meterRules (ds_Nodes ds) (as_MeterNodes s)) (wd_host w) of
                   (Inl e, h) \<Rightarrow> (Inl e, w\<lparr>wd_agent := a2, wd_host := h\<rparr>)
                 | (Inr _, h) \<Rightarrow> (Inr (), w\<lparr>wd_agent := a2, wd_host := h\<rparr>)))))"

end
