(* ===== verification/Settlement.thy ===== *)
theory Settlement
  imports MeterRetirement
begin

text \<open>
  No meter is deleted unread. An agent and the panel are run against every behaviour of the
  network, the disk, nft and systemd and every interleaving with other work, crashes and power
  losses; whenever the agent deletes a meter, the panel has recorded a batch with the meter's
  last value. The agent's handlers are atomic here, but a crash between two of their effects is
  the same as the remaining effects failing followed by a restart.
\<close>

section \<open>Runs\<close>

text \<open>Time passes on the host: meters that count move, tasks may end.\<close>

definition drifts :: "host \<Rightarrow> host \<Rightarrow> bool" where
  "drifts h h' \<longleftrightarrow> set (ho_counted h') \<subseteq> set (ho_counted h) \<and>
     (\<forall>core i. (moving h' core i \<longrightarrow> moving h core i) \<and> (\<not> moving h core i \<longrightarrow> reading h' core i = reading h core i))"

text \<open>
  The rest of \<^verbatim>\<open>apply\<close> starts and stops processes, so slices change freely, but leaves the nft
  table of nodes alone. \<^verbatim>\<open>convergeDesired\<close> then records the result.
\<close>

definition sameTable :: "host \<Rightarrow> host \<Rightarrow> bool" where
  "sameTable h h' \<longleftrightarrow> ho_nft h' = ho_nft h \<and> ho_counted h' = ho_counted h"

definition conclude :: "saving \<Rightarrow> string \<Rightarrow> DesiredState \<Rightarrow> agent \<Rightarrow> agent" where
  "conclude sv err ds a =
     snd (Save sv
       (if err = '''' then
          a\<lparr>ag_State := (ag_State a)\<lparr>as_AppliedRevision := ds_Revision ds, as_AppliedHash := ds_Hash ds, as_ApplyError := ''''\<rparr>,
            ag_desired := Some ds\<rparr>
        else a\<lparr>ag_State := (ag_State a)\<lparr>as_ApplyError := err\<rparr>\<rparr>))"

text \<open>The settlement rows of a server stay: no code deletes them.\<close>

definition keepsSettlements :: "setting \<Rightarrow> db \<Rightarrow> db \<Rightarrow> bool" where
  "keepsSettlements S d d' \<longleftrightarrow>
     (\<forall>i. lookup (meter_settlements d) (sv_ID (se_server S), i) \<noteq> None \<longrightarrow>
          lookup (meter_settlements d') (sv_ID (se_server S), i) \<noteq> None)"

definition meterPart :: "State \<Rightarrow> Retirement option \<times> AgentMeter list \<times> string" where
  "meterPart s = (as_Retirement s, as_MeterNodes s, as_ApplyError s)"

inductive life :: "setting \<Rightarrow> world \<Rightarrow> bool" for S where
  enrolled: "ag_Disk a = [ag_State a] \<Longrightarrow> as_Retirement (ag_State a) = None \<Longrightarrow> as_MeterNodes (ag_State a) = [] \<Longrightarrow>
    ag_desired a = None \<Longrightarrow>
    life S \<lparr>wd_agent = a, wd_panel = d, wd_host = h\<rparr>"
| flush: "life S w \<Longrightarrow> life S (snd (flushRetirement S oc w))"
| pending: "life S w \<Longrightarrow> life S (snd (retirementPending S oc w))"
| configured: "life S w \<Longrightarrow> as_Retirement (memory w) = None \<Longrightarrow>
    applyMeters oc nonces fresh available ds w = (Inr (), w1) \<Longrightarrow> sameTable (wd_host w1) h \<Longrightarrow>
    life S (w1\<lparr>wd_host := h, wd_agent := conclude sv err ds (wd_agent w1)\<rparr>)"
| misconfigured: "life S w \<Longrightarrow> as_Retirement (memory w) = None \<Longrightarrow>
    applyMeters oc nonces fresh available ds w = (Inl e, w1) \<Longrightarrow> err \<noteq> '''' \<Longrightarrow>
    life S (w1\<lparr>wd_agent := conclude sv err ds (wd_agent w1)\<rparr>)"
| doubt: "life S w \<Longrightarrow> err \<noteq> '''' \<Longrightarrow>
    life S (w\<lparr>wd_agent := (wd_agent w)\<lparr>ag_State := (memory w)\<lparr>as_ApplyError := err\<rparr>\<rparr>\<rparr>)"
| elsewhere: "life S w \<Longrightarrow> meterPart s = meterPart (memory w) \<Longrightarrow> t \<in> {s, memory w} \<Longrightarrow>
    life S (w\<lparr>wd_agent := (snd (Save sv ((wd_agent w)\<lparr>ag_State := s\<rparr>)))\<lparr>ag_State := t, ag_finalMeters := b\<rparr>\<rparr>)"
| traffic: "life S w \<Longrightarrow> drifts (wd_host w) h \<Longrightarrow> life S (w\<lparr>wd_host := h\<rparr>)"
| panel: "life S w \<Longrightarrow> keepsSettlements S (wd_panel w) d \<Longrightarrow> life S (w\<lparr>wd_panel := d\<rparr>)"
| restart: "life S w \<Longrightarrow> disk w = s # rest \<Longrightarrow> LoadState s = Inr t \<Longrightarrow>
    life S (w\<lparr>wd_agent := (wd_agent w)\<lparr>ag_State := t, ag_desired := None, ag_finalMeters := False\<rparr>\<rparr>)"
| powerLoss: "life S w \<Longrightarrow> s \<in> set (disk w) \<Longrightarrow> LoadState s = Inr t \<Longrightarrow>
    life S (w\<lparr>wd_agent := \<lparr>ag_State = t, ag_Disk = [s], ag_bootID = boot, ag_desired = None, ag_finalMeters = False\<rparr>,
             wd_host := \<lparr>ho_nft = None, ho_counted = [], ho_slices = []\<rparr>\<rparr>)"

section \<open>The panel's side\<close>

lemma Ingest_final_rows:
  assumes "Ingest E order now server hb0 d = (r, d')" "hb_FinalMeters hb0 = Some fm"
  shows "(lookup (meter_settlements d) k \<noteq> None \<longrightarrow> lookup (meter_settlements d') k \<noteq> None) \<and>
    (isOk r \<longrightarrow> lookup (meter_settlements d') (sv_ID server, ms_ID fm) \<noteq> None)"
proof (rule Ingest_cases [of E order now server hb0 d])
  fix e assume "Ingest E order now server hb0 d = (Inl e, d)"
  then show ?thesis using assms by simp
next
  fix hb c s
  assume n: "normalize E hb0 = Inr hb" and c: "ingestContext E order now server hb d = Inr c"
    and t: "ingestTx c \<lparr>m_db = d, m_accepted = {}, r_res = no_result\<rparr> = Inr s"
    and i: "Ingest E order now server hb0 d = (Inr (r_res s), m_db s)"
  have hb: "hb_FinalMeters (ic_hb c) = Some fm" "hb_ForwardReceipt (ic_hb c) = None"
    using normalize_final [OF n assms(2)] ingestContext_hb(1) [OF c] by simp_all
  then have "ingestFinal c fm \<lparr>m_db = d, m_accepted = {}, r_res = no_result\<rparr> = Inr s"
    using t by (simp add: ingestTx_def)
  from ingestFinal_settles [OF this hb(1)] show ?thesis
    using i assms(1) ingestContext_hb(3) [OF c] by (cases k) auto
qed

lemma finalHeartbeat_fields [simp]:
  "hb_FinalMeters (finalHeartbeat fm) = Some fm" "hb_ForwardReceipt (finalHeartbeat fm) = None"
  "hb_NetworkBillingSwitch (finalHeartbeat fm) = None" "hb_Ports (finalHeartbeat fm) = []"
  "hb_ForwardCounters (finalHeartbeat fm) = []" "hb_Epoch (finalHeartbeat fm) = ''''"
  "hb_NetworkBillingRevision (finalHeartbeat fm) = 0" "hb_NetworkBillingLegacy (finalHeartbeat fm) = None"
  "me_Network (hb_Metrics (finalHeartbeat fm)) = None"
  by (simp_all add: finalHeartbeat_def no_metrics_def)

lemma agentHeartbeat_final:
  "agentHeartbeat E order now server live (finalHeartbeat fm) d =
     (case MeterSettlement_Validate E fm of
        Inl e \<Rightarrow> (Inl (Err ''invalid final meter snapshot''), d)
      | Inr _ \<Rightarrow> (case Ingest E order now server (finalHeartbeat fm) d of
           (Inl e, d1) \<Rightarrow> (Inl e, d1)
         | (Inr res, d1) \<Rightarrow> (Inr (no_response\<lparr>hr_FinalMeterVersion := 1,
              hr_FinalMeterAck := rs_FinalMeterAck res, hr_MeteringVersion := 1\<rparr>), d1)))"
  by (simp add: agentHeartbeat_def Let_def ValidateForwardCounters_def ValidateNetwork_def split: sum.splits)

definition recorded :: "setting \<Rightarrow> db \<Rightarrow> MeterSettlement \<Rightarrow> bool" where
  "recorded S d fm \<longleftrightarrow> lookup (meter_settlements d) (sv_ID (se_server S), ms_ID fm) \<noteq> None"

lemma exchange_final:
  assumes "exchange S oc (finalHeartbeat fm) d = (r, d')"
  shows "keepsSettlements S d d' \<and> (isOk r \<longrightarrow> recorded S d' fm)"
proof -
  have "(lookup (meter_settlements d) k \<noteq> None \<longrightarrow> lookup (meter_settlements d'') k \<noteq> None) \<and>
      (isOk q \<longrightarrow> lookup (meter_settlements d'') (sv_ID (se_server S), ms_ID fm) \<noteq> None)"
    if "agentHeartbeat (se_env S) (se_order S) (oc_clock oc) (se_server S) (se_live S) (finalHeartbeat fm) d = (q, d'')"
    for q d'' k
    using that Ingest_final_rows [of "se_env S" "se_order S" "oc_clock oc" "se_server S" "finalHeartbeat fm" d _ d'' fm k]
    by (auto simp: agentHeartbeat_final split: sum.splits prod.splits)
  from this [OF prod.collapse [symmetric]] show ?thesis using assms
    by (auto simp: exchange_def Let_def keepsSettlements_def recorded_def split: link.splits)
qed

section \<open>The host's side\<close>

definition frozen :: "host \<Rightarrow> Retirement \<Rightarrow> bool" where
  "frozen h p \<longleftrightarrow> (\<forall>n \<in> set (rt_Nodes p). \<not> moving h (am_Core n) (am_NodeID n) \<and>
     (\<forall>c \<in> set (ms_Counters (rt_Batch p)). pc_NodeID c = am_NodeID n \<longrightarrow>
        (\<forall>v. reading h (am_Core n) (am_NodeID n) = Some v \<longrightarrow> v = (pc_Rx c, pc_Tx c))))"

text \<open>A change of the host under which the meters of some nodes can only stop or disappear.\<close>

definition calmed :: "host \<Rightarrow> host \<Rightarrow> string \<Rightarrow> i64 \<Rightarrow> bool" where
  "calmed h h' core i \<longleftrightarrow> (moving h' core i \<longrightarrow> moving h core i) \<and>
     (reading h' core i = None \<or> reading h' core i = reading h core i)"

lemma calmed_refl [simp]: "calmed h h core i"
  by (simp add: calmed_def)

lemma calmed_trans: "calmed h h1 core i \<Longrightarrow> calmed h1 h2 core i \<Longrightarrow> calmed h h2 core i"
  by (auto simp: calmed_def)

lemma frozen_calmed:
  assumes "frozen h p" "\<And>n. n \<in> set (rt_Nodes p) \<Longrightarrow> calmed h h' (am_Core n) (am_NodeID n)"
  shows "frozen h' p"
  using assms by (fastforce simp: frozen_def calmed_def)

text \<open>Where two texts name the same kind of meter.\<close>

definition sameMeter :: "string \<Rightarrow> string \<Rightarrow> bool" where
  "sameMeter a b \<longleftrightarrow> a = b \<or> IsStandalone a \<and> IsStandalone b"

lemma sameMeter_reading: "sameMeter a b \<Longrightarrow> reading h a i = reading h b i"
  by (auto simp: sameMeter_def reading_def IsStandalone_def)

lemma calmed_slices:
  assumes "h' = h\<lparr>ho_slices := deleteWhere P (ho_slices h)\<rparr>" "\<And>i s. P (i, s) \<longleftrightarrow> i = k"
  shows "calmed h h' core i" "reading h core i \<noteq> None \<Longrightarrow> reading h' core i = None \<Longrightarrow> IsStandalone core \<and> i = k"
proof -
  have l: "lookup (ho_slices h') j = (if j = k then None else lookup (ho_slices h) j)" for j
    using lookup_deleteKeys [of P "\<lambda>i. i = k"] assms by simp
  have n: "nftReading h' j = nftReading h j" "ho_counted h' = ho_counted h" for j
    using assms(1) by (simp_all add: nftReading_def nftTable_def)
  show "calmed h h' core i" by (auto simp: calmed_def moving_def reading_def l n split: option.splits)
  show "reading h core i \<noteq> None \<Longrightarrow> reading h' core i = None \<Longrightarrow> IsStandalone core \<and> i = k"
    by (auto simp: reading_def l n split: if_splits)
qed

lemma RemoveSnellMeter_effect:
  assumes "RemoveSnellMeter u k h = (r, h')"
  shows "calmed h h' core i \<and> ho_counted h' = ho_counted h \<and>
    (reading h core i \<noteq> None \<longrightarrow> reading h' core i = None \<longrightarrow> IsStandalone core \<and> i = k)"
proof -
  have "h' = h \<or> h' = h\<lparr>ho_slices := deleteWhere (\<lambda>(i, _). i = k) (ho_slices h)\<rparr>"
    using assms by (auto simp: RemoveSnellMeter_def Let_def split: if_splits sum.splits)
  then show ?thesis using calmed_slices [of h' "\<lambda>(i, _). i = k" h k core i] by auto
qed

lemma removeMeters_effect:
  assumes "removeMeters u ns h = (r, h')"
  shows "calmed h h' core i \<and> ho_counted h' = ho_counted h \<and>
    (reading h core i \<noteq> None \<longrightarrow> reading h' core i = None \<longrightarrow>
      (\<exists>n \<in> set ns. am_NodeID n = i \<and> IsStandalone (am_Core n) \<and> IsStandalone core))"
  using assms
proof (induction u ns h arbitrary: r h' rule: removeMeters.induct)
  case (1 u h)
  then show ?case by simp
next
  case (2 u n ns h)
  show ?case
  proof (cases "IsStandalone (am_Core n)")
    case False
    then show ?thesis using 2 by auto
  next
    case True
    obtain q h1 where q: "RemoveSnellMeter (u (am_NodeID n)) (am_NodeID n) h = (q, h1)" by fastforce
    note e = RemoveSnellMeter_effect [OF q, of core i]
    show ?thesis
    proof (cases q)
      case (Inl e')
      then show ?thesis using 2(3) True q e by auto
    next
      case (Inr x)
      then have m: "removeMeters u ns h1 = (r, h')" using 2(3) True q by simp
      note ih = 2(1) [OF True q [symmetric] Inr m]
      have "calmed h h' core i" using e ih calmed_trans by blast
      moreover have "\<exists>n' \<in> set (n # ns). am_NodeID n' = i \<and> IsStandalone (am_Core n') \<and> IsStandalone core"
        if "reading h core i \<noteq> None" "reading h' core i = None"
        using that e ih True by (cases "reading h1 core i = None") auto
      ultimately show ?thesis using e ih by auto
    qed
  qed
qed

lemma lookup_deleted_counter:
  assumes "ho_nft h' = Some (deleteWhere (\<lambda>((i, _), _). i \<in> D) (nftTable h1))"
  shows "nftReading h' i = (if i \<in> D then None else nftReading h1 i)"
proof -
  have t: "nftTable h' = deleteWhere (\<lambda>((i, _), _). i \<in> D) (nftTable h1)"
    using assms by (simp add: nftTable_def [of h'])
  have "lookup (nftTable h') (i, k) = (if i \<in> D then None else lookup (nftTable h1) (i, k))" for i k
    unfolding t by (subst lookup_deleteKeys [where Q = "\<lambda>(i, _). i \<in> D"]) auto
  then show ?thesis by (simp add: nftReading_def)
qed

lemma PruneNodes_cases:
  assumes "PruneNodes t remaining ids h = (r, h')"
  obtains "h' = h"
  | rules D where "NodeRules remaining = Inr rules" "D \<subseteq> set ids" "ho_slices h' = ho_slices h"
      "ho_counted h' = map mr_NodeID (filter (\<lambda>n. \<not> mr_Retired n) rules)"
      "\<And>i. nftReading h' i = (if i \<in> D then None else nftReading (installRules rules h) i)"
proof (cases "NodeRules remaining")
  case (Inl e)
  then show ?thesis using assms that(1) by (simp add: PruneNodes_def)
next
  case (Inr rules)
  show ?thesis
  proof (cases "ReadNodes (t 0) h")
    case (Inl e)
    then have "h' = h \<or> h' = installRules rules h"
      using assms Inr by (auto simp: PruneNodes_def split: if_splits)
    then show ?thesis using that(1) that(2) [OF Inr, of "{}"] by auto
  next
    case Inr': (Inr existing)
    let ?h1 = "installRules rules h"
    let ?D = "{i \<in> set ids. i \<in> pc_NodeID ` set existing}"
    let ?h2 = "?h1\<lparr>ho_nft := Some (deleteWhere (\<lambda>((i, _), _). i \<in> ?D) (nftTable ?h1))\<rparr>"
    have "h' = h \<or> h' = ?h2"
      using assms Inr Inr' by (simp add: PruneNodes_def Let_def split: if_splits)
    then show ?thesis
    proof
      assume "h' = ?h2"
      then show ?thesis
        using lookup_deleted_counter [of ?h2 ?D ?h1] by (intro that(2) [OF Inr, of ?D]) auto
    qed (rule that(1))
  qed
qed

lemma PruneNodes_effect:
  assumes "PruneNodes t remaining ids h = (r, h')"
  shows "ho_slices h' = ho_slices h \<and>
    (ho_counted h' = ho_counted h \<or> set (ho_counted h') \<subseteq> mr_NodeID ` {n \<in> set remaining. \<not> mr_Retired n}) \<and>
    (i \<notin> mr_NodeID ` set remaining \<longrightarrow> nftReading h' i = None \<or> nftReading h' i = nftReading h i) \<and>
    (nftReading h i \<noteq> None \<longrightarrow> nftReading h' i = None \<longrightarrow> i \<in> set ids)"
  using assms
proof (cases rule: PruneNodes_cases)
  case (2 rules D)
  note s = NodeRules_rules [OF 2(1)]
  have "set (map mr_NodeID (filter (\<lambda>n. \<not> mr_Retired n) rules)) \<subseteq> mr_NodeID ` {n \<in> set remaining. \<not> mr_Retired n}"
    "i \<notin> mr_NodeID ` set remaining \<Longrightarrow> i \<notin> mr_NodeID ` set rules"
    using s by auto
  with 2 show ?thesis
    using installRules_reading [of i rules h] installRules_keeps [of h i _ rules] by (auto split: if_splits)
qed auto

lemma Retirement_validate_acked [simp]: "Retirement_validate E (p\<lparr>rt_Acked := b\<rparr>) = Retirement_validate E p"
  by (simp add: Retirement_validate_def)

lemma Retirement_validateD:
  assumes "Retirement_validate E p = Inr ()"
  shows "MeterSettlement_Validate E (rt_Batch p) = Inr ()"
    "am_NodeID ` set (rt_Nodes p) \<inter> mr_NodeID ` set (rt_Remaining p) = {}"
    "distinct (map am_NodeID (rt_Nodes p))"
    "length (rt_Nodes p) = length (ms_Counters (rt_Batch p))"
    "pc_NodeID ` set (ms_Counters (rt_Batch p)) \<subseteq> am_NodeID ` set (rt_Nodes p)"
  using assms by (force simp: Retirement_validate_def bindR_eq_Inr list_all_iff list_ex_iff split: if_splits)+

lemma Clean_effect:
  assumes "Clean oc p h = (r, h')" "am_NodeID ` set (rt_Nodes p) \<inter> mr_NodeID ` set (rt_Remaining p) = {}"
  shows "\<And>n. n \<in> set (rt_Nodes p) \<Longrightarrow> calmed h h' (am_Core n) (am_NodeID n)"
    "ho_counted h' = ho_counted h \<or> set (ho_counted h') \<subseteq> mr_NodeID ` {n \<in> set (rt_Remaining p). \<not> mr_Retired n}"
    "reading h core i \<noteq> None \<Longrightarrow> reading h' core i = None \<Longrightarrow>
      \<exists>n \<in> set (rt_Nodes p). am_NodeID n = i \<and> sameMeter core (am_Core n)"
proof -
  let ?ids = "map am_NodeID (filter (\<lambda>n. am_Core n = ''singbox'') (rt_Nodes p))"
  have "h' = h \<or> (\<exists>q h1. PruneNodes (oc_nft oc) (rt_Remaining p) ?ids h = (q, h1) \<and>
      (h' = h1 \<or> removeMeters (oc_unit oc) (rt_Nodes p) h1 = (r, h')))"
    using assms(1) by (auto simp: Clean_def Let_def split: if_splits prod.splits sum.splits)
  then consider "h' = h" | q h1 where "PruneNodes (oc_nft oc) (rt_Remaining p) ?ids h = (q, h1)"
      "h' = h1 \<or> removeMeters (oc_unit oc) (rt_Nodes p) h1 = (r, h')"
    by blast
  note c = this
  have "(\<forall>n \<in> set (rt_Nodes p). calmed h h' (am_Core n) (am_NodeID n)) \<and>
    (ho_counted h' = ho_counted h \<or> set (ho_counted h') \<subseteq> mr_NodeID ` {n \<in> set (rt_Remaining p). \<not> mr_Retired n}) \<and>
    (reading h core i \<noteq> None \<longrightarrow> reading h' core i = None \<longrightarrow>
      (\<exists>n \<in> set (rt_Nodes p). am_NodeID n = i \<and> sameMeter core (am_Core n)))"
  proof (cases rule: c)
    case 1
    then show ?thesis by auto
  next
    case (2 q h1)
    note e = PruneNodes_effect [OF 2(1)]
    have r: "calmed h1 h' cr j \<and> ho_counted h' = ho_counted h1 \<and>
      (reading h1 cr j \<noteq> None \<longrightarrow> reading h' cr j = None \<longrightarrow>
        (\<exists>n \<in> set (rt_Nodes p). am_NodeID n = j \<and> IsStandalone (am_Core n) \<and> IsStandalone cr))" for cr j
      using 2(2) removeMeters_effect [of "oc_unit oc" "rt_Nodes p" h1 r h' cr j] by auto
    have q1: "calmed h h1 (am_Core n) (am_NodeID n)" if "n \<in> set (rt_Nodes p)" for n
    proof -
      have i: "am_NodeID n \<notin> mr_NodeID ` set (rt_Remaining p)" using that assms(2) by blast
      then have "am_NodeID n \<in> set (ho_counted h1) \<Longrightarrow> am_NodeID n \<in> set (ho_counted h)"
        using e [of "am_NodeID n"] by auto
      then show ?thesis using e [of "am_NodeID n"] i by (auto simp: calmed_def moving_def reading_def)
    qed
    have d: "\<exists>n \<in> set (rt_Nodes p). am_NodeID n = i \<and> sameMeter core (am_Core n)"
      if "reading h core i \<noteq> None" "reading h' core i = None"
    proof (cases "reading h1 core i = None")
      case True
      then have "core = ''singbox'' \<and> i \<in> set ?ids"
        using that(1) e [of i] by (auto simp: reading_def split: if_splits)
      then show ?thesis by (auto simp: sameMeter_def)
    next
      case False
      then show ?thesis using r [of core i] that(2) by (auto simp: sameMeter_def)
    qed
    have "calmed h h' (am_Core n) (am_NodeID n)" if "n \<in> set (rt_Nodes p)" for n
      using q1 [OF that] r [of "am_Core n" "am_NodeID n"] by (blast intro: calmed_trans)
    moreover have "ho_counted h' = ho_counted h1" using r by blast
    ultimately show ?thesis using d e [of i] by simp
  qed
  then show "\<And>n. n \<in> set (rt_Nodes p) \<Longrightarrow> calmed h h' (am_Core n) (am_NodeID n)"
    "ho_counted h' = ho_counted h \<or> set (ho_counted h') \<subseteq> mr_NodeID ` {n \<in> set (rt_Remaining p). \<not> mr_Retired n}"
    "reading h core i \<noteq> None \<Longrightarrow> reading h' core i = None \<Longrightarrow>
      \<exists>n \<in> set (rt_Nodes p). am_NodeID n = i \<and> sameMeter core (am_Core n)"
    by blast+
qed

text \<open>A validated plan has exactly one reading for each of its nodes.\<close>

lemma final_readings_distinct:
  assumes "foldE ValidateFinalReading seen cs = Inr seen'"
  shows "distinct (map pc_NodeID cs) \<and> pc_NodeID ` set cs \<inter> seen = {}"
  using assms
proof (induction cs arbitrary: seen)
  case Nil
  then show ?case by simp
next
  case (Cons c cs)
  then have "pc_NodeID c \<notin> seen" "foldE ValidateFinalReading (insert (pc_NodeID c) seen) cs = Inr seen'"
    by (auto simp: bindR_eq_Inr ValidateFinalReading_def [of _ c] split: if_splits)
  with Cons.IH [OF this(2)] show ?case by auto
qed

lemma settlement_distinct:
  "MeterSettlement_Validate E fm = Inr () \<Longrightarrow> distinct (map pc_NodeID (ms_Counters fm))"
  by (auto simp: MeterSettlement_Validate_def bindR_eq_Inr split: if_splits dest!: final_readings_distinct)

lemma plan_has_reading:
  assumes "Retirement_validate E p = Inr ()" "n \<in> set (rt_Nodes p)"
  shows "\<exists>c \<in> set (ms_Counters (rt_Batch p)). pc_NodeID c = am_NodeID n"
proof -
  note v = Retirement_validateD [OF assms(1)]
  let ?C = "set (map pc_NodeID (ms_Counters (rt_Batch p)))" and ?N = "set (map am_NodeID (rt_Nodes p))"
  have "card ?C = card ?N"
    using v(3,4) settlement_distinct [OF v(1)] by (metis distinct_card length_map)
  moreover have "?C \<subseteq> ?N" using v(5) by simp
  ultimately have "?C = ?N" by (simp add: card_subset_eq)
  moreover have "am_NodeID n \<in> ?N" using assms(2) by simp
  ultimately show ?thesis by (metis (no_types, lifting) ex_map_conv image_iff list.set_map)
qed

section \<open>The invariant\<close>

text \<open>The plans in memory or in a file a power loss may bring back.\<close>

definition plans :: "world \<Rightarrow> Retirement set" where
  "plans w = {p. \<exists>s \<in> insert (memory w) (set (disk w)). as_Retirement s = Some p}"

text \<open>
  While a configuration is applied and nothing is in doubt, only its nodes are counted, and
  every plan is the one the current identities and that configuration give.
\<close>

definition planned :: "world \<Rightarrow> bool" where
  "planned w \<longleftrightarrow> (\<forall>ds. ag_desired (wd_agent w) = Some ds \<longrightarrow> as_ApplyError (memory w) = '''' \<longrightarrow>
     set (ho_counted (wd_host w)) \<subseteq> np_NodeID ` set (ds_Nodes ds) \<and>
     (\<forall>p \<in> plans w. rt_Nodes p = retiringNodes (as_MeterNodes (memory w)) (ds_Nodes ds) \<and>
        rt_Remaining p = remainingRules (as_MeterNodes (memory w)) (ds_Nodes ds)))"

definition sound :: "setting \<Rightarrow> world \<Rightarrow> bool" where
  "sound S w \<longleftrightarrow> (\<forall>p \<in> plans w. frozen (wd_host w) p) \<and>
     (\<forall>p \<in> plans w. \<forall>q \<in> plans w. rt_Nodes p = rt_Nodes q \<and> rt_Remaining p = rt_Remaining q) \<and>
     (\<forall>p \<in> plans w. rt_Acked p \<longrightarrow> recorded S (wd_panel w) (rt_Batch p)) \<and> planned w"

lemma sound_frozen: "sound S w \<Longrightarrow> p \<in> plans w \<Longrightarrow> frozen (wd_host w) p"
  unfolding sound_def by blast

lemma sound_alike: "sound S w \<Longrightarrow> p \<in> plans w \<Longrightarrow> q \<in> plans w \<Longrightarrow>
    rt_Nodes p = rt_Nodes q \<and> rt_Remaining p = rt_Remaining q"
  unfolding sound_def by blast

lemma sound_recorded: "sound S w \<Longrightarrow> p \<in> plans w \<Longrightarrow> rt_Acked p \<Longrightarrow> recorded S (wd_panel w) (rt_Batch p)"
  unfolding sound_def by blast

lemma sound_planned:
  assumes "sound S w" "ag_desired (wd_agent w) = Some ds" "as_ApplyError (memory w) = []"
  shows "set (ho_counted (wd_host w)) \<subseteq> np_NodeID ` set (ds_Nodes ds)"
    "p \<in> plans w \<Longrightarrow> rt_Nodes p = retiringNodes (as_MeterNodes (memory w)) (ds_Nodes ds) \<and>
        rt_Remaining p = remainingRules (as_MeterNodes (memory w)) (ds_Nodes ds)"
  using assms unfolding sound_def planned_def by blast+

text \<open>Every step of the agent keeps or confirms plans; new ones come only from \<^verbatim>\<open>beginRetirement\<close>.\<close>

definition confirms :: "setting \<Rightarrow> world \<Rightarrow> world \<Rightarrow> Retirement \<Rightarrow> Retirement \<Rightarrow> bool" where
  "confirms S w w' q p \<longleftrightarrow> rt_Batch p = rt_Batch q \<and> rt_Nodes p = rt_Nodes q \<and> rt_Remaining p = rt_Remaining q \<and>
     (rt_Acked p \<longrightarrow> rt_Acked q \<or> recorded S (wd_panel w') (rt_Batch p))"

lemma confirms_refl [simp]: "confirms S w w' p p"
  by (simp add: confirms_def)

lemma keepsSettlements_refl [simp]: "keepsSettlements S d d"
  by (simp add: keepsSettlements_def)

lemma recorded_keeps: "recorded S d fm \<Longrightarrow> keepsSettlements S d d' \<Longrightarrow> recorded S d' fm"
  by (auto simp: recorded_def keepsSettlements_def)

lemma sound_step:
  assumes "sound S w" "planned w'" "keepsSettlements S (wd_panel w) (wd_panel w')"
    and "\<And>p. p \<in> plans w' \<Longrightarrow> \<exists>q \<in> plans w. confirms S w w' q p"
    and "\<And>p n. p \<in> plans w \<Longrightarrow> n \<in> set (rt_Nodes p) \<Longrightarrow> calmed (wd_host w) (wd_host w') (am_Core n) (am_NodeID n)"
  shows "sound S w'"
proof -
  have f: "frozen (wd_host w') p" if pp: "p \<in> plans w'" for p
  proof -
    obtain q where q: "q \<in> plans w" "confirms S w w' q p" using assms(4) [OF pp] by blast
    have "frozen (wd_host w') q"
      by (rule frozen_calmed [OF sound_frozen [OF assms(1) q(1)] assms(5) [OF q(1)]])
    then show ?thesis using q(2) by (simp add: frozen_def confirms_def)
  qed
  have "rt_Nodes p = rt_Nodes q \<and> rt_Remaining p = rt_Remaining q" if "p \<in> plans w'" "q \<in> plans w'" for p q
    using sound_alike [OF assms(1)] assms(4) [OF that(1)] assms(4) [OF that(2)] unfolding confirms_def by metis
  moreover have "recorded S (wd_panel w') (rt_Batch p)" if "p \<in> plans w'" "rt_Acked p" for p
    using sound_recorded [OF assms(1)] recorded_keeps [OF _ assms(3)] assms(4) [OF that(1)] that(2)
    unfolding confirms_def by metis
  ultimately show ?thesis using f assms(2) unfolding sound_def by blast
qed

lemma Save_effect:
  assumes "Save sv a = (r, a')"
  shows "ag_State a' = ag_State a" "set (ag_Disk a') \<subseteq> insert (ag_State a) (set (ag_Disk a))"
    "r = Inr () \<Longrightarrow> ag_Disk a' = [ag_State a]" "ag_desired a' = ag_desired a" "ag_finalMeters a' = ag_finalMeters a"
  using assms by (auto simp: Save_def split: saving.splits)

lemma memory_plan: "as_Retirement (memory w) = Some p \<Longrightarrow> p \<in> plans w"
  by (auto simp: plans_def)

abbreviation states :: "world \<Rightarrow> State set" where
  "states w \<equiv> insert (memory w) (set (disk w))"

lemma plans_from:
  "p \<in> plans w' \<Longrightarrow> states w' \<subseteq> insert s (states w) \<Longrightarrow> as_Retirement s = Some p \<or> p \<in> plans w"
  by (auto simp: plans_def)

text \<open>One more state reaches the file or the memory, with no plan or a plan already known.\<close>

lemma save_sound:
  assumes ok: "sound S w" and s: "states w' \<subseteq> insert s (states w)"
    and q: "\<And>q. as_Retirement s = Some q \<Longrightarrow> \<exists>p \<in> plans w. confirms S w w' p q"
    and same: "wd_host w' = wd_host w" "keepsSettlements S (wd_panel w) (wd_panel w')"
      "ag_desired (wd_agent w') = ag_desired (wd_agent w)" "as_MeterNodes (memory w') = as_MeterNodes (memory w)"
      "as_ApplyError (memory w') = as_ApplyError (memory w)"
  shows "sound S w'"
proof -
  have c: "\<exists>q \<in> plans w. confirms S w w' q p" if "p \<in> plans w'" for p
    using plans_from [OF that s] q confirms_refl by blast
  have "planned w'" unfolding planned_def same
  proof (intro allI impI conjI ballI)
    fix ds assume d: "ag_desired (wd_agent w) = Some ds" "as_ApplyError (memory w) = ''''"
    then show "set (ho_counted (wd_host w)) \<subseteq> np_NodeID ` set (ds_Nodes ds)"
      using sound_planned(1) [OF ok] by simp
    fix p assume "p \<in> plans w'"
    then obtain r where r: "r \<in> plans w" "confirms S w w' r p" using c by blast
    have "rt_Nodes r = retiringNodes (as_MeterNodes (memory w)) (ds_Nodes ds) \<and>
        rt_Remaining r = remainingRules (as_MeterNodes (memory w)) (ds_Nodes ds)"
      using sound_planned(2) [OF ok _ _ r(1)] d by simp
    then show "rt_Nodes p = retiringNodes (as_MeterNodes (memory w)) (ds_Nodes ds)"
      "rt_Remaining p = remainingRules (as_MeterNodes (memory w)) (ds_Nodes ds)"
      using r(2) by (simp_all add: confirms_def)
  qed
  then show ?thesis by (rule sound_step [OF ok _ same(2) c]) (simp_all add: same(1))
qed

definition acknowledged :: "world \<Rightarrow> Retirement \<Rightarrow> Retirement res \<Rightarrow> world \<Rightarrow> bool" where
  "acknowledged w p r w' \<longleftrightarrow> wd_host w' = wd_host w \<and> ag_desired (wd_agent w') = ag_desired (wd_agent w) \<and>
    (\<forall>q. r = Inr q \<longrightarrow> rt_Acked q \<and> as_Retirement (memory w') = Some q \<and> q = p\<lparr>rt_Acked := True\<rparr>)"

lemma acknowledge_sound:
  assumes a: "acknowledge S oc p w = (r, w')" and p: "as_Retirement (memory w) = Some p" and ok: "sound S w"
  shows "sound S w' \<and> acknowledged w p r w'"
proof (cases "rt_Acked p")
  case True
  then show ?thesis using a p ok by (auto simp: acknowledge_def acknowledged_def)
next
  case False
  obtain resp d where x: "exchange S oc (finalHeartbeat (rt_Batch p)) (wd_panel w) = (resp, d)" by fastforce
  note e = exchange_final [OF x]
  let ?q = "p\<lparr>rt_Acked := True\<rparr>"
  let ?s = "(memory w)\<lparr>as_Retirement := Some ?q\<rparr>"
  obtain v a1 where s: "Save (oc_save oc 0) ((wd_agent w)\<lparr>ag_State := ?s\<rparr>) = (v, a1)" by fastforce
  note se = Save_effect [OF s]
  consider (stay) er where "w' = w\<lparr>wd_panel := d\<rparr>" "r = Inl er"
    | (undone) er where "w' = w\<lparr>wd_panel := d, wd_agent := a1\<lparr>ag_State := memory w\<rparr>\<rparr>" "r = Inl er" "isOk resp"
    | (saved) "w' = w\<lparr>wd_panel := d, wd_agent := a1\<rparr>" "r = Inr ?q" "isOk resp"
    using a x s False by (auto simp: acknowledge_def Let_def split: sum.splits if_splits)
  then show ?thesis
  proof cases
    case stay
    have "sound S w'" by (rule save_sound [OF ok, of _ "memory w"])
      (use stay e memory_plan in \<open>auto intro: confirms_refl\<close>)
    then show ?thesis using stay by (simp add: acknowledged_def)
  next
    case undone
    have "sound S w'"
      by (rule save_sound [OF ok, of _ ?s])
        (use undone e se memory_plan [OF p] in \<open>auto simp: confirms_def intro!: bexI [of _ p]\<close>)
    then show ?thesis using undone se by (simp add: acknowledged_def)
  next
    case saved
    have "sound S w'"
      by (rule save_sound [OF ok, of _ ?s])
        (use saved e se memory_plan [OF p] in \<open>auto simp: confirms_def intro!: bexI [of _ p]\<close>)
    then show ?thesis using saved se by (simp add: acknowledged_def)
  qed
qed

section \<open>The agent's handlers keep the invariant\<close>

lemma remainingRules_live: "mr_NodeID ` {n \<in> set (remainingRules ms ns). \<not> mr_Retired n} \<subseteq> np_NodeID ` set ns"
  by (force simp: remainingRules_def remainingRule_def split: option.splits dest!: lastBy_SomeD)

lemma Clean_sound:
  assumes c: "Clean oc q (wd_host w) = (r, h)" and ok: "sound S w" and q: "q \<in> plans w"
    and disj: "am_NodeID ` set (rt_Nodes q) \<inter> mr_NodeID ` set (rt_Remaining q) = {}"
  shows "sound S (w\<lparr>wd_host := h\<rparr>)"
proof (rule sound_step [OF ok])
  note e = Clean_effect [OF c disj]
  have p: "plans (w\<lparr>wd_host := h\<rparr>) = plans w" by (simp add: plans_def)
  have "set (ho_counted h) \<subseteq> np_NodeID ` set (ds_Nodes ds)"
    if d: "ag_desired (wd_agent w) = Some ds" "as_ApplyError (memory w) = ''''" for ds
  proof -
    have "rt_Remaining q = remainingRules (as_MeterNodes (memory w)) (ds_Nodes ds)"
      using sound_planned(2) [OF ok d q] by simp
    then show ?thesis
      using e(2) sound_planned(1) [OF ok d] remainingRules_live [of "as_MeterNodes (memory w)" "ds_Nodes ds"] by auto
  qed
  then show "planned (w\<lparr>wd_host := h\<rparr>)"
    unfolding planned_def p using sound_planned(2) [OF ok] by simp
  show "\<exists>q \<in> plans w. confirms S w (w\<lparr>wd_host := h\<rparr>) q p" if "p \<in> plans (w\<lparr>wd_host := h\<rparr>)" for p
    using that p confirms_refl by blast
  show "calmed (wd_host w) (wd_host (w\<lparr>wd_host := h\<rparr>)) (am_Core n) (am_NodeID n)"
    if "p \<in> plans w" "n \<in> set (rt_Nodes p)" for p n
    using e(1) [of n] that sound_alike [OF ok that(1) q] by simp
qed simp

text \<open>What a deleted meter leaves behind.\<close>

definition accounted :: "setting \<Rightarrow> db \<Rightarrow> i64 \<Rightarrow> i64 \<times> i64 \<Rightarrow> bool" where
  "accounted S d i v \<longleftrightarrow>
     (\<exists>fm. MeterSettlement_Validate (se_env S) fm = Inr () \<and> recorded S d fm \<and>
        (\<exists>c \<in> set (ms_Counters fm). pc_NodeID c = i \<and> v = (pc_Rx c, pc_Tx c)))"

lemma Clean_accounted:
  assumes c: "Clean oc q (wd_host w) = (r, h)" and ok: "sound S w" and q: "q \<in> plans w" "rt_Acked q"
    and v: "Retirement_validate (se_env S) q = Inr ()"
    and gone: "reading (wd_host w) core i = Some m" "reading h core i = None"
  shows "accounted S (wd_panel w) i m"
proof -
  obtain n where n: "n \<in> set (rt_Nodes q)" "am_NodeID n = i" "sameMeter core (am_Core n)"
    using Clean_effect(3) [OF c Retirement_validateD(2) [OF v], of core i] gone by auto
  obtain k where k: "k \<in> set (ms_Counters (rt_Batch q))" "pc_NodeID k = am_NodeID n"
    using plan_has_reading [OF v n(1)] by blast
  have "reading (wd_host w) (am_Core n) (am_NodeID n) = Some m"
    using gone(1) n sameMeter_reading by metis
  then have "m = (pc_Rx k, pc_Tx k)" using sound_frozen [OF ok q(1)] n(1) k unfolding frozen_def by blast
  then show ?thesis
    using sound_recorded [OF ok q] Retirement_validateD(1) [OF v] k n(2) unfolding accounted_def by blast
qed

lemma flush_cases:
  assumes "flushRetirement S oc w = (r, w')"
  obtains (nothing) "w' = w"
  | (unacknowledged) p e where "as_Retirement (memory w) = Some p" "acknowledge S oc p w = (Inl e, w')"
  | (cleaning) p w1 cr h a1 where "as_Retirement (memory w) = Some p" "Retirement_validate (se_env S) p = Inr ()"
      "acknowledge S oc p w = (Inr (p\<lparr>rt_Acked := True\<rparr>), w1)" "as_Retirement (memory w1) = Some (p\<lparr>rt_Acked := True\<rparr>)"
      "Clean oc (p\<lparr>rt_Acked := True\<rparr>) (wd_host w1) = (cr, h)"
      "w' = w1\<lparr>wd_host := h\<rparr> \<or>
       (\<exists>v. Save (oc_save oc 1) ((wd_agent w1)\<lparr>ag_State := forget (p\<lparr>rt_Acked := True\<rparr>) (memory w1)\<rparr>) = (v, a1) \<and>
          (v = Inr () \<and> w' = w1\<lparr>wd_host := h, wd_agent := a1\<rparr> \<or>
           w' = w1\<lparr>wd_host := h, wd_agent := a1\<lparr>ag_State := memory w1\<rparr>\<rparr>))"
proof (cases "as_Retirement (memory w)")
  case None
  then show ?thesis using assms by - (rule nothing, simp add: flushRetirement_def)
next
  case (Some p)
  show ?thesis
  proof (cases "Retirement_validate (se_env S) p")
    case (Inl e)
    then show ?thesis using assms Some by - (rule nothing, simp add: flushRetirement_def)
  next
    case v: (Inr u)
    obtain ar w1 where a: "acknowledge S oc p w = (ar, w1)" by fastforce
    show ?thesis
    proof (cases ar)
      case (Inl e)
      then show ?thesis using assms a Some v by - (rule unacknowledged [OF Some], simp add: flushRetirement_def)
    next
      case (Inr q)
      have q: "q = p\<lparr>rt_Acked := True\<rparr>" "as_Retirement (memory w1) = Some q"
        using a Inr Some by (auto simp: acknowledge_def Let_def Save_def split: if_splits prod.splits sum.splits saving.splits)
      obtain cr h where c: "Clean oc q (wd_host w1) = (cr, h)" by fastforce
      obtain sv a1 where s: "Save (oc_save oc 1) ((wd_agent w1)\<lparr>ag_State := forget q (memory w1)\<rparr>) = (sv, a1)" by fastforce
      show ?thesis
        by (rule cleaning [OF Some, of w1 cr h a1])
          (use v a Inr q c s assms Some in \<open>auto simp: flushRetirement_def split: sum.splits\<close>)
    qed
  qed
qed

lemma flush_sound:
  assumes f: "flushRetirement S oc w = (r, w')" and ok: "sound S w"
  shows "sound S w' \<and>
    (\<forall>core i m. reading (wd_host w) core i = Some m \<longrightarrow> reading (wd_host w') core i = None \<longrightarrow>
       accounted S (wd_panel w') i m)"
  using f
proof (cases rule: flush_cases)
  case nothing
  then show ?thesis using ok by simp
next
  case (unacknowledged p e)
  then show ?thesis using acknowledge_sound [OF unacknowledged(2,1) ok] by (simp add: acknowledged_def)
next
  case (cleaning p w1 cr h a1)
  let ?q = "p\<lparr>rt_Acked := True\<rparr>"
  let ?s = "forget ?q (memory w1)"
  have ok1: "sound S w1" "wd_host w1 = wd_host w"
    using acknowledge_sound [OF cleaning(3,1) ok] by (simp_all add: acknowledged_def)
  have v: "Retirement_validate (se_env S) ?q = Inr ()"
    using cleaning(2) by simp
  have q: "?q \<in> plans w1" by (rule memory_plan [OF cleaning(4)])
  have ok2: "sound S (w1\<lparr>wd_host := h\<rparr>)"
    by (rule Clean_sound [OF cleaning(5) ok1(1) q Retirement_validateD(2) [OF v]])
  have none: "as_Retirement ?s = None" "as_ApplyError ?s = as_ApplyError (memory w1)" by (simp_all add: forget_def)
  have w': "wd_host w' = h \<and> wd_panel w' = wd_panel w1" using cleaning(6) by auto
  have "sound S w'" using cleaning(6)
  proof (elim disjE exE conjE)
    assume "w' = w1\<lparr>wd_host := h\<rparr>"
    then show ?thesis using ok2 by simp
  next
    fix v assume s: "Save (oc_save oc 1) ((wd_agent w1)\<lparr>ag_State := ?s\<rparr>) = (v, a1)"
      and "v = Inr ()" and w': "w' = w1\<lparr>wd_host := h, wd_agent := a1\<rparr>"
    then have "ag_Disk a1 = [?s]" "ag_State a1 = ?s" "ag_desired a1 = ag_desired (wd_agent w1)"
      using Save_effect [OF s] by simp_all
    moreover from this have "plans w' = {}" using w' none by (simp add: plans_def)
    ultimately show ?thesis
      using sound_planned(1) [OF ok2] none w' unfolding sound_def planned_def by simp
  next
    fix v assume s: "Save (oc_save oc 1) ((wd_agent w1)\<lparr>ag_State := ?s\<rparr>) = (v, a1)"
      and w': "w' = w1\<lparr>wd_host := h, wd_agent := a1\<lparr>ag_State := memory w1\<rparr>\<rparr>"
    show ?thesis
      by (rule save_sound [OF ok2, of _ ?s]) (use Save_effect [OF s] w' none in auto)
  qed
  moreover have "accounted S (wd_panel w') i m"
    if "reading (wd_host w) core i = Some m" "reading (wd_host w') core i = None" for core i m
    using Clean_accounted [OF cleaning(5) ok1(1) q _ v, of core i m] that w' ok1(2) by simp
  ultimately show ?thesis by blast
qed

lemma finalReading_frozen:
  assumes "finalReading S oc a h cs n = Inr c" "ReadNodes ok h = Inr cs"
    and "am_Core n = ''singbox'' \<Longrightarrow> am_NodeID n \<notin> set (ho_counted h)"
  shows "pc_NodeID c = am_NodeID n \<and> \<not> moving h (am_Core n) (am_NodeID n) \<and>
    reading h (am_Core n) (am_NodeID n) = Some (pc_Rx c, pc_Tx c)"
proof (cases "am_Core n = ''singbox''")
  case True
  then obtain k where k: "lastBy pc_NodeID cs (am_NodeID n) = Some k"
    "c = k\<lparr>pc_Epoch := meterEpoch a n, pc_FromZero := True\<rparr>"
    using assms(1) by (auto simp: finalReading_def split: option.splits)
  then show ?thesis
    using lastBy_SomeD [OF k(1)] ReadNodes_reading [OF assms(2), of k] assms(3) True by (simp add: moving_def reading_def)
next
  case False
  then show ?thesis
    using assms(1) by (auto simp: finalReading_def FinalSnellReading_def EmptySnellMeter_def moving_def reading_def
        elim!: bindR_InrE split: if_splits option.splits)
qed

lemma FinalRead_frozen:
  assumes "FinalRead S oc a h ns = Inr cs" "distinct (map pc_NodeID cs)"
    and "\<And>n. n \<in> set ns \<Longrightarrow> am_NodeID n \<notin> set (ho_counted h)"
    and "n \<in> set ns"
  shows "\<not> moving h (am_Core n) (am_NodeID n) \<and>
    (\<forall>c \<in> set cs. pc_NodeID c = am_NodeID n \<longrightarrow> reading h (am_Core n) (am_NodeID n) = Some (pc_Rx c, pc_Tx c))"
proof -
  obtain nc where r: "ReadNodes (oc_list oc) h = Inr nc"
    and f: "foldE (\<lambda>out n. bindR (finalReading S oc a h nc n) (\<lambda>c. Inr (out @ [c]))) [] ns = Inr cs"
    using assms(1) by (auto simp: FinalRead_def elim!: bindR_InrE)
  have m: "map (finalReading S oc a h nc) ns = map Inr cs" using foldE_collect [OF f] by auto
  have l: "length ns = length cs" using m by (metis length_map)
  obtain j where j: "j < length ns" "ns ! j = n" using assms(4) by (metis in_set_conv_nth)
  have "finalReading S oc a h nc n = Inr (cs ! j)" using m j l by (metis nth_map)
  then have k: "pc_NodeID (cs ! j) = am_NodeID n \<and> \<not> moving h (am_Core n) (am_NodeID n) \<and>
      reading h (am_Core n) (am_NodeID n) = Some (pc_Rx (cs ! j), pc_Tx (cs ! j))"
    using finalReading_frozen [OF _ r] assms(3) [OF assms(4)] by blast
  moreover have "cs ! j = c" if "c \<in> set cs" "pc_NodeID c = am_NodeID n" for c
    using k assms(2) that j l by (metis distinct_map inj_on_eq_iff nth_mem)
  ultimately show ?thesis by auto
qed

lemma begin_sound:
  assumes b: "beginRetirement S oc w = (r, w')" and ok: "sound S w"
  shows "sound S w' \<and> wd_host w' = wd_host w \<and> wd_panel w' = wd_panel w"
proof (cases "w' = w")
  case False
  let ?s = "memory w" and ?a = "wd_agent w"
  obtain ds counters where pre: "as_Retirement ?s = None" "as_ApplyError ?s = ''''" "ag_desired ?a = Some ds"
    and fr: "FinalRead S oc ?a (wd_host w) (retiringNodes (as_MeterNodes ?s) (ds_Nodes ds)) = Inr counters"
    using b False by (auto simp: beginRetirement_def Let_def split: if_splits option.splits sum.splits)
  let ?ns = "retiringNodes (as_MeterNodes ?s) (ds_Nodes ds)"
  let ?batch = "\<lparr>ms_ID = digestSettlement (se_env S) (oc_now oc) counters, ms_TS = oc_now oc, ms_Counters = counters\<rparr>"
  let ?p = "\<lparr>rt_Batch = ?batch, rt_Nodes = ?ns,
    rt_Remaining = remainingRules (as_MeterNodes ?s) (ds_Nodes ds), rt_Acked = False\<rparr>"
  let ?t = "?s\<lparr>as_Retirement := Some ?p\<rparr>"
  obtain v a1 where s: "Save (oc_save oc 2) (?a\<lparr>ag_State := ?t\<rparr>) = (v, a1)" by fastforce
  note se = Save_effect [OF s]
  have v: "MeterSettlement_Validate (se_env S) ?batch = Inr ()"
    and w': "w' = w\<lparr>wd_agent := a1\<rparr> \<or> w' = w\<lparr>wd_agent := a1\<lparr>ag_State := ?s\<rparr>\<rparr>"
    using b False pre fr s by (auto simp: beginRetirement_def Let_def split: if_splits sum.splits)
  have host: "wd_host w' = wd_host w" "wd_panel w' = wd_panel w" "ag_desired (wd_agent w') = ag_desired ?a"
    "as_MeterNodes (memory w') = as_MeterNodes ?s" "as_ApplyError (memory w') = as_ApplyError ?s"
    "states w' \<subseteq> insert ?t (states w)"
    using w' se by auto
  have new: "p = ?p \<or> p \<in> plans w" if "p \<in> plans w'" for p
    using plans_from [OF that host(6)] by auto
  have "am_NodeID n \<notin> set (ho_counted (wd_host w))" if "n \<in> set ?ns" for n
    using that sound_planned(1) [OF ok pre(3)] pre(2)
    by (auto simp: retiringNodes_def lastBy_None_iff dest!: in_set_takeD)
  then have fz: "frozen (wd_host w) ?p"
    using FinalRead_frozen [OF fr settlement_distinct [OF v, simplified]] unfolding frozen_def by auto
  note old = sound_planned(2) [OF ok pre(3)]
  have same: "rt_Nodes p = ?ns \<and> rt_Remaining p = remainingRules (as_MeterNodes ?s) (ds_Nodes ds)" if "p \<in> plans w'" for p
    using new [OF that] old [of p] pre(2) by auto
  have "\<forall>p \<in> plans w'. frozen (wd_host w') p"
    using new fz sound_frozen [OF ok] host(1) by auto
  moreover have "\<forall>p \<in> plans w'. rt_Acked p \<longrightarrow> recorded S (wd_panel w') (rt_Batch p)"
    using new sound_recorded [OF ok] host(2) by fastforce
  moreover have "planned w'"
    unfolding planned_def host using same sound_planned(1) [OF ok pre(3)] pre(2,3) by simp
  ultimately show ?thesis using same host unfolding sound_def by metis
qed (use ok in simp)

section \<open>Every run keeps the invariant\<close>

lemma EnsureNodes_counted:
  assumes "EnsureNodes t (meterRules ns ms) h = (Inr (), h')"
  shows "set (ho_counted h') \<subseteq> np_NodeID ` set ns"
proof -
  obtain rules where r: "NodeRules (meterRules ns ms) = Inr rules" "h' = installRules rules h"
    using assms by (auto simp: EnsureNodes_def split: if_splits sum.splits)
  then have "set (ho_counted h') = mr_NodeID ` {n \<in> set rules. \<not> mr_Retired n}" by auto
  then show ?thesis unfolding NodeRules_rules [OF r(1)] by (auto simp: meterRules_def)
qed

text \<open>
  Before the rules of another configuration are installed the identities are on disk, and with
  them a state without a plan: no older plan can come back afterwards.
\<close>

lemma applyMeters_effect:
  assumes ap: "applyMeters oc nonces fresh available ds w = (r, w1)" and none: "as_Retirement (memory w) = None"
  shows "as_Retirement (memory w1) = None \<and> wd_panel w1 = wd_panel w \<and>
    (wd_host w1 = wd_host w \<and> plans w1 \<subseteq> plans w \<and> r \<noteq> Inr () \<or>
     plans w1 = {} \<and> (r = Inr () \<longrightarrow> set (ho_counted (wd_host w1)) \<subseteq> np_NodeID ` set (ds_Nodes ds)))"
proof (cases "rememberMeters nonces (ds_Nodes ds) (memory w)")
  case (Inl e)
  then show ?thesis using ap none by (auto simp: applyMeters_def Let_def)
next
  case remember: (Inr s)
  have s: "as_Retirement s = None" using remember none by (auto simp: rememberMeters_def Let_def split: if_splits)
  obtain v1 a1 where s1: "Save (oc_save oc 0) ((wd_agent w)\<lparr>ag_State := s\<rparr>) = (v1, a1)" by fastforce
  note e1 = Save_effect [OF s1]
  show ?thesis
  proof (cases v1)
    case (Inl e)
    then have "w1 = w\<lparr>wd_agent := a1\<rparr>" "r = Inl e" using ap remember s1 by (auto simp: applyMeters_def Let_def)
    moreover from this have "plans w1 \<subseteq> plans w" using e1 s by (auto simp: plans_def)
    ultimately show ?thesis using e1(1) s by simp
  next
    case (Inr u)
    then have d1: "ag_Disk a1 = [s]" "ag_State a1 = s" using e1 by simp_all
    obtain v2 a2 where s2: "renewNonce oc fresh (wd_host w) a1 = (v2, a2)" by fastforce
    have d2: "as_Retirement (ag_State a2) = None" "\<forall>t \<in> set (ag_Disk a2). as_Retirement t = None"
      using s2 d1 s by (auto simp: renewNonce_def Save_def split: if_splits saving.splits)
    obtain v3 h where s3: "EnsureNodes (oc_nft oc) (meterRules (ds_Nodes ds) (as_MeterNodes s)) (wd_host w) = (v3, h)"
      by fastforce
    have "(w1 = w\<lparr>wd_agent := a1\<rparr> \<or> w1 = w\<lparr>wd_agent := a2\<rparr>) \<and> r \<noteq> Inr () \<or>
        w1 = w\<lparr>wd_agent := a2, wd_host := h\<rparr> \<and> r = v3"
      using ap by (cases available; cases v2; cases v3; auto simp: applyMeters_def Let_def remember s1 Inr s2 s3)
    then show ?thesis
      using d1 d2 s s3 EnsureNodes_counted [of "oc_nft oc" "ds_Nodes ds" "as_MeterNodes s" "wd_host w" h]
      by (auto simp: plans_def)
  qed
qed

lemma conclude_effect:
  "as_Retirement (ag_State (conclude sv err ds a)) = as_Retirement (ag_State a)"
  "as_ApplyError (ag_State (conclude sv err ds a)) = err"
  "t \<in> set (ag_Disk (conclude sv err ds a)) \<Longrightarrow> as_Retirement t = as_Retirement (ag_State a) \<or> t \<in> set (ag_Disk a)"
  "ag_desired (conclude sv err ds a) = (if err = '''' then Some ds else ag_desired a)"
  by (auto simp: conclude_def Save_def split: saving.splits if_splits)

lemma conclude_plans:
  "as_Retirement (memory w1) = None \<Longrightarrow> wd_agent w' = conclude sv err ds (wd_agent w1) \<Longrightarrow> plans w' \<subseteq> plans w1"
  using conclude_effect(1) [of sv err ds "wd_agent w1"] conclude_effect(3) [of _ sv err ds "wd_agent w1"]
  by (fastforce simp: plans_def)

lemma no_plans_sound: "plans w = {} \<Longrightarrow> planned w \<Longrightarrow> sound S w"
  by (simp add: sound_def)

theorem life_sound: "life S w \<Longrightarrow> sound S w"
proof (induction rule: life.induct)
  case (enrolled a d h)
  then show ?case by (intro no_plans_sound) (simp_all add: plans_def planned_def)
next
  case (flush w oc)
  then show ?case using flush_sound [of S oc w] by (metis prod.collapse)
next
  case (pending w oc)
  obtain r w1 where f: "flushRetirement S oc w = (r, w1)" by fastforce
  obtain r' w2 where b: "beginRetirement S oc w1 = (r', w2)" by fastforce
  have "sound S w1" "sound S w2" using flush_sound [OF f pending(2)] begin_sound [OF b] by auto
  then show ?case using f b by (auto simp: retirementPending_def split: sum.splits)
next
  case (configured w oc nonces fresh available ds w1 h sv err)
  let ?w = "w1\<lparr>wd_host := h, wd_agent := conclude sv err ds (wd_agent w1)\<rparr>"
  note e = applyMeters_effect [OF configured(3,2)]
  have "plans w1 = {}" "set (ho_counted h) \<subseteq> np_NodeID ` set (ds_Nodes ds)"
    using e configured(4) by (auto simp: sameTable_def)
  moreover have "plans ?w \<subseteq> plans w1" by (rule conclude_plans) (use e in auto)
  moreover have "planned ?w" if "plans ?w = {}"
    using that calculation(2) conclude_effect(2,4) [of sv err ds "wd_agent w1"] by (auto simp: planned_def split: if_splits)
  ultimately show ?case by (intro no_plans_sound) auto
next
  case (misconfigured w oc nonces fresh available ds e w1 err sv)
  let ?w = "w1\<lparr>wd_agent := conclude sv err ds (wd_agent w1)\<rparr>"
  note a = applyMeters_effect [OF misconfigured(3,2)]
  have p: "plans ?w \<subseteq> plans w1" by (rule conclude_plans) (use a in auto)
  have pl: "planned ?w" using misconfigured(4) conclude_effect(2) by (simp add: planned_def)
  show ?case
  proof (cases "plans w1 = {}")
    case True
    then show ?thesis using p pl by (intro no_plans_sound) auto
  next
    case False
    then have "wd_host w1 = wd_host w" "plans w1 \<subseteq> plans w" "wd_panel w1 = wd_panel w" using a by auto
    then show ?thesis using p
      by (intro sound_step [OF misconfigured(5) pl]) (auto intro: confirms_refl)
  qed
next
  case (doubt w err)
  show ?case
    by (rule sound_step [OF doubt(3)]) (use doubt(2) in \<open>auto simp: planned_def plans_def intro: confirms_refl\<close>)
next
  case (elsewhere w s t b sv)
  note e = Save_effect [OF prod.collapse [symmetric], of sv "(wd_agent w)\<lparr>ag_State := s\<rparr>"]
  show ?case
    by (rule save_sound [OF elsewhere(4), of _ s])
      (use e elsewhere(2,3) memory_plan in \<open>auto simp: meterPart_def intro: confirms_refl\<close>)
next
  case (traffic w h)
  show ?case
  proof (rule sound_step [OF traffic(3)])
    show "planned (w\<lparr>wd_host := h\<rparr>)"
      using sound_planned [OF traffic(3)] traffic(2) by (fastforce simp: planned_def plans_def drifts_def)
    fix p n assume "p \<in> plans w" "n \<in> set (rt_Nodes p)"
    then show "calmed (wd_host w) (wd_host (w\<lparr>wd_host := h\<rparr>)) (am_Core n) (am_NodeID n)"
      using traffic(2) sound_frozen [OF traffic(3), of p] by (auto simp: calmed_def drifts_def frozen_def)
  qed (auto simp: plans_def intro: confirms_refl)
next
  case (panel w d)
  show ?case
    by (rule save_sound [OF panel(3), of _ "memory w"]) (use panel(2) memory_plan in \<open>auto intro: confirms_refl\<close>)
next
  case (restart w s rest t)
  show ?case
    by (rule sound_step [OF restart(4)])
      (use restart(2) LoadState_plan [OF restart(3)] in \<open>auto simp: planned_def plans_def intro: confirms_refl\<close>)
next
  case (powerLoss w s t boot)
  show ?case
    by (rule sound_step [OF powerLoss(4)])
      (use powerLoss(2) LoadState_plan [OF powerLoss(3)] in
        \<open>auto simp: planned_def plans_def calmed_def moving_def reading_def nftReading_def nftTable_def intro: confirms_refl\<close>)
qed

text \<open>No handler deletes a meter whose last value the panel has not recorded.\<close>

lemma pending_accounts:
  assumes "life S w" "retirementPending S oc w = (r, w')"
    and "reading (wd_host w) core i = Some v" "reading (wd_host w') core i = None"
  shows "accounted S (wd_panel w') i v"
proof -
  obtain f w1 where f: "flushRetirement S oc w = (f, w1)" by fastforce
  obtain b w2 where b: "beginRetirement S oc w1 = (b, w2)" by fastforce
  note fs = flush_sound [OF f life_sound [OF assms(1)]]
  have "wd_host w2 = wd_host w1" "wd_panel w2 = wd_panel w1" using begin_sound [OF b] fs by auto
  moreover have "w' = w1 \<or> w' = w2" using assms(2) f b by (auto simp: retirementPending_def split: sum.splits)
  ultimately show ?thesis using fs assms(3,4) by (cases v) auto
qed

section \<open>Retirement completes\<close>

text \<open>When nothing fails and the panel accepts the batch, one flush ends the retirement.\<close>

definition undisturbed :: "outcome \<Rightarrow> bool" where
  "undisturbed oc \<longleftrightarrow> oc_link oc = Answered \<and> oc_lock oc \<and> (\<forall>k. oc_save oc k = Saved) \<and> (\<forall>k. oc_nft oc k) \<and>
     (\<forall>i k. oc_unit oc i k)"

definition cleanable :: "host \<Rightarrow> Retirement \<Rightarrow> bool" where
  "cleanable h p \<longleftrightarrow> isOk (NodeRules (rt_Remaining p)) \<and> (ho_nft h = None \<or> isOk (ReadNodes True h)) \<and>
     (\<forall>n \<in> set (rt_Nodes p). IsStandalone (am_Core n) \<longrightarrow> am_NodeID n > 0 \<and> \<not> moving h (am_Core n) (am_NodeID n))"

lemma removeMeters_completes:
  assumes "\<And>i k. u i k" "\<forall>n \<in> set ns. IsStandalone (am_Core n) \<longrightarrow> am_NodeID n > 0 \<and> \<not> moving h (am_Core n) (am_NodeID n)"
  shows "\<exists>h'. removeMeters u ns h = (Inr (), h')"
  using assms(2)
proof (induction ns arbitrary: h)
  case Nil
  then show ?case by simp
next
  case (Cons n ns)
  show ?case
  proof (cases "IsStandalone (am_Core n)")
    case False
    then show ?thesis using Cons by simp
  next
    case True
    then have "am_NodeID n > 0" "\<not> moving h (am_Core n) (am_NodeID n)" using Cons.prems by auto
    then obtain h1 where h1: "RemoveSnellMeter (u (am_NodeID n)) (am_NodeID n) h = (Inr (), h1)"
      using assms(1) True
      by (auto simp: RemoveSnellMeter_def EmptySnellMeter_def Let_def moving_def IsStandalone_def split: option.splits)
    have "\<forall>k \<in> set ns. IsStandalone (am_Core k) \<longrightarrow> am_NodeID k > 0 \<and> \<not> moving h1 (am_Core k) (am_NodeID k)"
      using Cons.prems RemoveSnellMeter_effect [OF h1] by (auto simp: calmed_def)
    from Cons.IH [OF this] show ?thesis using h1 True by simp
  qed
qed

lemma Clean_completes:
  assumes "undisturbed oc" "cleanable h p"
    and "am_NodeID ` set (rt_Nodes p) \<inter> mr_NodeID ` set (rt_Remaining p) = {}"
  shows "\<exists>h'. Clean oc p h = (Inr (), h')"
proof -
  let ?ids = "map am_NodeID (filter (\<lambda>n. am_Core n = ''singbox'') (rt_Nodes p))"
  obtain rules where r: "NodeRules (rt_Remaining p) = Inr rules" using assms(2) by (auto simp: cleanable_def isOk_iff)
  have retained: "\<not> list_ex (\<lambda>n. mr_NodeID n \<in> set ?ids) (rt_Remaining p)"
    using assms(3) by (fastforce simp: list_ex_iff)
  have t: "oc_nft oc k" for k using assms(1) by (simp add: undisturbed_def)
  have "ho_nft h = None \<or> isOk (ReadNodes True h)" using assms(2) by (simp add: cleanable_def)
  then obtain h1 where h1: "PruneNodes (oc_nft oc) (rt_Remaining p) ?ids h = (Inr (), h1)"
    using r retained t
    by (cases "ReadNodes True h") (auto simp: PruneNodes_def NodesExist_def Let_def simp del: set_map)
  have "\<forall>n \<in> set (rt_Nodes p). IsStandalone (am_Core n) \<longrightarrow> am_NodeID n > 0 \<and> \<not> moving h1 (am_Core n) (am_NodeID n)"
    using assms(2) PruneNodes_effect [OF h1] by (auto simp: cleanable_def moving_def IsStandalone_def)
  then obtain h2 where "removeMeters (oc_unit oc) (rt_Nodes p) h1 = (Inr (), h2)"
    using removeMeters_completes [of "oc_unit oc"] assms(1) unfolding undisturbed_def by blast
  then show ?thesis using h1 assms(1) by (simp add: Clean_def undisturbed_def)
qed

lemma acknowledge_completes:
  assumes "undisturbed oc" "MeterSettlement_Validate (se_env S) (rt_Batch p) = Inr ()"
    and "rt_Acked p \<or> isOk (fst (Ingest (se_env S) (se_order S) (oc_clock oc) (se_server S)
           (finalHeartbeat (rt_Batch p)) (wd_panel w)))"
  shows "\<exists>w'. acknowledge S oc p w = (Inr (p\<lparr>rt_Acked := True\<rparr>), w') \<and> wd_host w' = wd_host w \<and>
    as_MeterNodes (memory w') = as_MeterNodes (memory w)"
proof (cases "rt_Acked p")
  case True
  then show ?thesis by (simp add: acknowledge_def)
next
  case False
  then obtain res d where i: "Ingest (se_env S) (se_order S) (oc_clock oc) (se_server S)
      (finalHeartbeat (rt_Batch p)) (wd_panel w) = (Inr res, d)"
    using assms(3) by (metis isOk_iff prod.collapse)
  have "rs_FinalMeterAck res = ms_ID (rt_Batch p)" using Ingest_final_once [OF i, of "rt_Batch p"] by simp
  then show ?thesis
    using False i assms(1,2)
    by (simp add: acknowledge_def exchange_def agentHeartbeat_final undisturbed_def no_response_def Save_def Let_def)
qed

lemma flush_completes:
  assumes u: "undisturbed oc" and p: "as_Retirement (memory w) = Some p" "Retirement_validate (se_env S) p = Inr ()"
    and c: "cleanable (wd_host w) p"
    and a: "rt_Acked p \<or> isOk (fst (Ingest (se_env S) (se_order S) (oc_clock oc) (se_server S)
           (finalHeartbeat (rt_Batch p)) (wd_panel w)))"
  shows "\<exists>w'. flushRetirement S oc w = (Inr (), w') \<and> as_Retirement (memory w') = None \<and> disk w' = [memory w'] \<and>
    as_MeterNodes (memory w') = filter (\<lambda>n. am_NodeID n \<notin> am_NodeID ` set (rt_Nodes p)) (as_MeterNodes (memory w)) \<and>
    Clean oc (p\<lparr>rt_Acked := True\<rparr>) (wd_host w) = (Inr (), wd_host w')"
proof -
  note v = Retirement_validateD [OF p(2)]
  obtain w1 where w1: "acknowledge S oc p w = (Inr (p\<lparr>rt_Acked := True\<rparr>), w1)" "wd_host w1 = wd_host w"
    "as_MeterNodes (memory w1) = as_MeterNodes (memory w)"
    using acknowledge_completes [where w = w, OF u v(1) a] by blast
  obtain h where "Clean oc (p\<lparr>rt_Acked := True\<rparr>) (wd_host w) = (Inr (), h)"
    using Clean_completes [OF u, of "wd_host w" "p\<lparr>rt_Acked := True\<rparr>"] c v(2) by (auto simp: cleanable_def)
  then show ?thesis using p w1 u by (simp add: flushRetirement_def undisturbed_def Save_def forget_def)
qed

section \<open>Identities stay unique and bounded\<close>

definition identified :: "world \<Rightarrow> bool" where
  "identified w \<longleftrightarrow> (\<forall>s \<in> states w. meters_ok s)"

lemma identified_step:
  "identified w \<Longrightarrow> states w' \<subseteq> states w \<union> {s. meters_ok s} \<Longrightarrow> identified w'"
  by (auto simp: identified_def)

lemma meters_ok_same: "as_MeterNodes s = as_MeterNodes t \<Longrightarrow> meters_ok s = meters_ok t"
  by (simp add: meters_ok_def)

lemma meters_ok_forget: "meters_ok s \<Longrightarrow> meters_ok (forget p s)"
  by (auto simp: meters_ok_def forget_def distinct_map_filter intro: le_trans [OF length_filter_le])

lemma Save_identified:
  assumes "Save sv a = (r, a')" "meters_ok (ag_State a)"
  shows "insert (ag_State a') (set (ag_Disk a')) \<subseteq> set (ag_Disk a) \<union> {s. meters_ok s}"
  using Save_effect(1,2) [OF assms(1)] assms(2) by auto

lemma acknowledge_identified:
  assumes "acknowledge S oc p w = (r, w')" "identified w"
  shows "identified w'"
proof (cases "disk w' = disk w \<and> memory w' = memory w")
  case True
  then show ?thesis using assms(2) by (simp add: identified_def)
next
  case False
  let ?s = "(memory w)\<lparr>as_Retirement := Some (p\<lparr>rt_Acked := True\<rparr>)\<rparr>"
  obtain v a1 where s: "Save (oc_save oc 0) ((wd_agent w)\<lparr>ag_State := ?s\<rparr>) = (v, a1)" by fastforce
  have m: "meters_ok ?s" using assms(2) meters_ok_same [of ?s "memory w"] by (simp add: identified_def)
  have "wd_agent w' = a1 \<or> wd_agent w' = a1\<lparr>ag_State := memory w\<rparr>"
    using assms(1) False s by (auto simp: acknowledge_def Let_def split: if_splits prod.splits sum.splits)
  then have "states w' \<subseteq> states w \<union> {s. meters_ok s}" using Save_identified [OF s] m by auto
  then show ?thesis by (rule identified_step [OF assms(2)])
qed

lemma flush_identified:
  assumes "flushRetirement S oc w = (r, w')" "identified w"
  shows "identified w'"
  using assms(1)
proof (cases rule: flush_cases)
  case nothing
  then show ?thesis using assms(2) by simp
next
  case (unacknowledged p e)
  then show ?thesis using acknowledge_identified assms(2) by blast
next
  case (cleaning p w1 cr h a1)
  let ?s = "forget (p\<lparr>rt_Acked := True\<rparr>) (memory w1)"
  have i: "identified w1" by (rule acknowledge_identified [OF cleaning(3) assms(2)])
  have m: "meters_ok ?s" using i meters_ok_forget by (simp add: identified_def)
  have "states w' \<subseteq> states w1 \<union> {s. meters_ok s}"
    using cleaning(6) Save_identified [of "oc_save oc 1" "(wd_agent w1)\<lparr>ag_State := ?s\<rparr>"] m by auto
  then show ?thesis by (rule identified_step [OF i])
qed

lemma begin_identified:
  assumes "beginRetirement S oc w = (r, w')" "identified w"
  shows "identified w'"
proof (cases "w' = w")
  case False
  obtain p v a1 where s: "Save (oc_save oc 2) ((wd_agent w)\<lparr>ag_State := (memory w)\<lparr>as_Retirement := Some p\<rparr>\<rparr>) = (v, a1)"
    and "wd_agent w' = a1 \<or> wd_agent w' = a1\<lparr>ag_State := memory w\<rparr>"
    using assms(1) False by (auto simp: beginRetirement_def Let_def split: if_splits option.splits sum.splits prod.splits)
  moreover have "meters_ok ((memory w)\<lparr>as_Retirement := Some p\<rparr>)"
    using assms(2) by (simp add: identified_def meters_ok_def)
  ultimately have "states w' \<subseteq> states w \<union> {s. meters_ok s}" using Save_identified [OF s] by auto
  then show ?thesis by (rule identified_step [OF assms(2)])
qed (use assms(2) in simp)

lemma applyMeters_identified:
  assumes ap: "applyMeters oc nonces fresh available ds w = (r, w1)" and i: "identified w"
  shows "identified w1"
proof (cases "rememberMeters nonces (ds_Nodes ds) (memory w)")
  case (Inl e)
  then show ?thesis using ap i by (auto simp: applyMeters_def Let_def)
next
  case (Inr s)
  have m: "meters_ok s" using rememberMeters_ok [OF Inr] i by (simp add: identified_def)
  obtain v1 a1 where s1: "Save (oc_save oc 0) ((wd_agent w)\<lparr>ag_State := s\<rparr>) = (v1, a1)" by fastforce
  obtain v2 a2 where s2: "renewNonce oc fresh (wd_host w) a1 = (v2, a2)" by fastforce
  have st1: "ag_State a1 = s" using Save_effect(1) [OF s1] by simp
  have m2: "meters_ok (s\<lparr>as_CounterNonce := fresh\<rparr>)" using m by (simp add: meters_ok_def)
  have a1: "insert (ag_State a1) (set (ag_Disk a1)) \<subseteq> states w \<union> {s. meters_ok s}"
    using Save_identified [OF s1] m by auto
  have a2: "insert (ag_State a2) (set (ag_Disk a2)) \<subseteq> states w \<union> {s. meters_ok s}"
    using s2 a1 st1 m2 Save_identified [of "oc_save oc 1" "a1\<lparr>ag_State := s\<lparr>as_CounterNonce := fresh\<rparr>\<rparr>" v2 a2]
    by (auto simp: renewNonce_def split: if_splits)
  have "wd_agent w1 = a1 \<or> wd_agent w1 = a2"
    using ap Inr s1 s2 by (cases v1; cases available; cases v2)
      (auto simp: applyMeters_def Let_def split: prod.splits sum.splits)
  then have "states w1 \<subseteq> states w \<union> {s. meters_ok s}" using a1 a2 by auto
  then show ?thesis by (rule identified_step [OF i])
qed

lemma conclude_identified:
  assumes "identified w1" "wd_agent w' = conclude sv err ds (wd_agent w1)"
  shows "identified w'"
proof -
  have "t \<in> states w' \<Longrightarrow> as_MeterNodes t = as_MeterNodes (memory w1) \<or> t \<in> set (disk w1)" for t
    using assms(2) by (auto simp: conclude_def Save_def split: saving.splits if_splits)
  then show ?thesis using assms(1) meters_ok_same unfolding identified_def by blast
qed

lemma life_identified: "life S w \<Longrightarrow> identified w"
proof (induction rule: life.induct)
  case (enrolled a d h)
  then show ?case by (simp add: identified_def meters_ok_def)
next
  case (flush w oc)
  then show ?case using flush_identified by (metis prod.collapse)
next
  case (pending w oc)
  obtain r w1 where f: "flushRetirement S oc w = (r, w1)" by fastforce
  obtain r' w2 where b: "beginRetirement S oc w1 = (r', w2)" by fastforce
  have "identified w1" "identified w2" using flush_identified [OF f pending(2)] begin_identified [OF b] by auto
  then show ?case using f b by (auto simp: retirementPending_def split: sum.splits)
next
  case (configured w oc nonces fresh available ds w1 h sv err)
  show ?case by (rule conclude_identified [OF applyMeters_identified [OF configured(3,5)]]) simp
next
  case (misconfigured w oc nonces fresh available ds e w1 err sv)
  show ?case by (rule conclude_identified [OF applyMeters_identified [OF misconfigured(3,5)]]) simp
next
  case (elsewhere w s t b sv)
  have "meters_ok s" using elsewhere(2,4) meters_ok_same [of s "memory w"] by (simp add: identified_def meterPart_def)
  then show ?case using elsewhere(3,4) Save_effect(2) [OF prod.collapse [symmetric], of sv "(wd_agent w)\<lparr>ag_State := s\<rparr>"]
    by (auto simp: identified_def)
next
  case (restart w s rest t)
  then show ?case using LoadState_plan [OF restart(3)] meters_ok_same [of t s] by (auto simp: identified_def)
next
  case (powerLoss w s t boot)
  then show ?case using LoadState_plan [OF powerLoss(3)] meters_ok_same [of t s] by (auto simp: identified_def)
qed (auto simp: identified_def meters_ok_def)

end
