(* ===== verification/AgentExamples.thy ===== *)
theory AgentExamples
  imports Examples Settlement
begin

text \<open>
  A small agent, used to apply the theorems on retired meters at concrete inputs: it runs one
  node, loses it from its configuration, freezes the final reading and settles it with the
  panel of \<open>Examples\<close>.
\<close>

definition ex_setting :: setting where
  "ex_setting = \<lparr>se_env = ex_env, se_order = (\<lambda>x. x), se_server = ex_server, se_live = (\<lambda>_ d. (Inr no_response, d)),
     se_openrc = False, se_size = (\<lambda>_. 0)\<rparr>"

definition ex_calm :: outcome where
  "ex_calm = \<lparr>oc_link = Answered, oc_clock = ex_now, oc_now = ex_now, oc_save = (\<lambda>_. Saved), oc_lock = True,
     oc_list = True, oc_nft = (\<lambda>_. True), oc_unit = (\<lambda>_ _. True)\<rparr>"

definition ex_state :: State where
  "ex_state = \<lparr>as_ForwardUDPVersion = 0, as_OpenRCMieruVersion = 0, as_OpenRCVersion = 0, as_NATVersion = 0,
     as_ListenBindingVersion = 0, as_ForwardDNSVersion = 0, as_ForwardPrivateVersion = 0,
     as_ForwardTransportVersion = 0, as_NetworkForwardVersion = 0,
     as_ForwardPending = None, as_NetworkBindingVersion = 0, as_NetworkSSHVersion = 0,
     as_NetworkWireGuardVersion = 0, as_MitaVersion = 0, as_NetworkEgressVersion = 0, as_NetworkDesiredRevision = 0,
     as_NetworkDesiredHash = [], as_Retirement = None, as_MeterNodes = [], as_MeteringV1 = True,
     as_ServerURL = ''https://panel'', as_AgentToken = ''token'', as_AppliedRevision = 0, as_AppliedHash = [],
     as_ApplyError = [], as_CounterNonce = ''n''\<rparr>"

definition ex_agent :: agent where
  "ex_agent = \<lparr>ag_State = ex_state, ag_Disk = [ex_state], ag_bootID = ''boot'', ag_desired = None, ag_finalMeters = False\<rparr>"

definition ex_spec :: NodeSpec where
  "ex_spec = \<lparr>np_NodeID = 7, np_Name = ''node'', np_Protocol = ''vless'', np_Core = ''singbox'', np_ListenPort = 443,
     np_ShareID = Some 5, np_Blocked = False, np_ConnlogEnabled = False, np_Params = [], np_Network = [], np_Cert = None\<rparr>"

definition ex_wanted :: "NodeSpec list \<Rightarrow> DesiredState" where
  "ex_wanted ns = \<lparr>ds_PublicationGeneration = 1, ds_NetworkForwardVersion = 0, ds_NetworkGeneration = 1, ds_Revision = 1,
     ds_Hash = ''h'', ds_ServerID = 1, ds_Nodes = ns, ds_Forwards = [], ds_Rest = [], ds_GeneratedAt = 0\<rparr>"

text \<open>Enrolled on a host whose table already holds the node's counters.\<close>

definition ex_enrolled :: world where
  "ex_enrolled = \<lparr>wd_agent = ex_agent, wd_panel = ex_db,
     wd_host = \<lparr>ho_nft = Some [((7, DirRx), 40, 4), ((7, DirTx), 60, 6)], ho_counted = [], ho_slices = []\<rparr>\<rparr>"

definition ex_apply :: "NodeSpec list \<Rightarrow> world \<Rightarrow> world" where
  "ex_apply ns w =
     (let w1 = snd (applyMeters ex_calm (\<lambda>_. ''g'') ''n2'' True (ex_wanted ns) w)
      in w1\<lparr>wd_agent := conclude Saved [] (ex_wanted ns) (wd_agent w1)\<rparr>)"

definition ex_served :: world where "ex_served = ex_apply [ex_spec] ex_enrolled"
definition ex_dropped :: world where "ex_dropped = ex_apply [] ex_served"

definition ex_negotiated :: world where
  "ex_negotiated = ex_dropped\<lparr>wd_agent := (snd (Save Saved ((wd_agent ex_dropped)\<lparr>ag_State := memory ex_dropped\<rparr>)))
     \<lparr>ag_State := memory ex_dropped, ag_finalMeters := True\<rparr>\<rparr>"

definition ex_frozen :: world where "ex_frozen = snd (retirementPending ex_setting ex_calm ex_negotiated)"
definition ex_settled :: world where "ex_settled = snd (retirementPending ex_setting ex_calm ex_frozen)"

lemma ex_apply_life:
  assumes "life ex_setting w" "as_Retirement (memory w) = None"
    and "isOk (fst (applyMeters ex_calm (\<lambda>_. ''g'') ''n2'' True (ex_wanted ns) w))"
  shows "life ex_setting (ex_apply ns w)"
proof -
  obtain w1 where w1: "applyMeters ex_calm (\<lambda>_. ''g'') ''n2'' True (ex_wanted ns) w = (Inr (), w1)"
    using assms(3) by (metis isOk_iff old.unit.exhaust prod.collapse)
  have "life ex_setting (w1\<lparr>wd_host := wd_host w1, wd_agent := conclude Saved [] (ex_wanted ns) (wd_agent w1)\<rparr>)"
    by (rule life.configured [OF assms(1,2) w1]) (simp add: sameTable_def)
  then show ?thesis using w1 by (simp add: ex_apply_def Let_def)
qed

lemma ex_frozen_life: "life ex_setting ex_frozen"
proof -
  have "life ex_setting ex_enrolled"
    unfolding ex_enrolled_def by (rule life.enrolled) (simp_all add: ex_agent_def ex_state_def)
  then have "life ex_setting ex_served" unfolding ex_served_def by (rule ex_apply_life) (code_simp, code_simp)
  then have "life ex_setting ex_dropped" unfolding ex_dropped_def by (rule ex_apply_life) (code_simp, code_simp)
  then have "life ex_setting ex_negotiated" unfolding ex_negotiated_def by (rule life.elsewhere) simp_all
  then show ?thesis unfolding ex_frozen_def by (rule life.pending)
qed

lemma ex_frozen_plan:
  "case as_Retirement (memory ex_frozen) of None \<Rightarrow> False
   | Some p \<Rightarrow> Retirement_validate ex_env p = Inr () \<and> isOk (NodeRules (rt_Remaining p)) \<and>
       list_all (\<lambda>n. am_Core n = ''singbox'') (rt_Nodes p) \<and>
       isOk (fst (Ingest ex_env (\<lambda>x. x) ex_now ex_server (finalHeartbeat (rt_Batch p)) (wd_panel ex_frozen)))"
  by code_simp

lemma ex_frozen_clean:
  "case as_Retirement (memory ex_frozen) of None \<Rightarrow> False
   | Some p \<Rightarrow> reading (snd (Clean ex_calm (p\<lparr>rt_Acked := True\<rparr>) (wd_host ex_frozen))) ''singbox'' 7 = None"
  by code_simp

lemma ex_frozen_meter: "reading (wd_host ex_frozen) ''singbox'' 7 = Some (40, 60)"
  by code_simp

lemma ex_frozen_table: "isOk (ReadNodes True (wd_host ex_frozen))"
  by code_simp

lemma ex_undisturbed: "undisturbed ex_calm"
  by (simp add: undisturbed_def ex_calm_def)

lemma ex_ready:
  obtains p where "as_Retirement (memory ex_frozen) = Some p" "Retirement_validate (se_env ex_setting) p = Inr ()"
    "cleanable (wd_host ex_frozen) p"
    "isOk (fst (Ingest (se_env ex_setting) (se_order ex_setting) (oc_clock ex_calm) (se_server ex_setting)
       (finalHeartbeat (rt_Batch p)) (wd_panel ex_frozen)))"
    "reading (snd (Clean ex_calm (p\<lparr>rt_Acked := True\<rparr>) (wd_host ex_frozen))) ''singbox'' 7 = None"
proof -
  obtain p where p: "as_Retirement (memory ex_frozen) = Some p"
    using ex_frozen_plan by (auto split: option.splits)
  moreover have "cleanable (wd_host ex_frozen) p"
    using ex_frozen_plan p ex_frozen_table by (auto simp: cleanable_def list_all_iff IsStandalone_def)
  ultimately show ?thesis
    using that ex_frozen_plan ex_frozen_clean by (simp add: ex_setting_def ex_calm_def)
qed

lemma ex_settled_meter: "reading (wd_host ex_settled) ''singbox'' 7 = None"
proof -
  obtain p where p: "as_Retirement (memory ex_frozen) = Some p" "Retirement_validate (se_env ex_setting) p = Inr ()"
    "cleanable (wd_host ex_frozen) p"
    "isOk (fst (Ingest (se_env ex_setting) (se_order ex_setting) (oc_clock ex_calm) (se_server ex_setting)
       (finalHeartbeat (rt_Batch p)) (wd_panel ex_frozen)))"
    "reading (snd (Clean ex_calm (p\<lparr>rt_Acked := True\<rparr>) (wd_host ex_frozen))) ''singbox'' 7 = None"
    by (rule ex_ready)
  obtain w1 where f: "flushRetirement ex_setting ex_calm ex_frozen = (Inr (), w1)"
    and c: "Clean ex_calm (p\<lparr>rt_Acked := True\<rparr>) (wd_host ex_frozen) = (Inr (), wd_host w1)"
    using flush_completes [OF ex_undisturbed p(1-3)] p(4) by blast
  obtain r w2 where b: "beginRetirement ex_setting ex_calm w1 = (r, w2)" by fastforce
  have "wd_host w2 = wd_host w1"
    using begin_sound [OF b] flush_sound [OF f life_sound [OF ex_frozen_life]] by blast
  then have "wd_host ex_settled = wd_host w1"
    using f b by (auto simp: ex_settled_def retirementPending_def split: sum.splits)
  then show ?thesis using p(5) c by simp
qed

end
