(* ===== verification/Credentials.thy ===== *)
theory Credentials
  imports Calendar
begin

text \<open>
  Package \<^verbatim>\<open>internal/auth\<close>: time-based one-time codes with their replay guard, one-time
  recovery codes, and the check of an argon2id password string. Digests, encodings and
  the number scanner are library code and stand as the fields of a \<open>crypto\<close> record; what is
  modelled is what the package builds out of them. Random bytes are arguments.
\<close>

type_synonym byte = "8 word"

record crypto =
  cr_b32 :: "string \<Rightarrow> byte list option"
  cr_hmac_sha1 :: "byte list \<Rightarrow> byte list \<Rightarrow> byte list"
  cr_sha256 :: "string \<Rightarrow> string"
  cr_sscanf :: "string \<Rightarrow> (int \<times> int \<times> int) option"
  cr_b64 :: "string \<Rightarrow> byte list option"
  cr_b64url :: "string \<Rightarrow> byte list option"
  cr_argon2 :: "string \<Rightarrow> byte list \<Rightarrow> int \<Rightarrow> int \<Rightarrow> int \<Rightarrow> nat \<Rightarrow> byte list"

section \<open>Trimming\<close>

text \<open>
  \<^verbatim>\<open>strings.TrimSpace\<close> on UTF-8 bytes: the white space of ASCII and the encodings of the
  Unicode spaces U+0085, U+00A0, U+1680, U+2000 to U+200A, U+2028, U+2029, U+202F, U+205F and
  U+3000.
\<close>

definition spaces :: "string list" where
  "spaces =
    [[CHR 0x09], [CHR 0x0A], [CHR 0x0B], [CHR 0x0C], [CHR 0x0D], [CHR 0x20],
     [CHR 0xC2, CHR 0x85], [CHR 0xC2, CHR 0xA0], [CHR 0xE1, CHR 0x9A, CHR 0x80],
     [CHR 0xE2, CHR 0x80, CHR 0x80], [CHR 0xE2, CHR 0x80, CHR 0x81],
     [CHR 0xE2, CHR 0x80, CHR 0x82], [CHR 0xE2, CHR 0x80, CHR 0x83],
     [CHR 0xE2, CHR 0x80, CHR 0x84], [CHR 0xE2, CHR 0x80, CHR 0x85],
     [CHR 0xE2, CHR 0x80, CHR 0x86], [CHR 0xE2, CHR 0x80, CHR 0x87],
     [CHR 0xE2, CHR 0x80, CHR 0x88], [CHR 0xE2, CHR 0x80, CHR 0x89],
     [CHR 0xE2, CHR 0x80, CHR 0x8A], [CHR 0xE2, CHR 0x80, CHR 0xA8],
     [CHR 0xE2, CHR 0x80, CHR 0xA9], [CHR 0xE2, CHR 0x80, CHR 0xAF],
     [CHR 0xE2, CHR 0x81, CHR 0x9F], [CHR 0xE3, CHR 0x80, CHR 0x80]]"

function trimLeft :: "string list \<Rightarrow> string \<Rightarrow> string" where
  "trimLeft ps s =
     (case find (\<lambda>p. p \<noteq> [] \<and> HasPrefix s p) ps of
        None \<Rightarrow> s
      | Some p \<Rightarrow> trimLeft ps (drop (length p) s))"
  by pat_completeness auto
termination
proof (relation "measure (\<lambda>(ps, s). length s)", simp)
  fix ps s p
  assume "find (\<lambda>p. p \<noteq> [] \<and> HasPrefix s p) ps = Some p"
  then have "p \<noteq> []" "HasPrefix s p" by (auto simp: find_Some_iff)
  then show "((ps, drop (length p) s), ps, s) \<in> measure (\<lambda>(ps, s). length s)"
    by (auto simp: HasPrefix_iff)
qed

declare trimLeft.simps [simp del]

definition TrimSpace :: "string \<Rightarrow> string" where
  "TrimSpace s = rev (trimLeft (map rev spaces) (rev (trimLeft spaces s)))"

section \<open>One-time codes\<close>

definition totpPeriod :: int where "totpPeriod = 30"
definition totpDigits :: nat where "totpDigits = 6"
definition totpSkew :: int where "totpSkew = 1"

text \<open>\<^verbatim>\<open>t.Unix() / totpPeriod\<close>; Go's division truncates towards zero.\<close>

definition TOTPStep :: "time \<Rightarrow> i64" where
  "TOTPStep t =
     (let u = (t - unix_epoch) div second_ns
      in if u < 0 then - (- u div totpPeriod) else u div totpPeriod)"

text \<open>\<^verbatim>\<open>binary.BigEndian.PutUint64\<close> of a step and \<^verbatim>\<open>binary.BigEndian.Uint32\<close> of four bytes.\<close>

definition bigEndian64 :: "i64 \<Rightarrow> byte list" where
  "bigEndian64 n = map (\<lambda>k. word_of_int (n div 256 ^ (7 - k))) [0..<8]"

definition bigEndian32 :: "byte list \<Rightarrow> int" where
  "bigEndian32 bs = fold (\<lambda>b acc. acc * 256 + uint b) bs 0"

definition toUpperChar :: "char \<Rightarrow> char" where
  "toUpperChar c = (let n = of_char c :: nat in
     if 97 \<le> n \<and> n \<le> 122 then char_of (n - 32) else c)"

definition zeroPad :: "nat \<Rightarrow> string \<Rightarrow> string" where
  "zeroPad w s = replicate (w - length s) CHR ''0'' @ s"

definition TOTPCode :: "crypto \<Rightarrow> string \<Rightarrow> i64 \<Rightarrow> string res" where
  "TOTPCode cr secret step =
     (case cr_b32 cr (map toUpperChar (TrimSpace secret)) of
        None \<Rightarrow> Inl (Err ''illegal base32 data'')
      | Some key \<Rightarrow>
          (let sum = cr_hmac_sha1 cr key (bigEndian64 step);
               off = unat (last sum) mod 16;
               v = bigEndian32 (take 4 (drop off sum)) mod 2 ^ 31
           in Inr (zeroPad totpDigits (show_int (v mod 10 ^ totpDigits)))))"

text \<open>
  The loop over the accepted steps keeps the last match and stops at a secret that does not
  decode.
\<close>

fun totpLoop :: "crypto \<Rightarrow> string \<Rightarrow> string \<Rightarrow> i64 \<Rightarrow> i64 \<times> bool \<Rightarrow> i64 list \<Rightarrow> i64 \<times> bool" where
  "totpLoop cr secret code lastStep acc [] = acc"
| "totpLoop cr secret code lastStep acc (step # steps) =
     (case TOTPCode cr secret step of
        Inl _ \<Rightarrow> (0, False)
      | Inr want \<Rightarrow>
          totpLoop cr secret code lastStep
            (if want = code \<and> step > lastStep then (step, True) else acc) steps)"

definition VerifyTOTP :: "crypto \<Rightarrow> string \<Rightarrow> string \<Rightarrow> time \<Rightarrow> i64 \<Rightarrow> i64 \<times> bool" where
  "VerifyTOTP cr secret code0 now lastStep =
     (let code = filter (\<lambda>c. c \<noteq> CHR '' '') (TrimSpace code0)
      in if length code \<noteq> totpDigits then (0, False)
         else
           let cur = TOTPStep now
           in totpLoop cr secret code lastStep (0, False)
                (map (\<lambda>d. cur + d) [- totpSkew .. totpSkew]))"

section \<open>Recovery codes\<close>

definition recoveryAlphabet :: string where
  "recoveryAlphabet = ''abcdefghjkmnpqrstuvwxyz23456789''"

definition HashRecoveryCode :: "crypto \<Rightarrow> string \<Rightarrow> string" where
  "HashRecoveryCode cr code =
     cr_sha256 cr (''recovery:'' @
       map toLowerChar (filter (\<lambda>c. c \<noteq> CHR ''-'' \<and> c \<noteq> CHR '' '') (TrimSpace code)))"

text \<open>One code out of eight random bytes, a dash in the middle.\<close>

definition recoveryCode :: "byte list \<Rightarrow> string" where
  "recoveryCode b =
     concat (map (\<lambda>(j, x). (if j = 4 then ''-'' else []) @
                    [recoveryAlphabet ! (unat x mod length recoveryAlphabet)])
               (enumerate 0 b))"

definition NewRecoveryCodes :: "crypto \<Rightarrow> byte list list \<Rightarrow> string list \<times> string list" where
  "NewRecoveryCodes cr rand =
     (let plain = map recoveryCode rand in (plain, map (HashRecoveryCode cr) plain))"

fun UseRecoveryCode :: "crypto \<Rightarrow> string list \<Rightarrow> string \<Rightarrow> string list \<times> bool" where
  "UseRecoveryCode cr [] code = ([], False)"
| "UseRecoveryCode cr (x # hashes) code =
     (if x = HashRecoveryCode cr code then (hashes, True)
      else case UseRecoveryCode cr hashes code of (rest, ok) \<Rightarrow> (x # rest, ok))"

section \<open>Passwords and tokens\<close>

fun splitOn :: "char \<Rightarrow> string \<Rightarrow> string \<Rightarrow> string list" where
  "splitOn sep acc [] = [rev acc]"
| "splitOn sep acc (c # s) =
     (if c = sep then rev acc # splitOn sep [] s else splitOn sep (c # acc) s)"

definition VerifyPassword :: "crypto \<Rightarrow> string \<Rightarrow> string \<Rightarrow> bool" where
  "VerifyPassword cr encoded password =
     (if length password > 512 \<or> length encoded > 1024 then False
      else case splitOn CHR ''$'' [] encoded of
        [_, alg, ver, params, salt64, want64] \<Rightarrow>
          (if alg \<noteq> ''argon2id'' then False
           else case cr_sscanf cr params of
             None \<Rightarrow> False
           | Some (mem, tm, par) \<Rightarrow>
               (if ver \<noteq> ''v=19'' \<or> mem < 8 \<or> mem > 65536 \<or> tm < 1 \<or> tm > 4 \<or> par < 1 \<or> par > 4
                then False
                else case (cr_b64 cr salt64, cr_b64 cr want64) of
                  (Some salt, Some want) \<Rightarrow>
                    (if length salt < 8 \<or> length salt > 64 \<or> length want \<noteq> 32 then False
                     else cr_argon2 cr password salt tm mem par (length want) = want)
                | _ \<Rightarrow> False))
      | _ \<Rightarrow> False)"

definition HashToken :: "crypto \<Rightarrow> string \<Rightarrow> string" where
  "HashToken cr token = cr_sha256 cr token"

definition TokenHint :: "string \<Rightarrow> string" where
  "TokenHint token = (if length token \<le> 6 then token else take 6 token)"

section \<open>What an accepted code proves\<close>

text \<open>
  The loop, once: it reports a step only if the code is that step's code and the step lies
  past the last accepted one, and reports the last such step.
\<close>

lemma totpLoop_sound:
  assumes "totpLoop cr secret code lastStep acc steps = (step, True)"
  shows "acc = (step, True) \<or>
    step \<in> set steps \<and> step > lastStep \<and> TOTPCode cr secret step = Inr code"
  using assms by (induction steps arbitrary: acc) (auto split: sum.splits if_splits)

lemma totpLoop_complete:
  assumes "\<forall>s \<in> set steps. isOk (TOTPCode cr secret s)"
    and "snd acc \<or> (\<exists>s \<in> set steps. s > lastStep \<and> TOTPCode cr secret s = Inr code)"
  shows "snd (totpLoop cr secret code lastStep acc steps)"
  using assms
proof (induction steps arbitrary: acc)
  case Nil
  then show ?case by simp
next
  case (Cons s steps)
  then obtain want where "TOTPCode cr secret s = Inr want" by (auto simp: isOk_iff)
  with Cons show ?case by (cases acc) auto
qed

lemma VerifyTOTP_sound:
  assumes "VerifyTOTP cr secret code now lastStep = (step, True)"
  shows "lastStep < step \<and> \<bar>step - TOTPStep now\<bar> \<le> totpSkew \<and>
    TOTPCode cr secret step = Inr (filter (\<lambda>c. c \<noteq> CHR '' '') (TrimSpace code))"
  using assms
  by (auto simp: VerifyTOTP_def Let_def totpSkew_def split: if_splits dest!: totpLoop_sound)

lemma TOTPCode_decodes: "isOk (TOTPCode cr secret s) \<longleftrightarrow> isOk (TOTPCode cr secret t)"
  by (simp add: TOTPCode_def Let_def split: option.split)

text \<open>A printed number below a power of ten has at most that many digits.\<close>

lemma length_show_nat: "n < 10 ^ w \<Longrightarrow> 0 < w \<Longrightarrow> length (show_nat n) \<le> w"
proof (induction w arbitrary: n)
  case 0
  then show ?case by simp
next
  case (Suc w)
  show ?case
  proof (cases "n < 10")
    case False
    then have "0 < w" using Suc.prems by (cases w) auto
    moreover have "n div 10 < 10 ^ w" using Suc.prems(1) by (simp add: less_mult_imp_div_less mult.commute)
    ultimately have "length (show_nat (n div 10)) \<le> w" by (rule Suc.IH [rotated])
    with False show ?thesis by (simp add: show_nat.simps [of n])
  qed (simp add: show_nat.simps [of n])
qed

lemma show_int_nonneg: "0 \<le> i \<Longrightarrow> show_int i = show_nat (nat i)"
  by (simp add: show_int_def)

lemma TOTPCode_length: "TOTPCode cr secret s = Inr code \<Longrightarrow> length code = totpDigits"
proof -
  have "length (zeroPad totpDigits (show_int (v mod 10 ^ totpDigits))) = totpDigits" for v
  proof -
    have "show_int (v mod 10 ^ totpDigits) = show_nat (nat (v mod 10 ^ totpDigits))"
      by (rule show_int_nonneg) simp
    moreover have "length (show_nat (nat (v mod 10 ^ totpDigits))) \<le> totpDigits"
      by (rule length_show_nat) (simp_all add: nat_less_iff totpDigits_def)
    ultimately show ?thesis by (simp add: zeroPad_def)
  qed
  then show "TOTPCode cr secret s = Inr code \<Longrightarrow> length code = totpDigits"
    by (auto simp: TOTPCode_def Let_def split: option.splits)
qed

text \<open>The code of a step within the window is accepted until that step has been used.\<close>

lemma VerifyTOTP_complete:
  assumes "TOTPCode cr secret step = Inr (filter (\<lambda>c. c \<noteq> CHR '' '') (TrimSpace code))"
    and "lastStep < step" "\<bar>step - TOTPStep now\<bar> \<le> totpSkew"
  shows "snd (VerifyTOTP cr secret code now lastStep)"
proof -
  have "step \<in> set (map (\<lambda>d. TOTPStep now + d) [- totpSkew .. totpSkew])"
    using assms(3) by (auto simp: image_iff intro: bexI [of _ "step - TOTPStep now"])
  moreover have "isOk (TOTPCode cr secret s)" for s
    using assms(1) TOTPCode_decodes [of cr secret s step] by simp
  ultimately show ?thesis
    using assms(1,2) TOTPCode_length [OF assms(1)]
    by (auto simp: VerifyTOTP_def Let_def simp del: set_map set_upto intro!: totpLoop_complete)
qed

section \<open>A recovery code works once\<close>

lemma UseRecoveryCode_cases:
  "UseRecoveryCode cr hashes code =
     (remove1 (HashRecoveryCode cr code) hashes, HashRecoveryCode cr code \<in> set hashes)"
  by (induction hashes) auto

end
