(* ===== verification/Accounts.thy ===== *)
theory Accounts
  imports Credentials Tables
begin

text \<open>
  The account tables of \<^verbatim>\<open>internal/store\<close>: users, browser sessions and developer API keys
  (\<^verbatim>\<open>users.go\<close>, \<^verbatim>\<open>api_keys.go\<close>, the trigger and the foreign keys of the schema). A row of
  \<open>users\<close> carries a security version that every change of a credential moves on; sessions and
  keys remember the version they were issued under and are honoured only while it is current.
  Secrets sealed at rest are kept in the clear, a list stored as JSON is the list.
\<close>

section \<open>Rows and tables\<close>

record User =
  us_SecurityVersion :: i64
  us_ID :: i64
  us_Username :: string
  us_Nickname :: string
  us_PasswordHash :: string
  us_Role :: string
  us_Enabled :: bool
  us_Avatar :: string
  us_TOTPEnabled :: bool
  us_TOTPSecret :: string
  us_TOTPLastStep :: i64
  us_RecoveryCodes :: "string list"
  us_LastLoginAt :: "time option"
  us_CreatedAt :: time
  us_UpdatedAt :: time

definition RoleAdmin :: string where "RoleAdmin = ''admin''"
definition RoleUser :: string where "RoleUser = ''user''"

record Session =
  sn_ID :: string
  sn_UserID :: i64
  sn_CreatedAt :: time
  sn_ExpiresAt :: time
  sn_UserAgent :: string
  sn_IP :: string
  sn_SecurityVersion :: i64

record APIKey =
  ak_SecurityVersion :: i64
  ak_ID :: i64
  ak_UserID :: i64
  ak_Name :: string
  ak_TokenHash :: string
  ak_TokenHint :: string
  ak_Scopes :: "string list"
  ak_CreatedAt :: time
  ak_ExpiresAt :: "time option"
  ak_LastUsedAt :: "time option"
  ak_RevokedAt :: "time option"

record accounts =
  users :: "(i64 \<times> User) list"
  users_seq :: i64
  sessions :: "(string \<times> Session) list"
  api_keys :: "(i64 \<times> APIKey) list"
  api_keys_seq :: i64

section \<open>Users\<close>

definition CountUsers :: "accounts \<Rightarrow> nat" where
  "CountUsers d = length (users d)"

definition GetUser :: "i64 \<Rightarrow> accounts \<Rightarrow> User res" where
  "GetUser uid d = (case lookup (users d) uid of None \<Rightarrow> Inl ErrNotFound | Some u \<Rightarrow> Inr u)"

definition GetUserByName :: "string \<Rightarrow> accounts \<Rightarrow> User res" where
  "GetUserByName name d =
     (case find (\<lambda>(k, u). us_Username u = name) (users d) of
        None \<Rightarrow> Inl ErrNotFound
      | Some (k, u) \<Rightarrow> Inr u)"

definition ListUsers :: "accounts \<Rightarrow> User list" where
  "ListUsers d = map snd (sort_key fst (users d))"

text \<open>\<^verbatim>\<open>username TEXT NOT NULL UNIQUE\<close>, for a row about to be written under \<open>uid\<close>.\<close>

definition nameTaken :: "i64 \<Rightarrow> string \<Rightarrow> accounts \<Rightarrow> bool" where
  "nameTaken uid name d = list_ex (\<lambda>(k, u). k \<noteq> uid \<and> us_Username u = name) (users d)"

definition insertUser :: "User \<Rightarrow> accounts \<Rightarrow> User \<times> accounts" where
  "insertUser u d =
     (let uid = users_seq d + 1; row = u\<lparr>us_ID := uid\<rparr>
      in (row, d\<lparr>users := users d @ [(uid, row)], users_seq := uid\<rparr>))"

text \<open>The columns the two \<^verbatim>\<open>INSERT\<close> statements leave to their defaults.\<close>

definition freshUser :: "User \<Rightarrow> User" where
  "freshUser u =
     u\<lparr>us_SecurityVersion := 0, us_TOTPEnabled := False, us_TOTPSecret := [],
       us_TOTPLastStep := 0, us_LastLoginAt := None\<rparr>"

definition CreateInitialAdmin :: "time \<Rightarrow> User \<Rightarrow> accounts \<Rightarrow> User res \<times> accounts" where
  "CreateInitialAdmin now u d =
     (if users d \<noteq> [] then (Inl (Err ''system already initialized''), d)
      else case insertUser
          ((freshUser u)\<lparr>us_Nickname := [], us_Avatar := [], us_RecoveryCodes := [],
             us_Role := RoleAdmin, us_Enabled := True,
             us_CreatedAt := now, us_UpdatedAt := now\<rparr>) d of
        (row, d') \<Rightarrow> (Inr row, d'))"

definition CreateUser :: "time \<Rightarrow> User \<Rightarrow> accounts \<Rightarrow> User res \<times> accounts" where
  "CreateUser now u d =
     (if nameTaken 0 (us_Username u) d then (Inl (Err ''UNIQUE constraint failed: users.username''), d)
      else case insertUser
          ((freshUser u)\<lparr>us_Role := (if us_Role u = [] then RoleUser else us_Role u),
             us_CreatedAt := now, us_UpdatedAt := now\<rparr>) d of
        (row, d') \<Rightarrow> (Inr row, d'))"

text \<open>
  An \<^verbatim>\<open>UPDATE\<close> of a user row fires \<^verbatim>\<open>revoke_api_keys_security\<close> when it moves the security
  version.
\<close>

definition revoke_api_keys_security :: "User \<Rightarrow> User \<Rightarrow> (i64 \<times> APIKey) list \<Rightarrow> (i64 \<times> APIKey) list" where
  "revoke_api_keys_security old new keys =
     (if us_SecurityVersion new = us_SecurityVersion old then keys
      else map (\<lambda>(k, key).
        (k, if ak_UserID key = us_ID new \<and> ak_RevokedAt key = None
               \<and> ak_SecurityVersion key \<noteq> us_SecurityVersion new
            then key\<lparr>ak_RevokedAt := Some (us_UpdatedAt new)\<rparr> else key)) keys)"

definition writeUser :: "User \<Rightarrow> User \<Rightarrow> accounts \<Rightarrow> accounts" where
  "writeUser old new d =
     d\<lparr>users := upsert (us_ID old) new (users d),
       api_keys := revoke_api_keys_security old new (api_keys d)\<rparr>"

text \<open>The \<^verbatim>\<open>CASE\<close> of \<open>UpdateUser\<close>: does the write change a credential?\<close>

definition credentialChange :: "User \<Rightarrow> User \<Rightarrow> bool" where
  "credentialChange old new \<longleftrightarrow>
     us_PasswordHash old \<noteq> us_PasswordHash new \<or> us_Role old \<noteq> us_Role new
     \<or> us_Enabled old \<noteq> us_Enabled new \<or> us_TOTPEnabled old \<noteq> us_TOTPEnabled new"

text \<open>The row each \<^verbatim>\<open>UPDATE\<close> leaves, from the stored one.\<close>

definition updatedUser :: "time \<Rightarrow> User \<Rightarrow> User \<Rightarrow> User" where
  "updatedUser now u old =
     old\<lparr>us_SecurityVersion := us_SecurityVersion old + (if credentialChange old u then 1 else 0),
         us_Username := us_Username u, us_Nickname := us_Nickname u,
         us_PasswordHash := us_PasswordHash u, us_Role := us_Role u,
         us_Enabled := us_Enabled u, us_Avatar := us_Avatar u,
         us_TOTPSecret := us_TOTPSecret u, us_TOTPEnabled := us_TOTPEnabled u,
         us_TOTPLastStep := us_TOTPLastStep u, us_RecoveryCodes := us_RecoveryCodes u,
         us_UpdatedAt := now\<rparr>"

definition UpdateUser :: "time \<Rightarrow> User \<Rightarrow> accounts \<Rightarrow> unit res \<times> accounts" where
  "UpdateUser now u d =
     (case lookup (users d) (us_ID u) of
        None \<Rightarrow> (Inl (Err ''user state has changed''), d)
      | Some old \<Rightarrow>
          (if us_UpdatedAt old \<noteq> us_UpdatedAt u then (Inl (Err ''user state has changed''), d)
           else if nameTaken (us_ID u) (us_Username u) d
           then (Inl (Err ''UNIQUE constraint failed: users.username''), d)
           else (Inr (), writeUser old (updatedUser now u old) d)))"

definition securedUser :: "time \<Rightarrow> User \<Rightarrow> User \<Rightarrow> User \<Rightarrow> User" where
  "securedUser now before after old =
     old\<lparr>us_SecurityVersion := us_SecurityVersion old +
           (if us_TOTPEnabled before \<noteq> us_TOTPEnabled after
               \<or> us_TOTPEnabled before \<and> us_TOTPSecret before \<noteq> us_TOTPSecret after
            then 1 else 0),
         us_TOTPSecret := us_TOTPSecret after, us_TOTPEnabled := us_TOTPEnabled after,
         us_TOTPLastStep := us_TOTPLastStep after,
         us_RecoveryCodes := us_RecoveryCodes after, us_UpdatedAt := now\<rparr>"

text \<open>The \<^verbatim>\<open>WHERE\<close> of \<open>UpdateUserSecurity\<close>: the row is still the one that was read.\<close>

definition unchangedSince :: "User \<Rightarrow> User \<Rightarrow> bool" where
  "unchangedSince before old \<longleftrightarrow>
     us_PasswordHash old = us_PasswordHash before \<and> us_Enabled old = us_Enabled before
     \<and> us_UpdatedAt old = us_UpdatedAt before \<and> us_TOTPEnabled old = us_TOTPEnabled before
     \<and> us_TOTPLastStep old = us_TOTPLastStep before
     \<and> us_RecoveryCodes old = us_RecoveryCodes before"

definition UpdateUserSecurity :: "time \<Rightarrow> User \<Rightarrow> User \<Rightarrow> accounts \<Rightarrow> unit res \<times> accounts" where
  "UpdateUserSecurity now before after d =
     (case lookup (users d) (us_ID before) of
        None \<Rightarrow> (Inl (Err ''verification state has changed''), d)
      | Some old \<Rightarrow>
          (if unchangedSince before old
           then (Inr (), writeUser old (securedUser now before after old) d)
           else (Inl (Err ''verification state has changed''), d)))"

definition TouchLogin :: "time \<Rightarrow> i64 \<Rightarrow> accounts \<Rightarrow> accounts" where
  "TouchLogin now uid d =
     (case lookup (users d) uid of
        None \<Rightarrow> d
      | Some u \<Rightarrow> d\<lparr>users := upsert uid (u\<lparr>us_LastLoginAt := Some now\<rparr>) (users d)\<rparr>)"

text \<open>\<^verbatim>\<open>ON DELETE CASCADE\<close> takes the sessions and the keys along.\<close>

definition DeleteUser :: "i64 \<Rightarrow> accounts \<Rightarrow> accounts" where
  "DeleteUser uid d =
     d\<lparr>users := deleteWhere (\<lambda>(k, u). k = uid) (users d),
       sessions := deleteWhere (\<lambda>(k, s). sn_UserID s = uid) (sessions d),
       api_keys := deleteWhere (\<lambda>(k, key). ak_UserID key = uid) (api_keys d)\<rparr>"

section \<open>Sessions\<close>

text \<open>\<^verbatim>\<open>(SELECT security_version FROM users WHERE users.id=? AND enabled=1)\<close>\<close>

definition currentVersion :: "i64 \<Rightarrow> accounts \<Rightarrow> i64 option" where
  "currentVersion uid d =
     (case lookup (users d) uid of
        None \<Rightarrow> None
      | Some u \<Rightarrow> if us_Enabled u then Some (us_SecurityVersion u) else None)"

definition createSession :: "Session \<Rightarrow> User option \<Rightarrow> accounts \<Rightarrow> unit res \<times> accounts" where
  "createSession sess u d =
     (case lookup (users d) (sn_UserID sess) of
        None \<Rightarrow> (Inl ErrNotFound, d)
      | Some row \<Rightarrow>
          (if \<not> us_Enabled row \<or> (case u of None \<Rightarrow> False
               | Some u \<Rightarrow> us_SecurityVersion row \<noteq> us_SecurityVersion u
                         \<or> us_PasswordHash row \<noteq> us_PasswordHash u)
           then (Inl ErrNotFound, d)
           else if lookup (sessions d) (sn_ID sess) \<noteq> None
           then (Inl (Err ''UNIQUE constraint failed: sessions.id''), d)
           else
             (Inr (), d\<lparr>sessions := sessions d @
                [(sn_ID sess, sess\<lparr>sn_SecurityVersion := us_SecurityVersion row\<rparr>)]\<rparr>)))"

definition CreateSession :: "Session \<Rightarrow> accounts \<Rightarrow> unit res \<times> accounts" where
  "CreateSession sess d = createSession sess None d"

definition CreateAuthorizedSession :: "Session \<Rightarrow> User \<Rightarrow> accounts \<Rightarrow> unit res \<times> accounts" where
  "CreateAuthorizedSession sess u d = createSession sess (Some u) d"

text \<open>The condition \<^verbatim>\<open>WHERE id=? AND security_version=(...)\<close> shared by the session queries.\<close>

definition honoured :: "string \<Rightarrow> accounts \<Rightarrow> Session option" where
  "honoured sid d =
     (case lookup (sessions d) sid of
        None \<Rightarrow> None
      | Some s \<Rightarrow>
          if currentVersion (sn_UserID s) d = Some (sn_SecurityVersion s) then Some s else None)"

definition DeleteSession :: "string \<Rightarrow> accounts \<Rightarrow> accounts" where
  "DeleteSession sid d =
     (case honoured sid d of
        None \<Rightarrow> d
      | Some _ \<Rightarrow> d\<lparr>sessions := deleteWhere (\<lambda>(k, s). k = sid) (sessions d)\<rparr>)"

definition GetSession :: "time \<Rightarrow> string \<Rightarrow> accounts \<Rightarrow> Session res \<times> accounts" where
  "GetSession now sid d =
     (case honoured sid d of
        None \<Rightarrow> (Inl ErrNotFound, d)
      | Some s \<Rightarrow>
          if sn_ExpiresAt s < now then (Inl ErrNotFound, DeleteSession sid d) else (Inr s, d))"

definition DeleteUserSessions :: "i64 \<Rightarrow> accounts \<Rightarrow> accounts" where
  "DeleteUserSessions uid d =
     d\<lparr>sessions := deleteWhere (\<lambda>(k, s). sn_UserID s = uid) (sessions d)\<rparr>"

section \<open>Developer keys\<close>

definition MaxActiveAPIKeys :: nat where "MaxActiveAPIKeys = 32"

definition ErrConflict :: error where "ErrConflict = Err ''account security state changed''"
definition ErrAPIKeyLimit :: error where "ErrAPIKeyLimit = Err ''active API key limit reached''"

definition unexpired :: "time \<Rightarrow> APIKey \<Rightarrow> bool" where
  "unexpired now key = (case ak_ExpiresAt key of None \<Rightarrow> True | Some t \<Rightarrow> t > now)"

text \<open>The keys the limit counts: the \<^verbatim>\<open>SELECT COUNT\<close> of \<open>CreateAPIKey\<close>.\<close>

definition usableKeys :: "time \<Rightarrow> User \<Rightarrow> accounts \<Rightarrow> APIKey list" where
  "usableKeys now u d =
     filter (\<lambda>key. ak_UserID key = us_ID u \<and> ak_RevokedAt key = None
               \<and> ak_SecurityVersion key = us_SecurityVersion u \<and> unexpired now key)
       (map snd (api_keys d))"

definition issuedKey :: "time \<Rightarrow> i64 \<Rightarrow> APIKey \<Rightarrow> APIKey" where
  "issuedKey now kid key =
     key\<lparr>ak_ID := kid, ak_CreatedAt := now, ak_LastUsedAt := None, ak_RevokedAt := None\<rparr>"

definition CreateAPIKey :: "time \<Rightarrow> APIKey \<Rightarrow> accounts \<Rightarrow> APIKey res \<times> accounts" where
  "CreateAPIKey now key d =
     (case lookup (users d) (ak_UserID key) of
        None \<Rightarrow> (Inl ErrNotFound, d)
      | Some u \<Rightarrow>
          (if \<not> us_Enabled u then (Inl ErrNotFound, d)
           else if us_SecurityVersion u \<noteq> ak_SecurityVersion key then (Inl ErrConflict, d)
           else if \<not> length (usableKeys now u d) < MaxActiveAPIKeys then (Inl ErrAPIKeyLimit, d)
           else if length (ak_TokenHash key) \<noteq> 64
           then (Inl (Err ''CHECK constraint failed: length(token_hash)=64''), d)
           else if list_ex (\<lambda>(k, other). ak_TokenHash other = ak_TokenHash key) (api_keys d)
           then (Inl (Err ''UNIQUE constraint failed: api_keys.token_hash''), d)
           else
             let kid = api_keys_seq d + 1; row = issuedKey now kid key
             in (Inr row, d\<lparr>api_keys := api_keys d @ [(kid, row)], api_keys_seq := kid\<rparr>)))"

definition ListAPIKeys :: "i64 \<Rightarrow> accounts \<Rightarrow> APIKey list" where
  "ListAPIKeys uid d =
     map snd (rev (sort_key fst (filter (\<lambda>(k, key). ak_UserID key = uid) (api_keys d))))"

text \<open>The condition the lookups of a key share.\<close>

definition authorized :: "time \<Rightarrow> APIKey \<Rightarrow> accounts \<Rightarrow> bool" where
  "authorized now key d \<longleftrightarrow>
     ak_RevokedAt key = None \<and> unexpired now key
     \<and> currentVersion (ak_UserID key) d = Some (ak_SecurityVersion key)"

definition GetAPIKeyByHash :: "time \<Rightarrow> string \<Rightarrow> accounts \<Rightarrow> APIKey res" where
  "GetAPIKeyByHash now hash d =
     (case find (\<lambda>(k, key). ak_TokenHash key = hash \<and> authorized now key d) (api_keys d) of
        None \<Rightarrow> Inl ErrNotFound
      | Some (k, key) \<Rightarrow> Inr key)"

definition RevokeAPIKey :: "time \<Rightarrow> i64 \<Rightarrow> i64 \<Rightarrow> accounts \<Rightarrow> unit res \<times> accounts" where
  "RevokeAPIKey now uid kid d =
     (case lookup (api_keys d) kid of
        None \<Rightarrow> (Inl ErrNotFound, d)
      | Some key \<Rightarrow>
          (if ak_UserID key \<noteq> uid then (Inl ErrNotFound, d)
           else
             (Inr (), d\<lparr>api_keys := upsert kid
                (key\<lparr>ak_RevokedAt := Some (case ak_RevokedAt key of None \<Rightarrow> now | Some t \<Rightarrow> t)\<rparr>)
                (api_keys d)\<rparr>)))"

definition TouchAPIKey :: "time \<Rightarrow> i64 \<Rightarrow> accounts \<Rightarrow> unit res \<times> accounts" where
  "TouchAPIKey now kid d =
     (case lookup (api_keys d) kid of
        None \<Rightarrow> (Inl ErrNotFound, d)
      | Some key \<Rightarrow>
          (if authorized now key d
           then (Inr (), d\<lparr>api_keys := upsert kid (key\<lparr>ak_LastUsedAt := Some now\<rparr>) (api_keys d)\<rparr>)
           else (Inl ErrNotFound, d)))"

definition DeleteUserAPIKeys :: "i64 \<Rightarrow> accounts \<Rightarrow> accounts" where
  "DeleteUserAPIKeys uid d =
     d\<lparr>api_keys := deleteWhere (\<lambda>(k, key). ak_UserID key = uid) (api_keys d)\<rparr>"

section \<open>Histories of account operations\<close>

text \<open>
  Every write of the tables as a value, and the database after it; an operation that fails
  leaves the tables as they are.
\<close>

datatype account_op =
  InitialAdmin time User
  | NewUser time User
  | Update time User
  | UpdateSecurity time User User
  | Touch time i64
  | RemoveUser i64
  | NewSession Session "User option"
  | ReadSession time string
  | EndSession string
  | EndUserSessions i64
  | NewKey time APIKey
  | RevokeKey time i64 i64
  | TouchKey time i64
  | RemoveKeys i64

fun perform :: "account_op \<Rightarrow> accounts \<Rightarrow> accounts" where
  "perform (InitialAdmin now u) d = snd (CreateInitialAdmin now u d)"
| "perform (NewUser now u) d = snd (CreateUser now u d)"
| "perform (Update now u) d = snd (UpdateUser now u d)"
| "perform (UpdateSecurity now before after) d = snd (UpdateUserSecurity now before after d)"
| "perform (Touch now uid) d = TouchLogin now uid d"
| "perform (RemoveUser uid) d = DeleteUser uid d"
| "perform (NewSession s u) d = snd (createSession s u d)"
| "perform (ReadSession now sid) d = snd (GetSession now sid d)"
| "perform (EndSession sid) d = DeleteSession sid d"
| "perform (EndUserSessions uid) d = DeleteUserSessions uid d"
| "perform (NewKey now key) d = snd (CreateAPIKey now key d)"
| "perform (RevokeKey now uid kid) d = snd (RevokeAPIKey now uid kid d)"
| "perform (TouchKey now kid) d = snd (TouchAPIKey now kid d)"
| "perform (RemoveKeys uid) d = DeleteUserAPIKeys uid d"

text \<open>What a history keeps: proved once for every invariant a single operation keeps.\<close>

locale account_history =
  fixes keeps :: "accounts \<Rightarrow> bool"
    and admits :: "account_op \<Rightarrow> bool"
  assumes perform_keeps: "keeps d \<Longrightarrow> admits op \<Longrightarrow> keeps (perform op d)"
begin

lemma history_keeps: "keeps d \<Longrightarrow> list_all admits ops \<Longrightarrow> keeps (fold perform ops d)"
  by (induction ops arbitrary: d) (auto intro: perform_keeps)

end

subsection \<open>What one operation does to each table\<close>

text \<open>A user row stays until it is deleted, and its security version never goes back.\<close>

definition grows :: "accounts \<Rightarrow> accounts \<Rightarrow> i64 \<Rightarrow> bool" where
  "grows d d' uid \<longleftrightarrow>
     (\<forall>u. lookup (users d) uid = Some u \<longrightarrow>
        (\<exists>u'. lookup (users d') uid = Some u' \<and> us_SecurityVersion u \<le> us_SecurityVersion u'))"

lemma grows_refl [simp]: "users d' = users d \<Longrightarrow> grows d d' uid"
  by (simp add: grows_def)

lemma grows_insertUser: "grows d (snd (insertUser u d)) uid"
  by (auto simp: grows_def insertUser_def Let_def map_add_def)

lemma grows_writeUser:
  "lookup (users d) (us_ID old) = Some old \<Longrightarrow> us_SecurityVersion old \<le> us_SecurityVersion new \<Longrightarrow>
   grows d (writeUser old new d) uid"
  by (auto simp: grows_def writeUser_def)

definition ids_ok :: "accounts \<Rightarrow> bool" where
  "ids_ok d \<longleftrightarrow> (\<forall>uid u. lookup (users d) uid = Some u \<longrightarrow> us_ID u = uid)"

lemma UpdateUser_cases:
  obtains (same) e where "UpdateUser now u d = (Inl e, d)"
  | (written) old where "UpdateUser now u d = (Inr (), writeUser old (updatedUser now u old) d)"
      "lookup (users d) (us_ID u) = Some old" "us_UpdatedAt old = us_UpdatedAt u"
proof (cases "UpdateUser now u d")
  case (Pair r d')
  then show ?thesis
    using same written by (auto simp: UpdateUser_def split: option.splits if_splits)
qed

lemma UpdateUserSecurity_cases:
  obtains (same) e where "UpdateUserSecurity now before after d = (Inl e, d)"
  | (written) old where
      "UpdateUserSecurity now before after d = (Inr (), writeUser old (securedUser now before after old) d)"
      "lookup (users d) (us_ID before) = Some old" "unchangedSince before old"
proof (cases "UpdateUserSecurity now before after d")
  case (Pair r d')
  then show ?thesis
    using same written by (auto simp: UpdateUserSecurity_def split: option.splits if_splits)
qed

lemma written_rows [simp]:
  "us_ID (updatedUser now u old) = us_ID old"
  "us_ID (securedUser now before after old) = us_ID old"
  "us_UpdatedAt (updatedUser now u old) = now"
  "us_UpdatedAt (securedUser now before after old) = now"
  "us_SecurityVersion old \<le> us_SecurityVersion (updatedUser now u old)"
  "us_SecurityVersion old \<le> us_SecurityVersion (securedUser now before after old)"
  by (simp_all add: updatedUser_def securedUser_def)

subsection \<open>The tables stay consistent\<close>

text \<open>
  Foreign keys hold, no session is ahead of its user's security version, and a key that is
  not revoked was issued under the current version.
\<close>

definition session_ok :: "accounts \<Rightarrow> Session \<Rightarrow> bool" where
  "session_ok d s \<longleftrightarrow>
     (case lookup (users d) (sn_UserID s) of
        None \<Rightarrow> False
      | Some u \<Rightarrow> sn_SecurityVersion s \<le> us_SecurityVersion u)"

definition key_ok :: "accounts \<Rightarrow> APIKey \<Rightarrow> bool" where
  "key_ok d key \<longleftrightarrow>
     (case lookup (users d) (ak_UserID key) of
        None \<Rightarrow> False
      | Some u \<Rightarrow> ak_RevokedAt key = None \<longrightarrow> ak_SecurityVersion key = us_SecurityVersion u)"

definition accounts_ok :: "accounts \<Rightarrow> bool" where
  "accounts_ok d \<longleftrightarrow>
     (\<forall>(k, u) \<in> set (users d). us_ID u = k)
     \<and> keys_ok (sessions d)
     \<and> (\<forall>(k, s) \<in> set (sessions d). session_ok d s)
     \<and> (\<forall>(k, key) \<in> set (api_keys d). key_ok d key)"

lemma accounts_okD:
  assumes "accounts_ok d"
  shows "lookup (users d) uid = Some u \<Longrightarrow> us_ID u = uid"
    and "(sid, s) \<in> set (sessions d) \<Longrightarrow> session_ok d s"
    and "(kid, key) \<in> set (api_keys d) \<Longrightarrow> key_ok d key"
  using assms by (fastforce simp: accounts_ok_def dest: map_of_SomeD)+

lemma accounts_okI:
  assumes "\<And>k u. (k, u) \<in> set (users d) \<Longrightarrow> us_ID u = k"
    and "keys_ok (sessions d)"
    and "\<And>k s. (k, s) \<in> set (sessions d) \<Longrightarrow> session_ok d s"
    and "\<And>k key. (k, key) \<in> set (api_keys d) \<Longrightarrow> key_ok d key"
  shows "accounts_ok d"
  using assms by (auto simp: accounts_ok_def)

lemma writeUser_fields [simp]:
  "users (writeUser old new d) = upsert (us_ID old) new (users d)"
  "sessions (writeUser old new d) = sessions d"
  "api_keys (writeUser old new d) = revoke_api_keys_security old new (api_keys d)"
  "users_seq (writeUser old new d) = users_seq d"
  by (simp_all add: writeUser_def)

text \<open>Rows other than the ones an operation names carry over.\<close>

lemma session_ok_grows: "session_ok d s \<Longrightarrow> grows d d' (sn_UserID s) \<Longrightarrow> session_ok d' s"
  by (fastforce simp: session_ok_def grows_def split: option.splits)

lemma session_ok_users: "users d' = users d \<Longrightarrow> session_ok d' s = session_ok d s"
  by (simp add: session_ok_def)

lemma key_ok_users: "users d' = users d \<Longrightarrow> key_ok d' key = key_ok d key"
  by (simp add: key_ok_def)

lemma lookup_appended: "lookup t k = Some v \<Longrightarrow> lookup (t @ rows) k = Some v"
  by (simp add: map_add_Some_iff)

lemma accounts_ok_insertUser:
  assumes "accounts_ok d"
  shows "accounts_ok (snd (insertUser u d))"
proof -
  have keep: "lookup (users (snd (insertUser u d))) uid = Some v" if "lookup (users d) uid = Some v" for uid v
    using that by (simp add: insertUser_def Let_def lookup_appended)
  have "session_ok (snd (insertUser u d)) s" if "session_ok d s" for s
    using that keep by (auto simp: session_ok_def split: option.splits)
  moreover have "key_ok (snd (insertUser u d)) key" if "key_ok d key" for key
    using that keep by (auto simp: key_ok_def split: option.splits)
  ultimately show ?thesis
    using assms by (auto simp: accounts_ok_def insertUser_def Let_def)
qed

text \<open>
  A key row is only ever touched or revoked: what it grants and the fact that it was revoked
  stay. \<open>keysFrom t t'\<close>: every row of \<open>t'\<close> is a later state of a row of \<open>t\<close>.
\<close>

definition laterKey :: "APIKey \<Rightarrow> APIKey \<Rightarrow> bool" where
  "laterKey key key' \<longleftrightarrow>
     ak_UserID key' = ak_UserID key \<and> ak_TokenHash key' = ak_TokenHash key
     \<and> ak_SecurityVersion key' = ak_SecurityVersion key \<and> ak_ExpiresAt key' = ak_ExpiresAt key
     \<and> (ak_RevokedAt key \<noteq> None \<longrightarrow> ak_RevokedAt key' \<noteq> None)"

definition keysFrom :: "(i64 \<times> APIKey) list \<Rightarrow> (i64 \<times> APIKey) list \<Rightarrow> bool" where
  "keysFrom t t' \<longleftrightarrow>
     (\<forall>k key'. (k, key') \<in> set t' \<longrightarrow> (\<exists>key. (k, key) \<in> set t \<and> laterKey key key'))"

lemma keysFromE:
  assumes "keysFrom t t'" "(k, key') \<in> set t'"
  obtains key where "(k, key) \<in> set t" "laterKey key key'"
  using assms by (auto simp: keysFrom_def)

lemma laterKey_refl [simp]: "laterKey key key"
  by (simp add: laterKey_def)

lemma keysFrom_refl [simp]: "keysFrom t t"
  by (auto simp: keysFrom_def)

lemma keysFrom_upsert: "lookup t k = Some key \<Longrightarrow> laterKey key key' \<Longrightarrow> keysFrom t (upsert k key' t)"
  by (auto simp: keysFrom_def dest!: set_upsert dest: map_of_SomeD)

lemma keysFrom_deleteWhere: "keysFrom t (deleteWhere P t)"
  by (auto simp: keysFrom_def deleteWhere_def)

lemma keysFrom_revoked: "keysFrom t (revoke_api_keys_security old new t)"
  by (auto simp: keysFrom_def revoke_api_keys_security_def laterKey_def split: if_splits)

lemma revokes:
  assumes "(k, key) \<in> set (revoke_api_keys_security old new t)" "ak_UserID key = us_ID new"
    and "us_SecurityVersion new \<noteq> us_SecurityVersion old"
    and "ak_SecurityVersion key \<noteq> us_SecurityVersion new"
  shows "ak_RevokedAt key \<noteq> None"
  using assms by (auto simp: revoke_api_keys_security_def split: if_splits)

lemma accounts_ok_writeUser:
  assumes ok: "accounts_ok d" and old: "lookup (users d) (us_ID old) = Some old"
    and new: "us_ID new = us_ID old" "us_SecurityVersion old \<le> us_SecurityVersion new"
  shows "accounts_ok (writeUser old new d)"
proof -
  have "session_ok (writeUser old new d) s" if "session_ok d s" for s
    using that grows_writeUser [OF old new(2)] by (rule session_ok_grows)
  moreover have "key_ok (writeUser old new d) key'"
    if row: "(k, key') \<in> set (revoke_api_keys_security old new (api_keys d))" for k key'
  proof -
    obtain key where key: "(k, key) \<in> set (api_keys d)" "laterKey key key'"
      using keysFrom_revoked row by (rule keysFromE)
    have "key_ok d key" using accounts_okD(3) [OF ok key(1)] .
    with key old new(1) revokes [OF row] show ?thesis
      by (auto simp: key_ok_def laterKey_def split: option.splits)
  qed
  moreover have "us_ID u = k" if "(k, u) \<in> set (upsert (us_ID old) new (users d))" for k u
    using set_upsert [OF that] ok new(1) by (auto simp: accounts_ok_def)
  moreover have "keys_ok (sessions d)" using ok by (simp add: accounts_ok_def)
  ultimately show ?thesis
    using accounts_okD(2) [OF ok] by (intro accounts_okI) auto
qed


text \<open>The remaining writes, each with what it does to the two credential tables.\<close>

lemma users_kept [simp]:
  "users (snd (createSession s v d)) = users d"
  "users (DeleteSession sid d) = users d"
  "users (snd (GetSession now sid d)) = users d"
  "users (DeleteUserSessions uid d) = users d"
  "users (snd (CreateAPIKey now key d)) = users d"
  "users (snd (RevokeAPIKey now uid kid d)) = users d"
  "users (snd (TouchAPIKey now kid d)) = users d"
  "users (DeleteUserAPIKeys uid d) = users d"
  by (simp_all add: createSession_def DeleteSession_def GetSession_def DeleteUserSessions_def
      CreateAPIKey_def RevokeAPIKey_def TouchAPIKey_def DeleteUserAPIKeys_def Let_def
      split: option.split)

lemma sessions_kept [simp]:
  "sessions (snd (insertUser u d)) = sessions d"
  "sessions (TouchLogin now uid d) = sessions d"
  "sessions (snd (CreateAPIKey now key d)) = sessions d"
  "sessions (snd (RevokeAPIKey now uid kid d)) = sessions d"
  "sessions (snd (TouchAPIKey now kid d)) = sessions d"
  "sessions (DeleteUserAPIKeys uid d) = sessions d"
  by (simp_all add: insertUser_def TouchLogin_def CreateAPIKey_def RevokeAPIKey_def
      TouchAPIKey_def DeleteUserAPIKeys_def Let_def split: option.split)

lemma keys_kept [simp]:
  "api_keys (snd (insertUser u d)) = api_keys d"
  "api_keys (TouchLogin now uid d) = api_keys d"
  "api_keys (snd (createSession s v d)) = api_keys d"
  "api_keys (DeleteSession sid d) = api_keys d"
  "api_keys (snd (GetSession now sid d)) = api_keys d"
  "api_keys (DeleteUserSessions uid d) = api_keys d"
  by (simp_all add: insertUser_def TouchLogin_def createSession_def DeleteSession_def GetSession_def
      DeleteUserSessions_def Let_def split: option.split)

lemma issuedKey_simps [simp]:
  "ak_UserID (issuedKey now kid key) = ak_UserID key"
  "ak_TokenHash (issuedKey now kid key) = ak_TokenHash key"
  "ak_SecurityVersion (issuedKey now kid key) = ak_SecurityVersion key"
  "ak_ExpiresAt (issuedKey now kid key) = ak_ExpiresAt key"
  "ak_RevokedAt (issuedKey now kid key) = None"
  by (simp_all add: issuedKey_def)

lemma sessions_Update [simp]:
  "sessions (snd (UpdateUser now u d)) = sessions d"
  "sessions (snd (UpdateUserSecurity now before after d)) = sessions d"
  by (simp_all add: UpdateUser_def UpdateUserSecurity_def split: option.split)

lemma createSession_cases:
  "snd (createSession s v d) = d \<or>
   (\<exists>u. lookup (users d) (sn_UserID s) = Some u \<and> lookup (sessions d) (sn_ID s) = None \<and>
      snd (createSession s v d) =
        d\<lparr>sessions := sessions d @ [(sn_ID s, s\<lparr>sn_SecurityVersion := us_SecurityVersion u\<rparr>)]\<rparr>)"
  by (simp add: createSession_def split: option.split)

lemma CreateAPIKey_cases:
  "snd (CreateAPIKey now key d) = d \<or>
   (\<exists>u. lookup (users d) (ak_UserID key) = Some u \<and> us_SecurityVersion u = ak_SecurityVersion key \<and>
      length (usableKeys now u d) < MaxActiveAPIKeys \<and>
      snd (CreateAPIKey now key d) =
        d\<lparr>api_keys := api_keys d @ [(api_keys_seq d + 1, issuedKey now (api_keys_seq d + 1) key)],
          api_keys_seq := api_keys_seq d + 1\<rparr>)"
  by (simp add: CreateAPIKey_def Let_def split: option.split)

lemma sessions_deleted:
  "set (sessions (DeleteSession sid d)) \<subseteq> set (sessions d)"
  "set (sessions (snd (GetSession now sid d))) \<subseteq> set (sessions d)"
  "set (sessions (DeleteUserSessions uid d)) \<subseteq> set (sessions d)"
  "set (sessions (DeleteUser uid d)) \<subseteq> set (sessions d)"
  by (auto simp: DeleteSession_def GetSession_def DeleteUserSessions_def DeleteUser_def
      deleteWhere_def split: option.splits)

lemma keysFrom_ops:
  "keysFrom (api_keys d) (api_keys (snd (RevokeAPIKey now uid kid d)))"
  "keysFrom (api_keys d) (api_keys (snd (TouchAPIKey now kid d)))"
  "keysFrom (api_keys d) (api_keys (DeleteUserAPIKeys uid d))"
  "keysFrom (api_keys d) (api_keys (DeleteUser uid d))"
  by (auto simp: RevokeAPIKey_def TouchAPIKey_def DeleteUserAPIKeys_def DeleteUser_def laterKey_def
      keysFrom_deleteWhere intro!: keysFrom_upsert split: option.split)

lemma accounts_ok_credentials:
  assumes ok: "accounts_ok d" and same: "users d' = users d"
    and ses: "keys_ok (sessions d')" "set (sessions d') \<subseteq> set (sessions d)"
    and keys: "keysFrom (api_keys d) (api_keys d')"
  shows "accounts_ok d'"
proof (rule accounts_okI)
  show "us_ID u = k" if "(k, u) \<in> set (users d')" for k u
    using that ok same by (auto simp: accounts_ok_def)
  show "session_ok d' s" if "(k, s) \<in> set (sessions d')" for k s
    using that ses(2) accounts_okD(2) [OF ok] by (auto simp: session_ok_users [OF same])
  show "key_ok d' key'" if row: "(k, key') \<in> set (api_keys d')" for k key'
  proof -
    obtain key where "(k, key) \<in> set (api_keys d)" "laterKey key key'"
      using keys row by (rule keysFromE)
    with accounts_okD(3) [OF ok] show ?thesis
      by (force simp: key_ok_def laterKey_def same split: option.splits)
  qed
qed (rule ses(1))

lemma TouchLogin_write:
  assumes "accounts_ok d"
  shows "TouchLogin now uid d = d \<or>
    (\<exists>u. lookup (users d) (us_ID u) = Some u \<and>
       TouchLogin now uid d = writeUser u (u\<lparr>us_LastLoginAt := Some now\<rparr>) d)"
  using accounts_okD(1) [OF assms]
  by (auto simp: TouchLogin_def writeUser_def revoke_api_keys_security_def split: option.split)

lemma lookup_deleted:
  "lookup (deleteWhere (\<lambda>(k, v). k = i) t) j = (if j = i then None else lookup t j)"
  by (induction t) (auto simp: deleteWhere_def)

lemma accounts_ok_DeleteUser:
  assumes ok: "accounts_ok d"
  shows "accounts_ok (DeleteUser uid d)"
proof (rule accounts_okI)
  have keep: "lookup (users (DeleteUser uid d)) i = lookup (users d) i" if "i \<noteq> uid" for i
    using that by (simp add: DeleteUser_def lookup_deleted)
  show "us_ID u = k" if "(k, u) \<in> set (users (DeleteUser uid d))" for k u
    using that ok by (auto simp: accounts_ok_def DeleteUser_def deleteWhere_def)
  show "keys_ok (sessions (DeleteUser uid d))"
    using ok by (auto simp: accounts_ok_def DeleteUser_def)
  show "session_ok (DeleteUser uid d) s" if "(k, s) \<in> set (sessions (DeleteUser uid d))" for k s
    using that accounts_okD(2) [OF ok, of k s] keep [of "sn_UserID s"]
    by (simp add: session_ok_def) (auto simp: DeleteUser_def deleteWhere_def)
  show "key_ok (DeleteUser uid d) key" if "(k, key) \<in> set (api_keys (DeleteUser uid d))" for k key
    using that accounts_okD(3) [OF ok, of k key] keep [of "ak_UserID key"]
    by (simp add: key_ok_def) (auto simp: DeleteUser_def deleteWhere_def)
qed


lemma accounts_ok_createSession:
  assumes ok: "accounts_ok d"
  shows "accounts_ok (snd (createSession s v d))"
  using createSession_cases [of s v d]
proof (elim disjE exE conjE)
  fix u
  assume u: "lookup (users d) (sn_UserID s) = Some u" "lookup (sessions d) (sn_ID s) = None"
    and eq: "snd (createSession s v d) =
      d\<lparr>sessions := sessions d @ [(sn_ID s, s\<lparr>sn_SecurityVersion := us_SecurityVersion u\<rparr>)]\<rparr>"
  show ?thesis
  proof (rule accounts_okI)
    show "keys_ok (sessions (snd (createSession s v d)))"
      using ok u(2) by (auto simp: eq accounts_ok_def keys_ok_def map_of_eq_None_iff)
  qed (use ok u(1) in \<open>auto simp: eq accounts_ok_def session_ok_def key_ok_def\<close>)
qed (use ok in simp)

lemma accounts_ok_CreateAPIKey:
  assumes ok: "accounts_ok d"
  shows "accounts_ok (snd (CreateAPIKey now key d))"
  using CreateAPIKey_cases [of now key d]
proof (elim disjE exE conjE)
  fix u
  assume u: "lookup (users d) (ak_UserID key) = Some u" "us_SecurityVersion u = ak_SecurityVersion key"
    and eq: "snd (CreateAPIKey now key d) =
      d\<lparr>api_keys := api_keys d @ [(api_keys_seq d + 1, issuedKey now (api_keys_seq d + 1) key)],
        api_keys_seq := api_keys_seq d + 1\<rparr>"
  show ?thesis
    by (rule accounts_okI) (use ok u in \<open>auto simp: eq accounts_ok_def session_ok_def key_ok_def\<close>)
qed (use ok in simp)

lemma keys_ok_sessions:
  "keys_ok (sessions d) \<Longrightarrow> keys_ok (sessions (DeleteSession sid d))"
  "keys_ok (sessions d) \<Longrightarrow> keys_ok (sessions (snd (GetSession now sid d)))"
  "keys_ok (sessions d) \<Longrightarrow> keys_ok (sessions (DeleteUserSessions uid d))"
  by (auto simp: DeleteSession_def GetSession_def DeleteUserSessions_def split: option.splits)

lemma accounts_ok_Update:
  assumes ok: "accounts_ok d"
  shows "accounts_ok (snd (UpdateUser now u d))"
    and "accounts_ok (snd (UpdateUserSecurity now before after d))"
proof -
  show "accounts_ok (snd (UpdateUser now u d))"
  proof (cases rule: UpdateUser_cases [of now u d])
    case (written old)
    with accounts_okD(1) [OF ok written(2)] show ?thesis
      by (simp add: accounts_ok_writeUser [OF ok])
  qed (use ok in simp)
  show "accounts_ok (snd (UpdateUserSecurity now before after d))"
  proof (cases rule: UpdateUserSecurity_cases [of now before after d])
    case (written old)
    with accounts_okD(1) [OF ok written(2)] show ?thesis
      by (simp add: accounts_ok_writeUser [OF ok])
  qed (use ok in simp)
qed

lemma created:
  "snd (CreateInitialAdmin now u d) = d \<or> (\<exists>row. snd (CreateInitialAdmin now u d) = snd (insertUser row d))"
  "snd (CreateUser now u d) = d \<or> (\<exists>row. snd (CreateUser now u d) = snd (insertUser row d))"
  by (auto simp: CreateInitialAdmin_def CreateUser_def case_prod_beta)

lemma perform_keeps_accounts:
  assumes ok: "accounts_ok d"
  shows "accounts_ok (perform op d)"
proof -
  have ses: "keys_ok (sessions d)" using ok by (simp add: accounts_ok_def)
  show ?thesis
  proof (cases op)
    case (InitialAdmin now u)
    with created(1) [of now u d] ok show ?thesis by (auto simp: accounts_ok_insertUser)
  next
    case (NewUser now u)
    with created(2) [of now u d] ok show ?thesis by (auto simp: accounts_ok_insertUser)
  next
    case (Touch now uid)
    with TouchLogin_write [OF ok, of now uid] ok show ?thesis by (auto simp: accounts_ok_writeUser)
  qed (simp_all add: ok accounts_ok_Update accounts_ok_createSession accounts_ok_CreateAPIKey
      accounts_ok_DeleteUser accounts_ok_credentials [OF ok] keys_ok_sessions [OF ses] ses
      sessions_deleted keysFrom_ops)
qed

interpretation tables: account_history accounts_ok "\<lambda>op. True"
  by unfold_locales (rule perform_keeps_accounts)


subsection \<open>A revoked credential stays revoked\<close>

text \<open>
  A session is outdated when its user's security version has moved past it, a key is
  withdrawn when every row with its hash is revoked. Neither comes back unless the same
  session identifier or key hash is issued anew.
\<close>

definition outdated :: "string \<Rightarrow> accounts \<Rightarrow> bool" where
  "outdated sid d \<longleftrightarrow>
     (\<forall>s. lookup (sessions d) sid = Some s \<longrightarrow>
        (\<exists>u. lookup (users d) (sn_UserID s) = Some u \<and> sn_SecurityVersion s < us_SecurityVersion u))"

definition withdrawn :: "string \<Rightarrow> accounts \<Rightarrow> bool" where
  "withdrawn hash d \<longleftrightarrow>
     (\<forall>k key. (k, key) \<in> set (api_keys d) \<longrightarrow> ak_TokenHash key = hash \<longrightarrow> ak_RevokedAt key \<noteq> None)"

fun issuesSession :: "string \<Rightarrow> account_op \<Rightarrow> bool" where
  "issuesSession sid (NewSession s u) = (sn_ID s = sid)"
| "issuesSession sid _ = False"

fun issuesKey :: "string \<Rightarrow> account_op \<Rightarrow> bool" where
  "issuesKey hash (NewKey now key) = (ak_TokenHash key = hash)"
| "issuesKey hash _ = False"

lemma outdated_grows:
  assumes "outdated sid d"
    and "\<And>s. lookup (sessions d') sid = Some s \<Longrightarrow>
      lookup (sessions d) sid = Some s \<and> grows d d' (sn_UserID s)"
  shows "outdated sid d'"
  using assms by (fastforce simp: outdated_def grows_def)

lemma lookup_fewer:
  assumes "keys_ok t" "set t' \<subseteq> set t" "lookup t' k = Some v"
  shows "lookup t k = Some v"
proof -
  have "(k, v) \<in> set t" using assms(2,3) by (auto dest: map_of_SomeD)
  with assms(1) show ?thesis by (simp add: keys_ok_def)
qed

lemma outdated_fewer:
  assumes "accounts_ok d" "outdated sid d" "users d' = users d" "set (sessions d') \<subseteq> set (sessions d)"
  shows "outdated sid d'"
proof (rule outdated_grows [OF assms(2)])
  fix s
  assume s: "lookup (sessions d') sid = Some s"
  have "keys_ok (sessions d)" using assms(1) by (simp add: accounts_ok_def)
  then show "lookup (sessions d) sid = Some s \<and> grows d d' (sn_UserID s)"
    using lookup_fewer [OF _ assms(4) s] assms(3) by simp
qed

lemma grows_Update:
  assumes ok: "accounts_ok d"
  shows "grows d (snd (UpdateUser now u d)) uid"
    and "grows d (snd (UpdateUserSecurity now before after d)) uid"
proof -
  show "grows d (snd (UpdateUser now u d)) uid"
  proof (cases rule: UpdateUser_cases [of now u d])
    case (written old)
    with accounts_okD(1) [OF ok written(2)] show ?thesis by (simp add: grows_writeUser)
  qed simp
  show "grows d (snd (UpdateUserSecurity now before after d)) uid"
  proof (cases rule: UpdateUserSecurity_cases [of now before after d])
    case (written old)
    with accounts_okD(1) [OF ok written(2)] show ?thesis by (simp add: grows_writeUser)
  qed simp
qed

lemma outdated_DeleteUser:
  assumes ok: "accounts_ok d" and out: "outdated sid d"
  shows "outdated sid (DeleteUser uid d)"
proof (rule outdated_grows [OF out])
  fix s
  assume s: "lookup (sessions (DeleteUser uid d)) sid = Some s"
  then have "sn_UserID s \<noteq> uid"
    by (auto simp: DeleteUser_def deleteWhere_def dest: map_of_SomeD)
  moreover have "lookup (sessions d) sid = Some s"
    using ok lookup_fewer [OF _ sessions_deleted(4) s] by (simp add: accounts_ok_def)
  ultimately show "lookup (sessions d) sid = Some s \<and> grows d (DeleteUser uid d) (sn_UserID s)"
    by (simp add: grows_def DeleteUser_def lookup_deleted)
qed

lemma outdated_created:
  assumes "outdated sid d"
  shows "outdated sid (snd (CreateInitialAdmin now u d))" "outdated sid (snd (CreateUser now u d))"
  using assms created [of now u d]
  by (auto intro!: outdated_grows [OF assms] simp: grows_insertUser)

lemma perform_keeps_outdated:
  assumes ok: "accounts_ok d" and out: "outdated sid d" and fresh: "\<not> issuesSession sid op"
  shows "outdated sid (perform op d)"
proof (cases op)
  case (Touch now uid)
  with TouchLogin_write [OF ok, of now uid] out show ?thesis
    by (auto intro!: outdated_grows [OF out] grows_writeUser)
next
  case (NewSession s v)
  with fresh out createSession_cases [of s v d] show ?thesis
    by (auto simp: outdated_def map_add_Some_iff split: if_splits)
qed (use out in \<open>simp_all add: outdated_created outdated_DeleteUser [OF ok out]
    outdated_fewer [OF ok out] sessions_deleted\<close>,
  auto intro!: outdated_grows [OF out] simp: grows_Update [OF ok])


lemma withdrawn_from:
  assumes "withdrawn hash d" "keysFrom (api_keys d) (api_keys d')"
  shows "withdrawn hash d'"
  using assms by (fastforce simp: withdrawn_def keysFrom_def laterKey_def)

lemma keysFrom_users:
  "keysFrom (api_keys d) (api_keys (snd (CreateInitialAdmin now u d)))"
  "keysFrom (api_keys d) (api_keys (snd (CreateUser now u d)))"
  "keysFrom (api_keys d) (api_keys (snd (UpdateUser now u d)))"
  "keysFrom (api_keys d) (api_keys (snd (UpdateUserSecurity now before after d)))"
  using created [of now u d]
  by (auto simp: UpdateUser_def UpdateUserSecurity_def keysFrom_revoked split: option.split)

lemma perform_keeps_withdrawn:
  assumes out: "withdrawn hash d" and fresh: "\<not> issuesKey hash op"
  shows "withdrawn hash (perform op d)"
proof (cases op)
  case (NewKey now key)
  with fresh out CreateAPIKey_cases [of now key d] show ?thesis by (auto simp: withdrawn_def)
qed (simp_all add: withdrawn_from [OF out] keysFrom_ops keysFrom_users)

interpretation revoked: account_history
  "\<lambda>d. accounts_ok d \<and> outdated sid d \<and> withdrawn hash d"
  "\<lambda>op. \<not> issuesSession sid op \<and> \<not> issuesKey hash op" for sid hash
  by unfold_locales
    (simp add: perform_keeps_accounts perform_keeps_outdated perform_keeps_withdrawn)

text \<open>Neither is honoured.\<close>

lemma outdated_refused: "outdated sid d \<Longrightarrow> GetSession now sid d = (Inl ErrNotFound, d)"
  by (auto simp: GetSession_def honoured_def outdated_def currentVersion_def split: option.split)

lemma withdrawn_refused: "withdrawn hash d \<Longrightarrow> GetAPIKeyByHash now hash d = Inl ErrNotFound"
proof -
  assume "withdrawn hash d"
  then have "find (\<lambda>(k, key). ak_TokenHash key = hash \<and> authorized now key d) (api_keys d) = None"
    by (auto simp: find_None_iff withdrawn_def authorized_def)
  then show ?thesis by (simp add: GetAPIKeyByHash_def)
qed

text \<open>A write that changes a credential outdates every session and withdraws every key of its user.\<close>

definition ownedSession :: "i64 \<Rightarrow> string \<Rightarrow> accounts \<Rightarrow> bool" where
  "ownedSession uid sid d \<longleftrightarrow> (\<forall>s. lookup (sessions d) sid = Some s \<longrightarrow> sn_UserID s = uid)"

definition ownedKey :: "i64 \<Rightarrow> string \<Rightarrow> accounts \<Rightarrow> bool" where
  "ownedKey uid hash d \<longleftrightarrow>
     list_all (\<lambda>(k, key). ak_TokenHash key = hash \<longrightarrow> ak_UserID key = uid) (api_keys d)"

lemma versionMoved:
  assumes ok: "accounts_ok d" and old: "lookup (users d) (us_ID old) = Some old"
    and new: "us_ID new = us_ID old" "us_SecurityVersion old < us_SecurityVersion new"
    and own: "ownedSession (us_ID old) sid d" "ownedKey (us_ID old) hash d"
  shows "outdated sid (writeUser old new d) \<and> withdrawn hash (writeUser old new d)"
proof
  show "outdated sid (writeUser old new d)"
    unfolding outdated_def
  proof (intro allI impI)
    fix s
    assume s: "lookup (sessions (writeUser old new d)) sid = Some s"
    then have "sn_UserID s = us_ID old" "session_ok d s"
      using own(1) accounts_okD(2) [OF ok] by (auto simp: ownedSession_def dest: map_of_SomeD)
    with old new(2) show "\<exists>u. lookup (users (writeUser old new d)) (sn_UserID s) = Some u \<and>
        sn_SecurityVersion s < us_SecurityVersion u"
      by (simp add: session_ok_def)
  qed
  show "withdrawn hash (writeUser old new d)"
    unfolding withdrawn_def
  proof (intro allI impI)
    fix k key'
    assume row: "(k, key') \<in> set (api_keys (writeUser old new d))" and hash: "ak_TokenHash key' = hash"
    obtain key where key: "(k, key) \<in> set (api_keys d)" "laterKey key key'"
      using keysFrom_revoked row [unfolded writeUser_fields] by (rule keysFromE)
    have owner: "ak_UserID key = us_ID old"
      using own(2) key hash by (auto simp: ownedKey_def list_all_iff laterKey_def)
    show "ak_RevokedAt key' \<noteq> None"
    proof (cases "ak_RevokedAt key = None")
      case True
      with accounts_okD(3) [OF ok key(1)] owner old have "ak_SecurityVersion key = us_SecurityVersion old"
        by (simp add: key_ok_def)
      then show ?thesis
        using revokes [of k key' old new "api_keys d"] row key(2) owner new by (simp add: laterKey_def)
    qed (use key(2) in \<open>simp add: laterKey_def\<close>)
  qed
qed

end
