(* ===== verification/Admission.thy ===== *)
theory Admission
  imports Accounts
begin

text \<open>
  What slows a guesser down: the fixed-window rate limiter (\<^verbatim>\<open>internal/api/ratelimit.go\<close>) and
  the challenges handed out between the password and the second factor
  (\<^verbatim>\<open>internal/api/account.go\<close>). Both are maps behind a mutex; a map is an association list and
  each call is one step. Random tokens are arguments.
\<close>

section \<open>Rate limiter\<close>

record window =
  wi_start :: time
  wi_n :: int

record rateLimiter =
  rl_limit :: int
  rl_window :: int
  rl_hits :: "(string \<times> window) list"

definition newRateLimiter :: "int \<Rightarrow> int \<Rightarrow> rateLimiter" where
  "newRateLimiter limit w = \<lparr>rl_limit = limit, rl_window = w, rl_hits = []\<rparr>"

definition collectHits :: "time \<Rightarrow> rateLimiter \<Rightarrow> rateLimiter" where
  "collectHits now l =
     (if length (rl_hits l) \<ge> 10000
      then l\<lparr>rl_hits := deleteWhere (\<lambda>(k, w). now - wi_start w > rl_window l) (rl_hits l)\<rparr>
      else l)"

definition AllowN :: "time \<Rightarrow> string \<Rightarrow> int \<Rightarrow> rateLimiter \<Rightarrow> bool \<times> rateLimiter" where
  "AllowN now key limit0 l0 =
     (let limit = (if limit0 \<le> 0 then rl_limit l0 else limit0);
          l = collectHits now l0
      in case lookup (rl_hits l) key of
           None \<Rightarrow>
             (if length (rl_hits l) \<ge> 10000 then (False, l)
              else (True, l\<lparr>rl_hits := upsert key \<lparr>wi_start = now, wi_n = 1\<rparr> (rl_hits l)\<rparr>))
         | Some w \<Rightarrow>
             (if now - wi_start w > rl_window l
              then (True, l\<lparr>rl_hits := upsert key \<lparr>wi_start = now, wi_n = 1\<rparr> (rl_hits l)\<rparr>)
              else (wi_n w + 1 \<le> limit,
                    l\<lparr>rl_hits := upsert key (w\<lparr>wi_n := wi_n w + 1\<rparr>) (rl_hits l)\<rparr>)))"

definition Allow :: "time \<Rightarrow> string \<Rightarrow> rateLimiter \<Rightarrow> bool \<times> rateLimiter" where
  "Allow now key l = AllowN now key (rl_limit l) l"

text \<open>
  Within one window a key is let through at most as often as the limit says, whatever other
  keys do in between. \<open>allowed\<close> counts how often \<open>key\<close> passes in a run of calls.
\<close>

fun allowed :: "string \<Rightarrow> (time \<times> string) list \<Rightarrow> rateLimiter \<Rightarrow> int" where
  "allowed key [] l = 0"
| "allowed key ((now, k) # calls) l =
     (case Allow now k l of
        (ok, l') \<Rightarrow> (if ok \<and> k = key then 1 else 0) + allowed key calls l')"

lemma lookup_deleteWhere:
  assumes "keys_ok t"
  shows "lookup (deleteWhere P t) k =
    (case lookup t k of None \<Rightarrow> None | Some v \<Rightarrow> if P (k, v) then None else Some v)"
  using assms
proof (induction t)
  case Nil
  then show ?case by (simp add: deleteWhere_def)
next
  case (Cons r t)
  then have "keys_ok t" "fst r \<notin> fst ` set t" by (auto simp: keys_ok_def)
  moreover from this(2) have "lookup t (fst r) = None" by (simp add: map_of_eq_None_iff)
  ultimately show ?case
    using Cons.IH by (cases r) (auto simp: deleteWhere_def split: option.splits)
qed

lemma collectHits_keeps:
  assumes "keys_ok (rl_hits l)" "lookup (rl_hits l) key = Some w" "now - wi_start w \<le> rl_window l"
  shows "keys_ok (rl_hits (collectHits now l))" "lookup (rl_hits (collectHits now l)) key = Some w"
  using assms by (auto simp: collectHits_def lookup_deleteWhere)

lemma collectHits_params [simp]:
  "rl_window (collectHits now l) = rl_window l" "rl_limit (collectHits now l) = rl_limit l"
  by (simp_all add: collectHits_def)

lemma Allow_in_window:
  assumes "keys_ok (rl_hits l)" "lookup (rl_hits l) key = Some w" "now - wi_start w \<le> rl_window l"
    and "Allow now k l = (ok, l')"
  shows "keys_ok (rl_hits l')" "rl_window l' = rl_window l" "rl_limit l' = rl_limit l"
    "\<exists>w'. lookup (rl_hits l') key = Some w' \<and> wi_start w' = wi_start w \<and>
       wi_n w' = wi_n w + (if k = key then 1 else 0)"
    "ok \<and> k = key \<longrightarrow> wi_n w + 1 \<le> rl_limit l"
  using assms collectHits_keeps [OF assms(1-3)]
  by (auto simp: Allow_def AllowN_def Let_def split: option.splits if_splits)

lemma allowed_in_window:
  assumes "keys_ok (rl_hits l)" "lookup (rl_hits l) key = Some w"
    and "list_all (\<lambda>(now, k). now - wi_start w \<le> rl_window l) calls"
  shows "allowed key calls l \<le> max 0 (rl_limit l - wi_n w)"
  using assms
proof (induction calls arbitrary: l w)
  case Nil
  then show ?case by simp
next
  case (Cons c calls)
  obtain now k where c: "c = (now, k)" by fastforce
  obtain ok l' where l': "Allow now k l = (ok, l')" by fastforce
  have "now - wi_start w \<le> rl_window l" using Cons.prems(3) c by simp
  note step = Allow_in_window [OF Cons.prems(1,2) this l']
  then obtain w' where w': "lookup (rl_hits l') key = Some w'" "wi_start w' = wi_start w"
    "wi_n w' = wi_n w + (if k = key then 1 else 0)" by blast
  have "allowed key calls l' \<le> max 0 (rl_limit l' - wi_n w')"
    by (rule Cons.IH [OF step(1) w'(1)]) (use Cons.prems(3) w'(2) step(2) in simp)
  with w'(3) step(3,5) show ?case by (auto simp: c l' split: if_splits)
qed

section \<open>Login challenges\<close>

abbreviation minute_ns :: int where
  "minute_ns \<equiv> 60000000000"

definition challengeTTL :: int where "challengeTTL = 5 * minute_ns"
definition challengeAttempts :: int where "challengeAttempts = 5"

record challenge =
  ch_credentials :: string
  ch_userID :: i64
  ch_expires :: time
  ch_attempts :: int

type_synonym challengeStore = "(string \<times> challenge) list"

definition issue :: "time \<Rightarrow> string \<Rightarrow> i64 \<Rightarrow> string \<Rightarrow> challengeStore \<Rightarrow> string \<times> challengeStore" where
  "issue now tok uid credentials m0 =
     (let m = deleteWhere (\<lambda>(k, c). now > ch_expires c) m0
      in if length m \<ge> 10000 then ([], m)
         else (tok, upsert tok \<lparr>ch_credentials = credentials, ch_userID = uid,
                                ch_expires = now + challengeTTL, ch_attempts = 0\<rparr> m))"

definition attempt :: "time \<Rightarrow> string \<Rightarrow> challengeStore \<Rightarrow> challenge option \<times> challengeStore" where
  "attempt now tok m =
     (case lookup m tok of
        None \<Rightarrow> (None, m)
      | Some c \<Rightarrow>
          (if now > ch_expires c then (None, deleteWhere (\<lambda>(k, c). k = tok) m)
           else let c' = c\<lparr>ch_attempts := ch_attempts c + 1\<rparr>
                in if ch_attempts c' > challengeAttempts
                   then (None, deleteWhere (\<lambda>(k, c). k = tok) m)
                   else (Some c', upsert tok c' m)))"

definition drop_challenge :: "string \<Rightarrow> challengeStore \<Rightarrow> bool \<times> challengeStore" where
  "drop_challenge tok m =
     (lookup m tok \<noteq> None, deleteWhere (\<lambda>(k, c). k = tok) m)"

section \<open>How often a challenge can be tried\<close>

datatype challenge_op =
  Issue time string i64 string
  | Attempt time string
  | Drop string

fun challengeRun :: "challenge_op list \<Rightarrow> challengeStore \<Rightarrow> string list \<times> challengeStore" where
  "challengeRun [] m = ([], m)"
| "challengeRun (Issue now tok uid cred # ops) m =
     challengeRun ops (snd (issue now tok uid cred m))"
| "challengeRun (Drop tok # ops) m = challengeRun ops (snd (drop_challenge tok m))"
| "challengeRun (Attempt now tok # ops) m =
     (case attempt now tok m of
        (None, m') \<Rightarrow> challengeRun ops m'
      | (Some c, m') \<Rightarrow> (case challengeRun ops m' of (toks, m'') \<Rightarrow> (tok # toks, m'')))"

text \<open>The attempts a token has left; a token that is not issued again only loses them.\<close>

definition attemptsLeft :: "string \<Rightarrow> challengeStore \<Rightarrow> int" where
  "attemptsLeft tok m =
     (case lookup m tok of None \<Rightarrow> 0 | Some c \<Rightarrow> challengeAttempts - ch_attempts c)"

definition attempts_ok :: "challengeStore \<Rightarrow> bool" where
  "attempts_ok m \<longleftrightarrow>
     keys_ok m \<and> (\<forall>(k, c) \<in> set m. 0 \<le> ch_attempts c \<and> ch_attempts c \<le> challengeAttempts)"

lemma attempts_ok_lookup:
  "attempts_ok m \<Longrightarrow> lookup m tok = Some c \<Longrightarrow> 0 \<le> ch_attempts c \<and> ch_attempts c \<le> challengeAttempts"
  by (auto simp: attempts_ok_def dest: map_of_SomeD)

lemma attemptsLeft_nonneg: "attempts_ok m \<Longrightarrow> 0 \<le> attemptsLeft tok m"
  using attempts_ok_lookup [of m tok] by (simp add: attemptsLeft_def split: option.split)

lemma attempts_ok_deleteWhere: "attempts_ok m \<Longrightarrow> attempts_ok (deleteWhere P m)"
  by (auto simp: attempts_ok_def) (auto simp: deleteWhere_def)

lemma attempts_ok_upsert:
  "attempts_ok m \<Longrightarrow> 0 \<le> ch_attempts c \<Longrightarrow> ch_attempts c \<le> challengeAttempts \<Longrightarrow>
   attempts_ok (upsert tok c m)"
  by (auto simp: attempts_ok_def dest!: set_upsert)

lemma attempts_ok_ops:
  assumes "attempts_ok m"
  shows "attempts_ok (snd (issue now tok uid cred m))" "attempts_ok (snd (attempt now tok m))"
    "attempts_ok (snd (drop_challenge tok m))"
  using assms attempts_ok_lookup [OF assms, of tok]
  by (auto simp: issue_def attempt_def drop_challenge_def Let_def challengeAttempts_def [symmetric]
      attempts_ok_deleteWhere split: option.split
      intro!: attempts_ok_upsert attempts_ok_deleteWhere) (simp add: challengeAttempts_def)

lemma attemptsLeft_issue:
  assumes ok: "attempts_ok m" and "tok' \<noteq> tok"
  shows "attemptsLeft tok (snd (issue now tok' uid cred m)) \<le> attemptsLeft tok m"
  using assms(2) ok attemptsLeft_nonneg [OF ok, of tok]
  by (auto simp: issue_def Let_def attemptsLeft_def lookup_deleteWhere attempts_ok_def
      split: option.splits)

lemma attemptsLeft_drop: "attempts_ok m \<Longrightarrow> attemptsLeft tok (snd (drop_challenge tok' m)) \<le> attemptsLeft tok m"
  using attemptsLeft_nonneg [of m tok]
  by (auto simp: drop_challenge_def attemptsLeft_def lookup_deleted)

lemma attemptsLeft_attempt:
  assumes "attempts_ok m"
  shows "attemptsLeft tok (snd (attempt now tok' m)) +
    (if tok' = tok \<and> fst (attempt now tok' m) \<noteq> None then 1 else 0) \<le> attemptsLeft tok m"
  using assms attemptsLeft_nonneg [OF assms, of tok]
  by (auto simp: attempt_def attemptsLeft_def Let_def lookup_deleted split: option.splits if_splits)

fun issuesChallenge :: "string \<Rightarrow> challenge_op \<Rightarrow> bool" where
  "issuesChallenge tok (Issue now tok' uid cred) = (tok' = tok)"
| "issuesChallenge tok _ = False"

lemma attempts_bounded:
  assumes "attempts_ok m" "list_all (\<lambda>op. \<not> issuesChallenge tok op) ops"
  shows "int (count_list (fst (challengeRun ops m)) tok) \<le> attemptsLeft tok m"
  using assms
proof (induction ops m rule: challengeRun.induct)
  case (1 m)
  then show ?case by (simp add: attemptsLeft_nonneg)
next
  case (2 now tok' uid cred ops m)
  with attemptsLeft_issue [of m tok' tok now uid cred] show ?case
    by (simp add: attempts_ok_ops)
next
  case (3 tok' ops m)
  with attemptsLeft_drop [of m tok tok'] show ?case
    by (simp add: attempts_ok_ops)
next
  case (4 now tok' ops m)
  obtain r m' where r: "attempt now tok' m = (r, m')" by fastforce
  with attempts_ok_ops(2) [OF 4(3), of now tok'] have ok: "attempts_ok m'" by simp
  show ?case
    using attemptsLeft_attempt [OF 4(3), of tok now tok'] 4(1) [OF r [symmetric]] 4(2) [OF r [symmetric]] 4(4) ok
    by (cases r) (auto simp: r split: prod.split)
qed

end
