(* ===== verification/Login.thy ===== *)
theory Login
  imports Admission "HOL-Library.List_Lexorder" "HOL-Library.Char_ord"
begin

text \<open>
  The account handlers of \<^verbatim>\<open>internal/api\<close> (\<^verbatim>\<open>auth.go\<close>, \<^verbatim>\<open>account.go\<close>, \<^verbatim>\<open>api_keys.go\<close> and the
  gate of \<^verbatim>\<open>api.go\<close>): set-up, login with and without a second factor, two-factor management,
  user management and API keys. A handler is a function from its decoded input and the site
  to its answer and the site after it. The row of the signed-in user comes from the request
  context, so it may be older than the table: it is an argument. The clock, random bytes, the
  salted password hash, the keyed digest of a cookie (\<^verbatim>\<open>csrfToken\<close>) and the image check of
  \<^verbatim>\<open>normalizeAvatar\<close> are fields of the request; what goes to the response writer is the answer.
  Removing the spent set-up token file and the detail text of audit entries are not modelled.
\<close>

section \<open>Handlers with an early return\<close>

type_synonym ('s, 'a) handler = "'s \<Rightarrow> 'a res \<times> 's"

definition ret :: "'a \<Rightarrow> ('s, 'a) handler" where
  "ret x s = (Inr x, s)"

definition fail :: "error \<Rightarrow> ('s, 'a) handler" where
  "fail e s = (Inl e, s)"

definition bindS :: "('s, 'a) handler \<Rightarrow> ('a \<Rightarrow> ('s, 'b) handler) \<Rightarrow> ('s, 'b) handler" where
  "bindS m f s = (case m s of (Inl e, s') \<Rightarrow> (Inl e, s') | (Inr x, s') \<Rightarrow> f x s')"

text \<open>\<^verbatim>\<open>if !b { return err }\<close> and an \<^verbatim>\<open>if err != nil { return ... }\<close> that replaces the error.\<close>

definition require :: "bool \<Rightarrow> error \<Rightarrow> ('s, unit) handler" where
  "require b e = (if b then ret () else fail e)"

definition mapErr :: "('s, 'a) handler \<Rightarrow> (error \<Rightarrow> error) \<Rightarrow> ('s, 'a) handler" where
  "mapErr m f s = (case m s of (Inl e, s') \<Rightarrow> (Inl (f e), s') | (Inr x, s') \<Rightarrow> (Inr x, s'))"

definition orElse :: "('s, 'a) handler \<Rightarrow> error \<Rightarrow> ('s, 'a) handler" where
  "orElse m e = mapErr m (\<lambda>_. e)"

section \<open>Request and site\<close>

record request =
  rq_crypto :: crypto
  rq_now :: time
  rq_ip :: string
  rq_userAgent :: string
  rq_sessionTTL :: int
  rq_setupToken :: string
  rq_token :: string
  rq_challenge :: string
  rq_secret :: string
  rq_recovery :: "byte list list"
  rq_salted :: "string \<Rightarrow> string"
  rq_avatar :: "string \<Rightarrow> string res"
  rq_authorization :: "string list"
  rq_cookie :: "string option"
  rq_csrf :: string
  rq_csrfToken :: "string \<Rightarrow> string"

record site =
  si_db :: accounts
  si_challenges :: challengeStore
  si_login :: rateLimiter
  si_factor :: rateLimiter
  si_audit :: "AuditEvent list"

definition onDb :: "(accounts \<Rightarrow> 'a res \<times> accounts) \<Rightarrow> (site, 'a) handler" where
  "onDb f s = (case f (si_db s) of (r, d) \<Rightarrow> (r, s\<lparr>si_db := d\<rparr>))"

definition readDb :: "(accounts \<Rightarrow> 'a res) \<Rightarrow> (site, 'a) handler" where
  "readDb f s = (f (si_db s), s)"

definition updDb :: "(accounts \<Rightarrow> accounts) \<Rightarrow> (site, unit) handler" where
  "updDb f s = (Inr (), s\<lparr>si_db := f (si_db s)\<rparr>)"

definition audit :: "request \<Rightarrow> User \<Rightarrow> string \<Rightarrow> string \<Rightarrow> (site, unit) handler" where
  "audit rq u action target s =
     (Inr (), s\<lparr>si_audit := si_audit s @
        [\<lparr>ae_TS = rq_now rq, ae_UserID = Some (us_ID u), ae_Username = us_Username u,
          ae_Action = action, ae_Target = take 512 target, ae_Detail = ''{}'', ae_IP = rq_ip rq\<rparr>]\<rparr>)"

definition allowLogin :: "request \<Rightarrow> (site, unit) handler" where
  "allowLogin rq s =
     (case Allow (rq_now rq) (rq_ip rq) (si_login s) of
        (ok, l) \<Rightarrow> require ok (Err ''rate_limited'') (s\<lparr>si_login := l\<rparr>))"

definition allowFactor :: "request \<Rightarrow> string \<Rightarrow> int \<Rightarrow> (site, unit) handler" where
  "allowFactor rq key limit s =
     (case AllowN (rq_now rq) key limit (si_factor s) of
        (ok, l) \<Rightarrow> require ok (Err ''rate_limited'') (s\<lparr>si_factor := l\<rparr>))"

definition HashPassword :: "request \<Rightarrow> string \<Rightarrow> string res" where
  "HashPassword rq password =
     (if length password > 512 then Inl (Err ''password too long'')
      else Inr (rq_salted rq password))"

section \<open>Sessions and login\<close>

definition startSession :: "request \<Rightarrow> User \<Rightarrow> (site, string) handler" where
  "startSession rq u =
     bindS (onDb (CreateAuthorizedSession
       \<lparr>sn_ID = HashToken (rq_crypto rq) (rq_token rq), sn_UserID = us_ID u,
        sn_CreatedAt = rq_now rq, sn_ExpiresAt = rq_now rq + rq_sessionTTL rq,
        sn_UserAgent = rq_userAgent rq, sn_IP = rq_ip rq, sn_SecurityVersion = 0\<rparr> u))
     (\<lambda>_. ret (rq_token rq))"

definition validateCredentials :: "string \<Rightarrow> string \<Rightarrow> unit res" where
  "validateCredentials username password =
     (let name = TrimSpace username
      in if length name < 2 \<or> length name > 64 then Inl (Err ''bad_request'')
         else if length password < 8 \<or> length password > 512 then Inl (Err ''bad_request'')
         else Inr ())"

definition noUser :: User where
  "noUser = \<lparr>us_SecurityVersion = 0, us_ID = 0, us_Username = [], us_Nickname = [],
     us_PasswordHash = [], us_Role = [], us_Enabled = False, us_Avatar = [], us_TOTPEnabled = False,
     us_TOTPSecret = [], us_TOTPLastStep = 0, us_RecoveryCodes = [], us_LastLoginAt = None,
     us_CreatedAt = 0, us_UpdatedAt = 0\<rparr>"

text \<open>The re-check both entry points make before the session is created.\<close>

definition stillValid :: "User \<Rightarrow> (site, unit) handler" where
  "stillValid u =
     bindS (orElse (readDb (GetUser (us_ID u))) (Err ''unauthorized''))
       (\<lambda>current. require (us_Enabled current \<and> us_PasswordHash current = us_PasswordHash u
                     \<and> us_TOTPEnabled current = us_TOTPEnabled u) (Err ''unauthorized''))"

definition setup_handler :: "request \<Rightarrow> string \<Rightarrow> string \<Rightarrow> string \<Rightarrow> (site, string) handler" where
  "setup_handler rq username password setupToken =
     bindS (readDb (\<lambda>d. if CountUsers d > 0 then Inl (Err ''conflict'') else Inr ())) (\<lambda>_.
     bindS (allowLogin rq) (\<lambda>_.
     bindS (require (rq_setupToken rq \<noteq> [] \<and>
         HashToken (rq_crypto rq) (TrimSpace setupToken) =
         HashToken (rq_crypto rq) (rq_setupToken rq)) (Err ''invalid_setup_token'')) (\<lambda>_.
     bindS (readDb (\<lambda>_. validateCredentials username password)) (\<lambda>_.
     bindS (readDb (\<lambda>_. HashPassword rq password)) (\<lambda>hash.
     bindS (orElse (onDb (CreateInitialAdmin (rq_now rq)
         (noUser\<lparr>us_Username := TrimSpace username, us_PasswordHash := hash\<rparr>))) (Err ''conflict'')) (\<lambda>u.
     bindS (stillValid u) (\<lambda>_.
     bindS (startSession rq u) (\<lambda>token.
     bindS (audit rq u ''setup'' ''system'') (\<lambda>_. ret token)))))))))"

definition finishLogin :: "request \<Rightarrow> User \<Rightarrow> string \<Rightarrow> (site, string) handler" where
  "finishLogin rq u action =
     bindS (stillValid u) (\<lambda>_.
     bindS (startSession rq u) (\<lambda>token.
     bindS (updDb (TouchLogin (rq_now rq) (us_ID u))) (\<lambda>_.
     bindS (audit rq u action ''session'') (\<lambda>_. ret token))))"

datatype login_answer = SignedIn string | Requires2FA string

definition credentialDigest :: "crypto \<Rightarrow> User \<Rightarrow> string" where
  "credentialDigest cr u = HashToken cr (us_PasswordHash u @ ''|'' @ us_TOTPSecret u)"

definition issueChallenge :: "request \<Rightarrow> User \<Rightarrow> (site, string) handler" where
  "issueChallenge rq u s =
     (case issue (rq_now rq) (rq_challenge rq) (us_ID u) (credentialDigest (rq_crypto rq) u) (si_challenges s) of
        (tok, m) \<Rightarrow> (Inr tok, s\<lparr>si_challenges := m\<rparr>))"

definition login :: "request \<Rightarrow> string \<Rightarrow> string \<Rightarrow> (site, login_answer) handler" where
  "login rq username password =
     bindS (allowLogin rq) (\<lambda>_.
     bindS (orElse (readDb (GetUserByName (TrimSpace username))) (Err ''invalid_credentials'')) (\<lambda>u.
     bindS (require (VerifyPassword (rq_crypto rq) (us_PasswordHash u) password)
       (Err ''invalid_credentials'')) (\<lambda>_.
     bindS (require (us_Enabled u) (Err ''disabled'')) (\<lambda>_.
     if us_TOTPEnabled u
     then bindS (issueChallenge rq u) (\<lambda>tok. ret (Requires2FA tok))
     else bindS (finishLogin rq u ''login'') (\<lambda>token. ret (SignedIn token))))))"

text \<open>
  \<open>consumeSecondFactor\<close> takes a one-time code or a recovery code; it answers the user with its
  replay guard or its list of unused codes updated, and which kind it was.
\<close>

datatype factor = Totp | Recovery

definition consumeSecondFactor :: "request \<Rightarrow> User \<Rightarrow> string \<Rightarrow> (User \<times> factor) option" where
  "consumeSecondFactor rq u code0 =
     (let code = TrimSpace code0
      in case VerifyTOTP (rq_crypto rq) (us_TOTPSecret u) code (rq_now rq) (us_TOTPLastStep u) of
           (step, True) \<Rightarrow> Some (u\<lparr>us_TOTPLastStep := step\<rparr>, Totp)
         | (_, False) \<Rightarrow>
             (case UseRecoveryCode (rq_crypto rq) (us_RecoveryCodes u) code of
                (rest, True) \<Rightarrow> Some (u\<lparr>us_RecoveryCodes := rest\<rparr>, Recovery)
              | (_, False) \<Rightarrow> None))"

definition attemptChallenge :: "request \<Rightarrow> string \<Rightarrow> (site, challenge) handler" where
  "attemptChallenge rq tok s =
     (case attempt (rq_now rq) tok (si_challenges s) of
        (None, m) \<Rightarrow> (Inl (Err ''challenge_expired''), s\<lparr>si_challenges := m\<rparr>)
      | (Some c, m) \<Rightarrow> (Inr c, s\<lparr>si_challenges := m\<rparr>))"

definition dropChallenge :: "string \<Rightarrow> (site, unit) handler" where
  "dropChallenge tok s =
     (case drop_challenge tok (si_challenges s) of
        (ok, m) \<Rightarrow> require ok (Err ''unauthorized'') (s\<lparr>si_challenges := m\<rparr>))"

text \<open>
  \<open>login2FA\<close> in two halves: up to the row it reads, and from there on; other requests may run
  in between.
\<close>

definition login2FA_read :: "request \<Rightarrow> string \<Rightarrow> (site, User) handler" where
  "login2FA_read rq tok =
     bindS (allowFactor rq (rq_ip rq) 0) (\<lambda>_.
     bindS (attemptChallenge rq tok) (\<lambda>c.
     bindS (orElse (readDb (GetUser (ch_userID c))) (Err ''challenge_expired'')) (\<lambda>u.
     bindS (require (us_Enabled u \<and> us_TOTPEnabled u
       \<and> ch_credentials c = credentialDigest (rq_crypto rq) u) (Err ''challenge_expired'')) (\<lambda>_.
     ret u))))"

definition login2FA_finish :: "request \<Rightarrow> string \<Rightarrow> string \<Rightarrow> User \<Rightarrow> (site, string) handler" where
  "login2FA_finish rq tok code before =
     (case consumeSecondFactor rq before code of
        None \<Rightarrow> fail (Err ''invalid_code'')
      | Some (u, used) \<Rightarrow>
          bindS (dropChallenge tok) (\<lambda>_.
          bindS (orElse (onDb (UpdateUserSecurity (rq_now rq) before u)) (Err ''invalid_code'')) (\<lambda>_.
          finishLogin rq u (if used = Recovery then ''login.recovery_code'' else ''login''))))"

definition login2FA :: "(site \<Rightarrow> site) \<Rightarrow> request \<Rightarrow> string \<Rightarrow> string \<Rightarrow> (site, string) handler" where
  "login2FA others rq tok code =
     bindS (login2FA_read rq tok) (\<lambda>u s. login2FA_finish rq tok code u (others s))"

definition logout :: "request \<Rightarrow> (site, unit) handler" where
  "logout rq s =
     (case rq_cookie rq of
        None \<Rightarrow> (Inr (), s)
      | Some c \<Rightarrow>
          if rq_csrf rq \<noteq> rq_csrfToken rq c then (Inl (Err ''forbidden''), s)
          else if c = [] then (Inr (), s)
          else updDb (DeleteSession (HashToken (rq_crypto rq) c)) s)"

section \<open>Two-factor management\<close>

definition twoFASetup :: "request \<Rightarrow> User \<Rightarrow> string \<Rightarrow> (site, string) handler" where
  "twoFASetup rq u password =
     bindS (require (VerifyPassword (rq_crypto rq) (us_PasswordHash u) password) (Err ''bad_request'')) (\<lambda>_.
     bindS (require (\<not> us_TOTPEnabled u) (Err ''conflict'')) (\<lambda>_.
     bindS (onDb (UpdateUserSecurity (rq_now rq) u
       (u\<lparr>us_TOTPSecret := rq_secret rq, us_TOTPLastStep := 0\<rparr>))) (\<lambda>_.
     ret (rq_secret rq))))"

definition twoFAEnable :: "request \<Rightarrow> User \<Rightarrow> string \<Rightarrow> (site, string list \<times> string) handler" where
  "twoFAEnable rq u code =
     bindS (require (\<not> us_TOTPEnabled u) (Err ''conflict'')) (\<lambda>_.
     bindS (require (us_TOTPSecret u \<noteq> []) (Err ''bad_request'')) (\<lambda>_.
     case VerifyTOTP (rq_crypto rq) (us_TOTPSecret u) code (rq_now rq) 0 of
       (_, False) \<Rightarrow> fail (Err ''bad_request'')
     | (step, True) \<Rightarrow>
         (case NewRecoveryCodes (rq_crypto rq) (rq_recovery rq) of
            (plain, hashes) \<Rightarrow>
              bindS (onDb (UpdateUserSecurity (rq_now rq) u
                (u\<lparr>us_TOTPEnabled := True, us_TOTPLastStep := step, us_RecoveryCodes := hashes\<rparr>))) (\<lambda>_.
              bindS (readDb (GetUser (us_ID u))) (\<lambda>fresh.
              bindS (startSession rq fresh) (\<lambda>token.
              bindS (audit rq u ''2fa.enable'' ''self'') (\<lambda>_. ret (plain, token))))))))"

definition clearTOTP :: "User \<Rightarrow> User" where
  "clearTOTP u =
     u\<lparr>us_TOTPEnabled := False, us_TOTPSecret := [], us_TOTPLastStep := 0, us_RecoveryCodes := []\<rparr>"

definition twoFADisable :: "request \<Rightarrow> User \<Rightarrow> string \<Rightarrow> string \<Rightarrow> (site, string) handler" where
  "twoFADisable rq u password code =
     bindS (require (VerifyPassword (rq_crypto rq) (us_PasswordHash u) password) (Err ''bad_request'')) (\<lambda>_.
     bindS (require (us_TOTPEnabled u \<longrightarrow> consumeSecondFactor rq u code \<noteq> None) (Err ''bad_request'')) (\<lambda>_.
     bindS (onDb (UpdateUserSecurity (rq_now rq) u (clearTOTP u))) (\<lambda>_.
     bindS (readDb (GetUser (us_ID u))) (\<lambda>fresh.
     bindS (startSession rq fresh) (\<lambda>token.
     bindS (audit rq u ''2fa.disable'' ''self'') (\<lambda>_. ret token))))))"

definition twoFARecovery :: "request \<Rightarrow> User \<Rightarrow> string \<Rightarrow> string \<Rightarrow> (site, string list) handler" where
  "twoFARecovery rq u password code =
     bindS (require (us_TOTPEnabled u) (Err ''bad_request'')) (\<lambda>_.
     bindS (require (VerifyPassword (rq_crypto rq) (us_PasswordHash u) password) (Err ''bad_request'')) (\<lambda>_.
     case consumeSecondFactor rq u code of
       None \<Rightarrow> fail (Err ''bad_request'')
     | Some (u', used) \<Rightarrow>
         (case NewRecoveryCodes (rq_crypto rq) (rq_recovery rq) of
            (plain, hashes) \<Rightarrow>
              bindS (onDb (UpdateUserSecurity (rq_now rq) u (u'\<lparr>us_RecoveryCodes := hashes\<rparr>))) (\<lambda>_.
              bindS (audit rq u ''2fa.recovery_codes'' ''self'') (\<lambda>_. ret plain)))))"

definition twoFAReset_write :: "request \<Rightarrow> User \<Rightarrow> User \<Rightarrow> (site, User) handler" where
  "twoFAReset_write rq me u0 =
     (let u = clearTOTP u0
      in bindS (onDb (UpdateUser (rq_now rq) u)) (\<lambda>_.
         bindS (updDb (DeleteUserSessions (us_ID u))) (\<lambda>_.
         bindS (audit rq me ''2fa.reset'' (us_Username u)) (\<lambda>_. ret (u\<lparr>us_UpdatedAt := rq_now rq\<rparr>)))))"

definition twoFAReset :: "(site \<Rightarrow> site) \<Rightarrow> request \<Rightarrow> User \<Rightarrow> i64 \<Rightarrow> (site, User) handler" where
  "twoFAReset others rq me uid =
     bindS (readDb (GetUser uid)) (\<lambda>u s. twoFAReset_write rq me u (others s))"

section \<open>Profile and user management\<close>

text \<open>
  \<^verbatim>\<open>utf8.RuneCountInString\<close> for the valid UTF-8 a JSON decoder delivers: the bytes that do not
  continue a character.
\<close>

definition RuneCount :: "string \<Rightarrow> nat" where
  "RuneCount s = length (filter (\<lambda>c. let n = of_char c :: nat in n < 128 \<or> 192 \<le> n) s)"

definition validateNickname :: "string \<Rightarrow> string res" where
  "validateNickname s0 =
     (let s = TrimSpace s0
      in if s = [] then Inr []
         else if ContainsAny s [CHR 10, CHR 13, CHR 9] then Inl (Err ''bad_request'')
         else if RuneCount s > 32 then Inl (Err ''bad_request'')
         else Inr s)"

definition optR :: "('b \<Rightarrow> 'a \<Rightarrow> 'a res) \<Rightarrow> 'b option \<Rightarrow> 'a \<Rightarrow> 'a res" where
  "optR f x a = (case x of None \<Rightarrow> Inr a | Some b \<Rightarrow> f b a)"

definition setNickname :: "string \<Rightarrow> User \<Rightarrow> User res" where
  "setNickname n u = bindR (validateNickname n) (\<lambda>n. Inr (u\<lparr>us_Nickname := n\<rparr>))"

definition setAvatar :: "request \<Rightarrow> string \<Rightarrow> User \<Rightarrow> User res" where
  "setAvatar rq a u = bindR (rq_avatar rq a) (\<lambda>a. Inr (u\<lparr>us_Avatar := a\<rparr>))"

definition setMyProfile :: "request \<Rightarrow> User \<Rightarrow> string option \<Rightarrow> (site, User) handler" where
  "setMyProfile rq u nickname =
     bindS (readDb (\<lambda>_. optR setNickname nickname u)) (\<lambda>u.
     bindS (onDb (UpdateUser (rq_now rq) u)) (\<lambda>_. ret (u\<lparr>us_UpdatedAt := rq_now rq\<rparr>)))"

definition setMyAvatar :: "request \<Rightarrow> User \<Rightarrow> string \<Rightarrow> (site, User) handler" where
  "setMyAvatar rq u avatar =
     bindS (readDb (\<lambda>_. setAvatar rq avatar u)) (\<lambda>u.
     bindS (onDb (UpdateUser (rq_now rq) u)) (\<lambda>_. ret (u\<lparr>us_UpdatedAt := rq_now rq\<rparr>)))"

text \<open>A new password ends the user's other sessions; this one is created again.\<close>

definition keepSession :: "request \<Rightarrow> bool \<Rightarrow> User \<Rightarrow> (site, unit) handler" where
  "keepSession rq byKey u s =
     (case rq_cookie rq of
        Some c \<Rightarrow>
          if byKey then (Inr (), s)
          else updDb (\<lambda>d. snd (CreateSession
            \<lparr>sn_ID = HashToken (rq_crypto rq) c, sn_UserID = us_ID u, sn_CreatedAt = rq_now rq,
             sn_ExpiresAt = rq_now rq + rq_sessionTTL rq, sn_UserAgent = [], sn_IP = [],
             sn_SecurityVersion = 0\<rparr> (DeleteUserSessions (us_ID u) d))) s
      | None \<Rightarrow> (Inr (), s))"

definition changePassword :: "request \<Rightarrow> bool \<Rightarrow> User \<Rightarrow> string \<Rightarrow> string \<Rightarrow> (site, unit) handler" where
  "changePassword rq byKey u oldPassword newPassword =
     bindS (require (VerifyPassword (rq_crypto rq) (us_PasswordHash u) oldPassword) (Err ''bad_request'')) (\<lambda>_.
     bindS (require (\<not> (length newPassword < 8 \<or> length newPassword > 512)) (Err ''bad_request'')) (\<lambda>_.
     bindS (readDb (\<lambda>_. HashPassword rq newPassword)) (\<lambda>hash.
     bindS (onDb (UpdateUser (rq_now rq) (u\<lparr>us_PasswordHash := hash\<rparr>))) (\<lambda>_.
     bindS (keepSession rq byKey u) (\<lambda>_.
     audit rq u ''password.change'' ''self'')))))"

record userInput =
  ui_Username :: string
  ui_Nickname :: "string option"
  ui_Password :: string
  ui_Role :: string
  ui_Enabled :: "bool option"
  ui_Avatar :: "string option"

definition createUser :: "request \<Rightarrow> User \<Rightarrow> userInput \<Rightarrow> (site, User) handler" where
  "createUser rq me inp =
     bindS (readDb (\<lambda>_. validateCredentials (ui_Username inp) (ui_Password inp))) (\<lambda>_.
     bindS (readDb (\<lambda>_. HashPassword rq (ui_Password inp))) (\<lambda>hash.
     bindS (readDb (\<lambda>_. optR setNickname (ui_Nickname inp)
       (noUser\<lparr>us_Username := TrimSpace (ui_Username inp), us_PasswordHash := hash,
               us_Role := (if ui_Role inp = RoleAdmin then RoleAdmin else RoleUser),
               us_Enabled := True\<rparr>))) (\<lambda>u.
     bindS (orElse (onDb (CreateUser (rq_now rq)
       (case ui_Enabled inp of None \<Rightarrow> u | Some e \<Rightarrow> u\<lparr>us_Enabled := e\<rparr>))) (Err ''conflict'')) (\<lambda>row.
     bindS (audit rq me ''user.create'' (us_Username row)) (\<lambda>_. ret row)))))"

text \<open>The fields \<^verbatim>\<open>updateUser\<close> sets, in its order, each with its check.\<close>

definition setRole :: "User \<Rightarrow> string \<Rightarrow> User \<Rightarrow> User res" where
  "setRole me role u =
     (if role = [] then Inr u
      else if role \<noteq> RoleAdmin \<and> role \<noteq> RoleUser then Inl (Err ''bad_request'')
      else if us_ID u = us_ID me \<and> role \<noteq> RoleAdmin then Inl (Err ''bad_request'')
      else Inr (u\<lparr>us_Role := role\<rparr>))"

definition setEnabled :: "User \<Rightarrow> bool \<Rightarrow> User \<Rightarrow> User res" where
  "setEnabled me e u =
     (if us_ID u = us_ID me \<and> \<not> e then Inl (Err ''bad_request'') else Inr (u\<lparr>us_Enabled := e\<rparr>))"

definition applyInput :: "request \<Rightarrow> User \<Rightarrow> userInput \<Rightarrow> User \<Rightarrow> User res" where
  "applyInput rq me inp u =
     bindR (optR setNickname (ui_Nickname inp)
       (if ui_Username inp = [] then u else u\<lparr>us_Username := TrimSpace (ui_Username inp)\<rparr>)) (\<lambda>u.
     bindR (setRole me (ui_Role inp) u) (\<lambda>u.
     bindR (optR (setEnabled me) (ui_Enabled inp) u) (\<lambda>u.
     bindR (optR (setAvatar rq) (ui_Avatar inp) u) (\<lambda>u.
     if ui_Password inp = [] then Inr u
     else if length (ui_Password inp) < 8 \<or> length (ui_Password inp) > 512 then Inl (Err ''bad_request'')
     else bindR (HashPassword rq (ui_Password inp)) (\<lambda>hash. Inr (u\<lparr>us_PasswordHash := hash\<rparr>))))))"

definition updateUser_write :: "request \<Rightarrow> User \<Rightarrow> userInput \<Rightarrow> User \<Rightarrow> (site, User) handler" where
  "updateUser_write rq me inp u0 =
     bindS (readDb (\<lambda>_. applyInput rq me inp u0)) (\<lambda>u.
     bindS (if ui_Password inp \<noteq> [] then updDb (DeleteUserSessions (us_ID u)) else ret ()) (\<lambda>_.
     bindS (onDb (UpdateUser (rq_now rq) u)) (\<lambda>_.
     bindS (if ui_Role inp \<noteq> [] \<or> ui_Enabled inp \<noteq> None
            then updDb (DeleteUserSessions (us_ID u)) else ret ()) (\<lambda>_.
     bindS (audit rq me ''user.update'' (us_Username u)) (\<lambda>_. ret (u\<lparr>us_UpdatedAt := rq_now rq\<rparr>))))))"

definition updateUser :: "(site \<Rightarrow> site) \<Rightarrow> request \<Rightarrow> User \<Rightarrow> i64 \<Rightarrow> userInput \<Rightarrow> (site, User) handler" where
  "updateUser others rq me uid inp =
     bindS (orElse (readDb (GetUser uid)) ErrNotFound) (\<lambda>u s. updateUser_write rq me inp u (others s))"

definition deleteUser :: "request \<Rightarrow> User \<Rightarrow> i64 \<Rightarrow> (site, unit) handler" where
  "deleteUser rq me uid =
     bindS (require (uid \<noteq> us_ID me) (Err ''bad_request'')) (\<lambda>_.
     bindS (orElse (readDb (GetUser uid)) ErrNotFound) (\<lambda>u.
     bindS (updDb (DeleteUser uid)) (\<lambda>_.
     audit rq me ''user.delete'' (us_Username u))))"


section \<open>Developer keys\<close>

definition apiKeyPrefix :: string where "apiKeyPrefix = ''vpsct_''"

text \<open>\<^verbatim>\<open>strings.Fields\<close>: the runs between white space.\<close>

function fieldsLoop :: "string \<Rightarrow> string \<Rightarrow> string list" where
  "fieldsLoop acc [] = (if acc = [] then [] else [rev acc])"
| "fieldsLoop acc (c # s) =
     (case find (\<lambda>p. p \<noteq> [] \<and> HasPrefix (c # s) p) spaces of
        None \<Rightarrow> fieldsLoop (c # acc) s
      | Some p \<Rightarrow> (if acc = [] then [] else [rev acc]) @ fieldsLoop [] (drop (length p) (c # s)))"
  by pat_completeness auto
termination
proof (relation "measure (\<lambda>(acc, s). length s)", simp, simp)
  fix acc s p and c :: char
  assume "find (\<lambda>p. p \<noteq> [] \<and> HasPrefix (c # s) p) spaces = Some p"
  then have "p \<noteq> []" by (auto simp: find_Some_iff)
  then show "(([], drop (length p) (c # s)), acc, c # s) \<in> measure (\<lambda>(acc, s). length s)"
    by (cases p) auto
qed

definition Fields :: "string \<Rightarrow> string list" where
  "Fields s = fieldsLoop [] s"

definition apiKeyIdentity :: "request \<Rightarrow> accounts \<Rightarrow> (APIKey \<times> User) res" where
  "apiKeyIdentity rq d =
     (let invalid = Inl (Err ''invalid_api_key'')
      in case rq_authorization rq of
           [h] \<Rightarrow>
             (case Fields h of
                [scheme, token] \<Rightarrow>
                  (if map toLowerChar scheme \<noteq> ''bearer'' \<or> \<not> HasPrefix token apiKeyPrefix then invalid
                   else
                     let raw = TrimPrefix token apiKeyPrefix
                     in if length raw \<noteq> 43 then invalid
                        else case cr_b64url (rq_crypto rq) raw of
                          None \<Rightarrow> invalid
                        | Some bytes \<Rightarrow>
                            (if length bytes \<noteq> 32 then invalid
                             else case GetAPIKeyByHash (rq_now rq) (HashToken (rq_crypto rq) token) d of
                               Inl _ \<Rightarrow> invalid
                             | Inr k \<Rightarrow>
                                 (case GetUser (ak_UserID k) d of
                                    Inl _ \<Rightarrow> invalid
                                  | Inr u \<Rightarrow>
                                      (if \<not> us_Enabled u \<or> us_SecurityVersion u \<noteq> ak_SecurityVersion k
                                       then invalid else Inr (k, u)))))
              | _ \<Rightarrow> invalid)
         | _ \<Rightarrow> invalid)"

definition hasAPIKeyScope :: "APIKey \<Rightarrow> string \<Rightarrow> bool" where
  "hasAPIKeyScope k scope \<longleftrightarrow> scope \<in> set (ak_Scopes k)"

definition operationScope :: "string \<Rightarrow> string" where
  "operationScope pattern =
     (if HasPrefix pattern ''GET '' \<or> HasPrefix pattern ''HEAD '' then ''read'' else ''write'')"

definition HasSuffix :: "string \<Rightarrow> string \<Rightarrow> bool" where
  "HasSuffix s t = HasPrefix (rev s) (rev t)"

definition sessionOnlyOperation :: "string \<Rightarrow> bool" where
  "sessionOnlyOperation pattern =
     (case Cut pattern CHR '' '' of
        (_, path, _) \<Rightarrow>
          path = ''/api/v1/auth/csrf'' \<or> HasPrefix path ''/api/v1/auth/2fa/''
          \<or> path = ''/api/v1/api-keys'' \<or> HasPrefix path ''/api/v1/api-keys/''
          \<or> HasSuffix path ''/2fa/reset'')"

text \<open>\<^verbatim>\<open>strings.ContainsFunc(s, unicode.IsControl)\<close>: U+0000 to U+001F, U+007F, U+0080 to U+009F.\<close>

fun hasControl :: "string \<Rightarrow> bool" where
  "hasControl [] = False"
| "hasControl [c] = (let n = of_char c :: nat in n < 32 \<or> n = 127)"
| "hasControl (c # c' # s) =
     (let n = of_char c :: nat; n' = of_char c' :: nat
      in n < 32 \<or> n = 127 \<or> n = 194 \<and> 128 \<le> n' \<and> n' < 160 \<or> hasControl (c' # s))"

record keyInput =
  ki_Name :: string
  ki_Scopes :: "string list"
  ki_ExpiresAt :: "time option"
  ki_Password :: string
  ki_Code :: string

definition validScopes :: "string list \<Rightarrow> bool" where
  "validScopes scopes \<longleftrightarrow>
     list_all (\<lambda>scope. scope = ''read'' \<or> scope = ''write'') scopes \<and> distinct_adj scopes"

definition validateKeyInput :: "request \<Rightarrow> keyInput \<Rightarrow> unit res" where
  "validateKeyInput rq inp =
     (let name = TrimSpace (ki_Name inp)
      in if name = [] \<or> RuneCount name > 80 \<or> hasControl name then Inl (Err ''bad_request'')
         else if length (ki_Scopes inp) = 0 \<or> length (ki_Scopes inp) > 2 then Inl (Err ''bad_request'')
         else if \<not> validScopes (sort (ki_Scopes inp)) then Inl (Err ''bad_request'')
         else if (case ki_ExpiresAt inp of None \<Rightarrow> False | Some t \<Rightarrow> \<not> t > rq_now rq)
         then Inl (Err ''bad_request'')
         else if length (ki_Password inp) > 512 \<or> length (ki_Code inp) > 128 then Inl (Err ''bad_request'')
         else Inr ())"

text \<open>The second factor of a signed-in user, consumed in the table.\<close>

definition spendFactor :: "request \<Rightarrow> User \<Rightarrow> string \<Rightarrow> (site, User) handler" where
  "spendFactor rq u code =
     (if \<not> us_TOTPEnabled u then ret u
      else case consumeSecondFactor rq u code of
        None \<Rightarrow> fail (Err ''invalid_code'')
      | Some (u', used) \<Rightarrow>
          bindS (orElse (onDb (UpdateUserSecurity (rq_now rq) u u')) (Err ''conflict'')) (\<lambda>_. ret u'))"

definition createAPIKey :: "request \<Rightarrow> User \<Rightarrow> keyInput \<Rightarrow> (site, APIKey \<times> string) handler" where
  "createAPIKey rq u0 inp =
     bindS (readDb (\<lambda>_. validateKeyInput rq inp)) (\<lambda>_.
     bindS (allowFactor rq (''api-key-create:'' @ show_int (us_ID u0)) 5) (\<lambda>_.
     bindS (require (VerifyPassword (rq_crypto rq) (us_PasswordHash u0) (ki_Password inp))
       (Err ''invalid_password'')) (\<lambda>_.
     bindS (spendFactor rq u0 (ki_Code inp)) (\<lambda>u.
     let plain = apiKeyPrefix @ rq_token rq;
         k = \<lparr>ak_SecurityVersion = us_SecurityVersion u, ak_ID = 0, ak_UserID = us_ID u,
              ak_Name = TrimSpace (ki_Name inp),
              ak_TokenHash = HashToken (rq_crypto rq) plain, ak_TokenHint = take 12 plain,
              ak_Scopes = sort (ki_Scopes inp), ak_CreatedAt = 0, ak_ExpiresAt = ki_ExpiresAt inp,
              ak_LastUsedAt = None, ak_RevokedAt = None\<rparr>
     in bindS (audit rq u ''api_key.create.request'' ''self'') (\<lambda>_.
        bindS (mapErr (onDb (CreateAPIKey (rq_now rq) k))
            (\<lambda>e. if e = ErrAPIKeyLimit \<or> e = ErrConflict \<or> e = ErrNotFound then Err ''conflict'' else e)) (\<lambda>row.
        bindS (audit rq u ''api_key.create'' (''api_key:'' @ show_int (ak_ID row))) (\<lambda>_.
        ret (row, plain))))))))"

definition revokeAPIKey :: "request \<Rightarrow> User \<Rightarrow> i64 \<Rightarrow> (site, unit) handler" where
  "revokeAPIKey rq u kid =
     bindS (onDb (RevokeAPIKey (rq_now rq) (us_ID u) kid)) (\<lambda>_.
     audit rq u ''api_key.revoke'' (''api_key:'' @ show_int kid))"

section \<open>The gate every authenticated route passes\<close>

datatype accessPolicy = memberAccess | adminAccess

text \<open>
  \<^verbatim>\<open>currentUser\<close>: an Authorization header decides alone, otherwise the session cookie. The key,
  when there is one, was put into the context by the outer middleware from the same header.
\<close>

definition currentUser :: "request \<Rightarrow> (site, User) handler" where
  "currentUser rq s =
     (if rq_authorization rq \<noteq> []
      then (case apiKeyIdentity rq (si_db s) of Inl e \<Rightarrow> (Inl e, s) | Inr (k, u) \<Rightarrow> (Inr u, s))
      else case rq_cookie rq of
        None \<Rightarrow> (Inl (Err ''unauthorized''), s)
      | Some c \<Rightarrow>
          if c = [] then (Inl (Err ''unauthorized''), s)
          else
            bindS (orElse (onDb (GetSession (rq_now rq) (HashToken (rq_crypto rq) c))) (Err ''unauthorized'')) (\<lambda>sess.
            bindS (orElse (readDb (GetUser (sn_UserID sess))) (Err ''unauthorized'')) (\<lambda>u.
            bindS (require (us_Enabled u) (Err ''unauthorized'')) (\<lambda>_. ret u))) s)"

definition isWrite :: "string \<Rightarrow> bool" where
  "isWrite method \<longleftrightarrow> method \<noteq> ''GET'' \<and> method \<noteq> ''HEAD'' \<and> method \<noteq> ''OPTIONS''"

definition checkCSRF :: "request \<Rightarrow> bool" where
  "checkCSRF rq = (case rq_cookie rq of None \<Rightarrow> False | Some c \<Rightarrow> rq_csrf rq = rq_csrfToken rq c)"

definition gate :: "request \<Rightarrow> accessPolicy \<Rightarrow> string \<Rightarrow> string \<Rightarrow> APIKey option \<Rightarrow> (site, User) handler" where
  "gate rq policy pattern method key =
     bindS (currentUser rq) (\<lambda>u.
     bindS (require (policy = adminAccess \<longrightarrow> us_Role u = RoleAdmin) (Err ''forbidden'')) (\<lambda>_.
     bindS (case key of
              None \<Rightarrow> require (isWrite method \<longrightarrow> checkCSRF rq) (Err ''invalid_csrf'')
            | Some k \<Rightarrow>
                bindS (require (\<not> sessionOnlyOperation pattern) (Err ''session_required'')) (\<lambda>_.
                bindS (require (hasAPIKeyScope k (operationScope pattern)) (Err ''insufficient_scope'')) (\<lambda>_.
                bindS (orElse (onDb (TouchAPIKey (rq_now rq) (ak_ID k))) (Err ''invalid_api_key'')) (\<lambda>_.
                audit rq u ''api_key.request'' pattern)))) (\<lambda>_.
     ret u)))"

end
