(* ===== verification/SecondFactor.thy ===== *)
theory SecondFactor
  imports Login
begin

text \<open>
  The account handlers run concurrently on rows read at different times. This theory follows
  any interleaving of them and shows that a one-time code is accepted at most once: the
  handlers write through \<^verbatim>\<open>UpdateUserSecurity\<close> and \<^verbatim>\<open>UpdateUser\<close>, whose conditions reject a
  row read before the last write.
\<close>

section \<open>Handlers that leave the second factor alone\<close>

text \<open>What the replay guard depends on in a user row.\<close>

definition sameFactor :: "User \<Rightarrow> User \<Rightarrow> bool" where
  "sameFactor u v \<longleftrightarrow>
     us_TOTPEnabled u = us_TOTPEnabled v \<and> us_TOTPSecret u = us_TOTPSecret v
     \<and> us_TOTPLastStep u = us_TOTPLastStep v"

definition sameRow :: "User \<Rightarrow> User \<Rightarrow> bool" where
  "sameRow u v \<longleftrightarrow> us_ID u = us_ID v \<and> us_UpdatedAt u = us_UpdatedAt v \<and> sameFactor u v"

text \<open>
  A harmless change keeps the guarded part of every row, removes rows, or adds rows under new
  identifiers without a second factor.
\<close>

definition calm :: "accounts \<Rightarrow> accounts \<Rightarrow> bool" where
  "calm d d' \<longleftrightarrow>
     users_seq d \<le> users_seq d' \<and> (accounts_ok d \<longrightarrow> accounts_ok d') \<and>
     (\<forall>uid v. lookup (users d') uid = Some v \<longrightarrow>
        (\<exists>u. lookup (users d) uid = Some u \<and> sameRow u v) \<or>
        users_seq d < uid \<and> uid \<le> users_seq d' \<and> \<not> us_TOTPEnabled v \<and> us_TOTPSecret v = [])"

lemma sameFactor_refl [simp]: "sameFactor u u" "sameFactor u (u\<lparr>us_RecoveryCodes := c\<rparr>)"
  by (simp_all add: sameFactor_def)

lemma sameRow_refl [simp]: "sameRow u u"
  by (simp add: sameRow_def sameFactor_def)

lemma sameRow_trans: "sameRow u v \<Longrightarrow> sameRow v w \<Longrightarrow> sameRow u w"
  by (simp add: sameRow_def sameFactor_def)

lemma calm_refl [simp]: "calm d d"
  by (simp add: calm_def)

lemma calm_trans:
  assumes "calm d1 d2" "calm d2 d3"
  shows "calm d1 d3"
  unfolding calm_def
proof (intro conjI allI impI)
  fix uid w
  assume w: "lookup (users d3) uid = Some w"
  from assms(2) w consider
    (old) v where "lookup (users d2) uid = Some v" "sameRow v w"
  | (new) "users_seq d2 < uid" "uid \<le> users_seq d3" "\<not> us_TOTPEnabled w" "us_TOTPSecret w = []"
    unfolding calm_def by blast
  then show "(\<exists>u. lookup (users d1) uid = Some u \<and> sameRow u w) \<or>
    users_seq d1 < uid \<and> uid \<le> users_seq d3 \<and> \<not> us_TOTPEnabled w \<and> us_TOTPSecret w = []"
  proof cases
    case old
    have "(\<exists>u. lookup (users d1) uid = Some u \<and> sameRow u v) \<or>
      users_seq d1 < uid \<and> uid \<le> users_seq d2 \<and> \<not> us_TOTPEnabled v \<and> us_TOTPSecret v = []"
      using assms(1) old(1) by (simp add: calm_def)
    with old(2) assms(2) show ?thesis
      by (auto simp: calm_def sameFactor_def [symmetric] intro: sameRow_trans)
        (auto simp: sameRow_def sameFactor_def)
  next
    case new
    with assms(1) show ?thesis by (auto simp: calm_def)
  qed
qed (use assms in \<open>auto simp: calm_def\<close>)

lemma calm_users:
  "users d' = users d \<Longrightarrow> users_seq d' = users_seq d \<Longrightarrow> (accounts_ok d \<Longrightarrow> accounts_ok d') \<Longrightarrow> calm d d'"
  by (auto simp: calm_def)

lemma calm_insertUser:
  assumes "\<not> us_TOTPEnabled u" "us_TOTPSecret u = []"
  shows "calm d (snd (insertUser u d))"
  using assms accounts_ok_insertUser [of d u]
  by (auto simp: calm_def insertUser_def Let_def map_add_Some_iff split: if_splits)

lemma seq_kept [simp]:
  "users_seq (snd (createSession s v d)) = users_seq d"
  "users_seq (DeleteSession sid d) = users_seq d"
  "users_seq (snd (GetSession now sid d)) = users_seq d"
  "users_seq (DeleteUserSessions uid d) = users_seq d"
  "users_seq (snd (CreateAPIKey now key d)) = users_seq d"
  "users_seq (snd (RevokeAPIKey now uid kid d)) = users_seq d"
  "users_seq (snd (TouchAPIKey now kid d)) = users_seq d"
  by (simp_all add: createSession_def DeleteSession_def GetSession_def DeleteUserSessions_def
      CreateAPIKey_def RevokeAPIKey_def TouchAPIKey_def Let_def split: option.split)

lemma calm_ops:
  "calm d (snd (CreateInitialAdmin now u d))" "calm d (snd (CreateUser now u d))"
  "calm d (snd (createSession s v d))" "calm d (DeleteSession sid d)"
  "calm d (snd (GetSession now sid d))" "calm d (DeleteUserSessions uid d)"
  "calm d (snd (CreateAPIKey now key d))" "calm d (snd (RevokeAPIKey now uid kid d))"
  "calm d (snd (TouchAPIKey now kid d))"
  using perform_keeps_accounts [of d "NewSession s v"] perform_keeps_accounts [of d "EndSession sid"]
    perform_keeps_accounts [of d "ReadSession now sid"] perform_keeps_accounts [of d "EndUserSessions uid"]
    perform_keeps_accounts [of d "NewKey now key"] perform_keeps_accounts [of d "RevokeKey now uid kid"]
    perform_keeps_accounts [of d "TouchKey now kid"]
  by (auto simp: CreateInitialAdmin_def CreateUser_def case_prod_beta freshUser_def
      intro!: calm_insertUser calm_users)

lemma calm_TouchLogin: "calm d (TouchLogin now uid d)"
  using perform_keeps_accounts [of d "Touch now uid"]
  by (auto simp: calm_def TouchLogin_def sameRow_def sameFactor_def split: option.splits if_splits)

lemma calm_DeleteUser: "calm d (DeleteUser uid d)"
  using accounts_ok_DeleteUser [of d uid]
  by (auto simp: calm_def DeleteUser_def lookup_deleted split: if_splits)


definition harmless :: "(site, 'a) handler \<Rightarrow> bool" where
  "harmless m \<longleftrightarrow> (\<forall>s. calm (si_db s) (si_db (snd (m s))))"

named_theorems harmless_intros "handlers that leave the second factor alone"

lemma harmless_bindS [harmless_intros]: "harmless m \<Longrightarrow> (\<And>x. harmless (f x)) \<Longrightarrow> harmless (bindS m f)"
proof -
  assume m: "harmless m" and f: "\<And>x. harmless (f x)"
  have "calm (si_db s) (si_db (snd (bindS m f s)))" for s
  proof (cases "m s")
    case (Pair r s')
    with m have "calm (si_db s) (si_db s')" by (metis harmless_def snd_conv)
    moreover have "calm (si_db s') (si_db (snd (f x s')))" for x using f by (simp add: harmless_def)
    ultimately show ?thesis
      by (auto simp: bindS_def Pair split: sum.split intro: calm_trans)
  qed
  then show "harmless (bindS m f)" by (simp add: harmless_def)
qed

lemma harmless_basic [harmless_intros]:
  "harmless (ret x)" "harmless (fail e)" "harmless (require b e)" "harmless (readDb g)" "harmless (audit rq u a t)"
  by (simp_all add: harmless_def ret_def fail_def require_def readDb_def audit_def)

lemma harmless_onDb [harmless_intros]: "(\<And>d. calm d (snd (g d))) \<Longrightarrow> harmless (onDb g)"
  by (simp add: harmless_def onDb_def case_prod_beta)

lemma harmless_updDb [harmless_intros]: "(\<And>d. calm d (g d)) \<Longrightarrow> harmless (updDb g)"
  by (simp add: harmless_def updDb_def)

lemma si_db_mapErr [simp]: "si_db (snd (mapErr m f s)) = si_db (snd (m s))"
  by (simp add: mapErr_def split: prod.split sum.split)

lemma harmless_mapErr [harmless_intros]: "harmless m \<Longrightarrow> harmless (mapErr m f)"
  by (simp add: harmless_def)

lemma harmless_orElse [harmless_intros]: "harmless m \<Longrightarrow> harmless (orElse m e)"
  by (simp add: orElse_def harmless_mapErr)

lemma harmless_site [harmless_intros]:
  "harmless (allowLogin rq)" "harmless (allowFactor rq key limit)" "harmless (issueChallenge rq u)"
  "harmless (attemptChallenge rq tok)" "harmless (dropChallenge tok)"
  by (simp_all add: harmless_def allowLogin_def allowFactor_def issueChallenge_def attemptChallenge_def
      dropChallenge_def require_def ret_def fail_def split: prod.split option.split)

lemmas calm_store [harmless_intros] = calm_ops calm_TouchLogin calm_DeleteUser

lemma harmless_startSession [harmless_intros]: "harmless (startSession rq u)"
  unfolding startSession_def CreateAuthorizedSession_def by (intro harmless_intros)

lemma harmless_finishLogin [harmless_intros]: "harmless (finishLogin rq u action)"
  unfolding finishLogin_def stillValid_def by (intro harmless_intros)

lemma harmless_keepSession [harmless_intros]: "harmless (keepSession rq byKey u)"
proof -
  have "calm d (snd (CreateSession s (DeleteUserSessions uid d)))" for s uid d
    unfolding CreateSession_def by (rule calm_trans [OF calm_ops(6) calm_ops(3)])
  then show ?thesis
    by (simp add: harmless_def keepSession_def updDb_def split: option.split)
qed

lemma harmless_if [harmless_intros]: "harmless m \<Longrightarrow> harmless m' \<Longrightarrow> harmless (if b then m else m')"
  by simp

text \<open>The handlers that do not write a user row.\<close>

lemma harmless_login: "harmless (login rq username password)"
  unfolding login_def by (intro harmless_intros)

lemma harmless_login2FA_read: "harmless (login2FA_read rq tok)"
  unfolding login2FA_read_def by (intro harmless_intros)

lemma harmless_setup: "harmless (setup_handler rq username password setupToken)"
  unfolding setup_handler_def stillValid_def by (intro harmless_intros)

lemma harmless_createUser: "harmless (createUser rq me inp)"
  unfolding createUser_def by (intro harmless_intros)

lemma harmless_deleteUser: "harmless (deleteUser rq me uid)"
  unfolding deleteUser_def by (intro harmless_intros)

lemma harmless_revokeAPIKey: "harmless (revokeAPIKey rq u kid)"
  unfolding revokeAPIKey_def by (intro harmless_intros)

lemma harmless_logout: "harmless (logout rq)"
  using calm_ops(4) by (simp add: harmless_def logout_def updDb_def split: option.split)


lemma harmless_currentUser [harmless_intros]: "harmless (currentUser rq)"
proof -
  have "harmless (bindS (orElse (onDb (GetSession (rq_now rq) sid)) e) (\<lambda>sess.
      bindS (orElse (readDb (GetUser (sn_UserID sess))) e) (\<lambda>u.
      bindS (require (us_Enabled u) e) (\<lambda>_. ret u))))" for sid e
    by (intro harmless_intros)
  then show ?thesis
    by (simp add: harmless_def currentUser_def split: option.split sum.split prod.split)
qed

lemma harmless_gate: "harmless (gate rq policy pattern method key)"
  unfolding gate_def by (cases key) (auto intro!: harmless_intros)

section \<open>Handlers that write one user row\<close>

text \<open>
  \<open>through W m\<close>: a run of \<open>m\<close> either fails and is harmless, or performs the write \<open>W\<close> exactly once
  between harmless changes.
\<close>

definition through :: "(accounts \<Rightarrow> accounts \<Rightarrow> bool) \<Rightarrow> (site, 'a) handler \<Rightarrow> bool" where
  "through W m \<longleftrightarrow>
     (\<forall>s r s'. m s = (r, s') \<longrightarrow>
        calm (si_db s) (si_db s') \<and> \<not> isOk r \<or>
        (\<exists>d1 d2. calm (si_db s) d1 \<and> W d1 d2 \<and> calm d2 (si_db s')))"

named_theorems through_intros "handlers that write one user row"

lemma throughD:
  assumes "through W m" "m s = (r, s')"
  shows "calm (si_db s) (si_db s') \<and> \<not> isOk r \<or>
    (\<exists>d1 d2. calm (si_db s) d1 \<and> W d1 d2 \<and> calm d2 (si_db s'))"
  using assms by (auto simp: through_def)

lemma harmlessD: "harmless m \<Longrightarrow> m s = (r, s') \<Longrightarrow> calm (si_db s) (si_db s')"
  by (metis harmless_def snd_conv)

lemma through_fail [through_intros]: "through W (fail e)"
  by (simp add: through_def fail_def)

lemma through_harmless:
  assumes m: "harmless m" and f: "\<And>x. through W (f x)"
  shows "through W (bindS m f)"
  unfolding through_def
proof (intro allI impI)
  fix s r s'
  assume run: "bindS m f s = (r, s')"
  obtain q t where t: "m s = (q, t)" by fastforce
  have pre: "calm (si_db s) (si_db t)" using m t by (rule harmlessD)
  show "calm (si_db s) (si_db s') \<and> \<not> isOk r \<or>
    (\<exists>d1 d2. calm (si_db s) d1 \<and> W d1 d2 \<and> calm d2 (si_db s'))"
  proof (cases q)
    case (Inl e)
    with run t pre show ?thesis by (auto simp: bindS_def)
  next
    case (Inr x)
    with run t have "f x t = (r, s')" by (simp add: bindS_def)
    from throughD [OF f this] pre show ?thesis by (blast intro: calm_trans)
  qed
qed

lemma through_require [through_intros]:
  assumes "b \<Longrightarrow> through W (f ())"
  shows "through W (bindS (require b e) f)"
proof (cases b)
  case True
  then have "bindS (require b e) f = f ()"
    by (simp add: require_def bindS_def ret_def fun_eq_iff)
  with assms True show ?thesis by simp
next
  case False
  then have "bindS (require b e) f = fail e"
    by (simp add: require_def bindS_def fail_def fun_eq_iff)
  then show ?thesis by (simp add: through_fail)
qed

lemma through_write:
  assumes g: "\<And>d. g d = (Inr (), snd (g d)) \<and> W d (snd (g d)) \<or> (\<exists>e. g d = (Inl e, d))"
    and f: "\<And>x. harmless (f x)"
  shows "through W (bindS (mapErr (onDb g) h) f)"
  unfolding through_def
proof (intro allI impI)
  fix s r s'
  assume run: "bindS (mapErr (onDb g) h) f s = (r, s')"
  show "calm (si_db s) (si_db s') \<and> \<not> isOk r \<or>
    (\<exists>d1 d2. calm (si_db s) d1 \<and> W d1 d2 \<and> calm d2 (si_db s'))"
  proof (cases "\<exists>e. g (si_db s) = (Inl e, si_db s)")
    case True
    with run show ?thesis by (auto simp: bindS_def mapErr_def onDb_def)
  next
    case False
    with g [of "si_db s"] have w: "g (si_db s) = (Inr (), snd (g (si_db s)))" "W (si_db s) (snd (g (si_db s)))"
      by auto
    let ?t = "s\<lparr>si_db := snd (g (si_db s))\<rparr>"
    have "f () ?t = (r, s')" using run w(1) by (auto simp: bindS_def mapErr_def onDb_def split: prod.splits)
    then have "calm (si_db ?t) (si_db s')" by (rule harmlessD [OF f])
    with w(2) show ?thesis by (auto intro: exI [of _ "si_db s"] calm_refl)
  qed
qed

definition secures :: "time \<Rightarrow> User \<Rightarrow> User \<Rightarrow> accounts \<Rightarrow> accounts \<Rightarrow> bool" where
  "secures now before after d d' \<longleftrightarrow> UpdateUserSecurity now before after d = (Inr (), d')"

definition updates :: "time \<Rightarrow> User \<Rightarrow> accounts \<Rightarrow> accounts \<Rightarrow> bool" where
  "updates now u d d' \<longleftrightarrow> UpdateUser now u d = (Inr (), d')"

lemma mapErr_id: "mapErr m (\<lambda>e. e) = m"
  by (auto simp: mapErr_def fun_eq_iff split: prod.split sum.split)

lemma through_secures [through_intros]:
  assumes "\<And>x. harmless (f x)"
  shows "through (secures now before after) (bindS (onDb (UpdateUserSecurity now before after)) f)"
    and "through (secures now before after) (bindS (orElse (onDb (UpdateUserSecurity now before after)) e) f)"
proof -
  have w: "through (secures now before after) (bindS (mapErr (onDb (UpdateUserSecurity now before after)) h) f)" for h
    by (rule through_write [OF _ assms])
      (auto simp: secures_def UpdateUserSecurity_def split: option.split)
  from w [of "\<lambda>e. e"] show "through (secures now before after) (bindS (onDb (UpdateUserSecurity now before after)) f)"
    by (simp add: mapErr_id)
  from w show "through (secures now before after) (bindS (orElse (onDb (UpdateUserSecurity now before after)) e) f)"
    by (simp add: orElse_def)
qed

lemma through_updates [through_intros]:
  assumes "\<And>x. harmless (f x)"
  shows "through (updates now u) (bindS (onDb (UpdateUser now u)) f)"
proof -
  have "through (updates now u) (bindS (mapErr (onDb (UpdateUser now u)) (\<lambda>e. e)) f)"
    by (rule through_write [OF _ assms]) (auto simp: updates_def UpdateUser_def split: option.split)
  then show ?thesis by (simp add: mapErr_id)
qed

lemma through_readDb_const:
  assumes "\<And>x. r = Inr x \<Longrightarrow> through W (f x)"
  shows "through W (bindS (readDb (\<lambda>_. r)) f)"
proof (cases r)
  case (Inl e)
  then have "bindS (readDb (\<lambda>_. r)) f = fail e" by (simp add: bindS_def readDb_def fail_def fun_eq_iff)
  then show ?thesis by (simp add: through_fail)
next
  case (Inr x)
  then have "bindS (readDb (\<lambda>_. r)) f = f x" by (simp add: bindS_def readDb_def fun_eq_iff)
  with assms Inr show ?thesis by simp
qed


text \<open>The handlers, each with the write it goes through.\<close>

lemma through_login2FA:
  assumes "consumeSecondFactor rq before code = Some (u, used)"
  shows "through (secures (rq_now rq) before u) (login2FA_finish rq tok code before)"
  unfolding login2FA_finish_def assms option.case prod.case
  by (intro through_harmless through_intros harmless_intros)

lemma through_twoFASetup:
  "through (\<lambda>d d'. \<not> us_TOTPEnabled u \<and>
     secures (rq_now rq) u (u\<lparr>us_TOTPSecret := rq_secret rq, us_TOTPLastStep := 0\<rparr>) d d')
     (twoFASetup rq u password)"
proof (cases "us_TOTPEnabled u")
  case False
  then show ?thesis
    unfolding twoFASetup_def by (simp add: through_require through_secures harmless_intros)
next
  case True
  then show ?thesis
    unfolding twoFASetup_def by (intro through_intros) simp
qed

lemma through_twoFAEnable:
  assumes "VerifyTOTP (rq_crypto rq) (us_TOTPSecret u) code (rq_now rq) 0 = (step, True)"
    and "\<not> us_TOTPEnabled u" "us_TOTPSecret u \<noteq> []"
  shows "through (secures (rq_now rq) u
      (u\<lparr>us_TOTPEnabled := True, us_TOTPLastStep := step,
         us_RecoveryCodes := snd (NewRecoveryCodes (rq_crypto rq) (rq_recovery rq))\<rparr>))
    (twoFAEnable rq u code)"
  unfolding twoFAEnable_def assms(1)
  by (cases "NewRecoveryCodes (rq_crypto rq) (rq_recovery rq)")
    (auto intro!: through_intros harmless_intros)

lemma through_twoFADisable:
  "through (secures (rq_now rq) u (clearTOTP u)) (twoFADisable rq u password code)"
  unfolding twoFADisable_def by (intro through_intros harmless_intros)

lemma through_twoFARecovery:
  assumes "consumeSecondFactor rq u code = Some (u', used)"
  shows "through (secures (rq_now rq) u
      (u'\<lparr>us_RecoveryCodes := snd (NewRecoveryCodes (rq_crypto rq) (rq_recovery rq))\<rparr>))
    (twoFARecovery rq u password code)"
  unfolding twoFARecovery_def assms
  by (cases "NewRecoveryCodes (rq_crypto rq) (rq_recovery rq)")
    (auto intro!: through_intros harmless_intros)

lemma through_twoFAReset: "through (updates (rq_now rq) (clearTOTP u)) (twoFAReset_write rq me u)"
  unfolding twoFAReset_write_def Let_def by (intro through_intros harmless_intros)

text \<open>A profile write keeps the row's identity, its time of reading and its second factor.\<close>

lemma optR_Inr: "optR f x a = Inr b \<longleftrightarrow> (x = None \<and> b = a) \<or> (\<exists>y. x = Some y \<and> f y a = Inr b)"
  by (auto simp: optR_def split: option.split)

lemma sets_sameRow:
  "setNickname n u = Inr v \<Longrightarrow> sameRow u v" "setAvatar rq a u = Inr v \<Longrightarrow> sameRow u v"
  "setRole me role u = Inr v \<Longrightarrow> sameRow u v" "setEnabled me e u = Inr v \<Longrightarrow> sameRow u v"
  by (auto simp: setNickname_def setAvatar_def setRole_def setEnabled_def sameRow_def sameFactor_def
      bindR_eq_Inr split: if_splits)

lemma optR_sameRow:
  "optR setNickname n u = Inr v \<Longrightarrow> sameRow u v" "optR (setAvatar rq) a u = Inr v \<Longrightarrow> sameRow u v"
  "optR (setEnabled me) e u = Inr v \<Longrightarrow> sameRow u v"
  by (auto simp: optR_Inr dest: sets_sameRow)

lemma applyInput_sameRow:
  assumes "applyInput rq me inp u = Inr v"
  shows "sameRow u v"
proof -
  let ?w = "if ui_Username inp = [] then u else u\<lparr>us_Username := TrimSpace (ui_Username inp)\<rparr>"
  obtain u1 u2 u3 u4 where "optR setNickname (ui_Nickname inp) ?w = Inr u1"
    "setRole me (ui_Role inp) u1 = Inr u2" "optR (setEnabled me) (ui_Enabled inp) u2 = Inr u3"
    "optR (setAvatar rq) (ui_Avatar inp) u3 = Inr u4" and v: "sameRow u4 v"
    using assms
    by (auto simp: applyInput_def bindR_eq_Inr sameRow_def sameFactor_def split: if_splits)
  then have "sameRow ?w u4" by (blast dest: optR_sameRow sets_sameRow intro: sameRow_trans)
  with v show ?thesis by (auto simp: sameRow_def sameFactor_def split: if_splits)
qed

definition profiles :: "time \<Rightarrow> User \<Rightarrow> accounts \<Rightarrow> accounts \<Rightarrow> bool" where
  "profiles now u d d' \<longleftrightarrow> (\<exists>v. sameRow u v \<and> updates now v d d')"

lemma through_mono: "through W m \<Longrightarrow> (\<And>d d'. W d d' \<Longrightarrow> W' d d') \<Longrightarrow> through W' m"
  unfolding through_def by blast

lemma through_profiles:
  assumes "sameRow u v" "\<And>x. harmless (f x)"
  shows "through (profiles now u) (bindS (onDb (UpdateUser now v)) f)"
  by (rule through_mono [OF through_updates [OF assms(2)]]) (use assms(1) in \<open>auto simp: profiles_def\<close>)

lemma through_setMyProfile: "through (profiles (rq_now rq) u) (setMyProfile rq u nickname)"
  unfolding setMyProfile_def
  by (intro through_readDb_const through_profiles harmless_intros) (rule optR_sameRow)

lemma through_setMyAvatar: "through (profiles (rq_now rq) u) (setMyAvatar rq u avatar)"
  unfolding setMyAvatar_def
  by (intro through_readDb_const through_profiles harmless_intros) (rule sets_sameRow)

lemma through_changePassword:
  "through (profiles (rq_now rq) u) (changePassword rq byKey u oldPassword newPassword)"
  unfolding changePassword_def
  by (intro through_intros through_readDb_const through_profiles harmless_intros)
    (simp add: sameRow_def sameFactor_def)

lemma through_updateUser: "through (profiles (rq_now rq) u) (updateUser_write rq me inp u)"
  unfolding updateUser_write_def
  by (intro through_readDb_const through_harmless through_profiles harmless_intros) (rule applyInput_sameRow)


section \<open>Any interleaving of the handlers\<close>

text \<open>
  The site, the rows requests in flight have read, the one-time codes accepted so far (user,
  secret, step) and the secrets generated so far.
\<close>

record portal =
  po_site :: site
  po_reads :: "User list"
  po_used :: "(i64 \<times> string \<times> i64) list"
  po_secrets :: "string list"

text \<open>The entry a handler leaves in the list of accepted codes: it took a one-time code and succeeded.\<close>

definition spent :: "request \<Rightarrow> User \<Rightarrow> string \<Rightarrow> 'a res \<Rightarrow> (i64 \<times> string \<times> i64) list" where
  "spent rq u code r =
     (if us_TOTPEnabled u \<and> isOk r
      then case consumeSecondFactor rq u code of
             Some (u', Totp) \<Rightarrow> [(us_ID u, us_TOTPSecret u, us_TOTPLastStep u')]
           | _ \<Rightarrow> []
      else [])"

definition enrolled :: "request \<Rightarrow> User \<Rightarrow> string \<Rightarrow> 'a res \<Rightarrow> (i64 \<times> string \<times> i64) list" where
  "enrolled rq u code r =
     (if isOk r
      then [(us_ID u, us_TOTPSecret u,
             fst (VerifyTOTP (rq_crypto rq) (us_TOTPSecret u) code (rq_now rq) 0))]
      else [])"

text \<open>The clock has moved since every stored row was last written.\<close>

definition clockAhead :: "request \<Rightarrow> site \<Rightarrow> bool" where
  "clockAhead rq s = list_all (\<lambda>(k, u). us_UpdatedAt u < rq_now rq) (users (si_db s))"

text \<open>
  One request at a time takes effect. A request that acts on a row acts on one read at some
  earlier moment; a generated secret is new.
\<close>

inductive visit :: "portal \<Rightarrow> portal \<Rightarrow> bool" where
  load: "GetUser uid (si_db (po_site p)) = Inr u \<Longrightarrow> visit p (p\<lparr>po_reads := u # po_reads p\<rparr>)"
| entry: "m \<in> {snd \<circ> login rq a b, snd \<circ> login2FA_read rq a, snd \<circ> setup_handler rq a b c,
             snd \<circ> createUser rq me inp, snd \<circ> deleteUser rq me uid, snd \<circ> revokeAPIKey rq me uid,
             snd \<circ> logout rq, snd \<circ> gate rq policy a b k} \<Longrightarrow>
    visit p (p\<lparr>po_site := m (po_site p)\<rparr>)"
| login2fa: "u \<in> set (po_reads p) \<Longrightarrow> us_TOTPEnabled u \<Longrightarrow> clockAhead rq (po_site p) \<Longrightarrow>
    login2FA_finish rq tok code u (po_site p) = (r, s) \<Longrightarrow>
    visit p (p\<lparr>po_site := s, po_used := spent rq u code r @ po_used p\<rparr>)"
| key: "u \<in> set (po_reads p) \<Longrightarrow> clockAhead rq (po_site p) \<Longrightarrow>
    createAPIKey rq u kin (po_site p) = (r', s) \<Longrightarrow>
    visit p (p\<lparr>po_site := s, po_used := spent rq u (ki_Code kin) r' @ po_used p\<rparr>)"
| disable: "u \<in> set (po_reads p) \<Longrightarrow> clockAhead rq (po_site p) \<Longrightarrow>
    twoFADisable rq u pw code (po_site p) = (r, s) \<Longrightarrow>
    visit p (p\<lparr>po_site := s, po_used := spent rq u code r @ po_used p\<rparr>)"
| recovery: "u \<in> set (po_reads p) \<Longrightarrow> clockAhead rq (po_site p) \<Longrightarrow>
    twoFARecovery rq u pw code (po_site p) = (rr, s) \<Longrightarrow>
    visit p (p\<lparr>po_site := s, po_used := spent rq u code rr @ po_used p\<rparr>)"
| enrol: "u \<in> set (po_reads p) \<Longrightarrow> clockAhead rq (po_site p) \<Longrightarrow>
    rq_secret rq \<notin> set ([] # po_secrets p) \<Longrightarrow>
    twoFASetup rq u pw (po_site p) = (r, s) \<Longrightarrow>
    visit p (p\<lparr>po_site := s, po_secrets := rq_secret rq # po_secrets p\<rparr>)"
| enable: "u \<in> set (po_reads p) \<Longrightarrow> clockAhead rq (po_site p) \<Longrightarrow>
    twoFAEnable rq u code (po_site p) = (re, s) \<Longrightarrow>
    visit p (p\<lparr>po_site := s, po_used := enrolled rq u code re @ po_used p\<rparr>)"
| profile: "u \<in> set (po_reads p) \<Longrightarrow> clockAhead rq (po_site p) \<Longrightarrow>
    m \<in> {snd \<circ> setMyProfile rq u n, snd \<circ> setMyAvatar rq u a, snd \<circ> updateUser_write rq me inp u,
          snd \<circ> twoFAReset_write rq me u} \<union> {snd \<circ> changePassword rq k u a b} \<Longrightarrow>
    visit p (p\<lparr>po_site := m (po_site p)\<rparr>)"

section \<open>A code is accepted at most once\<close>

text \<open>
  What holds throughout: a row that was read is the stored one or older than it; enabled rows
  have a generated secret; and of the secret a row carries, no accepted step lies past the
  row's replay guard.
\<close>

definition readOk :: "accounts \<Rightarrow> User \<Rightarrow> bool" where
  "readOk d u \<longleftrightarrow>
     us_ID u \<le> users_seq d \<and>
     (\<forall>row. lookup (users d) (us_ID u) = Some row \<longrightarrow>
        us_UpdatedAt u \<le> us_UpdatedAt row \<and> (us_UpdatedAt u = us_UpdatedAt row \<longrightarrow> sameFactor u row))"

definition rowOk :: "accounts \<Rightarrow> string list \<Rightarrow> i64 \<Rightarrow> User \<Rightarrow> bool" where
  "rowOk d secrets uid row \<longleftrightarrow>
     uid \<le> users_seq d \<and> (us_TOTPEnabled row \<longrightarrow> us_TOTPSecret row \<noteq> []) \<and>
     us_TOTPSecret row \<in> set ([] # secrets)"

definition usedOk :: "accounts \<Rightarrow> string list \<Rightarrow> i64 \<times> string \<times> i64 \<Rightarrow> bool" where
  "usedOk d secrets e \<longleftrightarrow>
     (case e of (uid, sec, step) \<Rightarrow>
        sec \<noteq> [] \<and> sec \<in> set secrets \<and> uid \<le> users_seq d \<and>
        (\<forall>row. lookup (users d) uid = Some row \<longrightarrow> us_TOTPSecret row = sec \<longrightarrow>
           us_TOTPEnabled row \<and> step \<le> us_TOTPLastStep row))"

definition guarded :: "accounts \<Rightarrow> User list \<Rightarrow> (i64 \<times> string \<times> i64) list \<Rightarrow> string list \<Rightarrow> bool" where
  "guarded d R U S \<longleftrightarrow>
     accounts_ok d \<and> list_all (readOk d) R \<and>
     (\<forall>uid row. lookup (users d) uid = Some row \<longrightarrow> rowOk d S uid row) \<and>
     list_all (usedOk d S) U \<and> distinct U"


lemma guarded_calm:
  assumes g: "guarded d R U S" and t: "calm d d'"
  shows "guarded d' R U S"
proof -
  have origin: "(\<exists>u. lookup (users d) uid = Some u \<and> sameRow u v) \<or>
      users_seq d < uid \<and> uid \<le> users_seq d' \<and> \<not> us_TOTPEnabled v \<and> us_TOTPSecret v = []"
    if "lookup (users d') uid = Some v" for uid v
    using t that by (simp add: calm_def)
  have seq: "users_seq d \<le> users_seq d'" using t by (simp add: calm_def)
  have "readOk d' u" if "readOk d u" for u
    using that origin [of "us_ID u"] seq by (fastforce simp: readOk_def sameRow_def sameFactor_def)
  moreover have "rowOk d' S uid row" if "lookup (users d') uid = Some row" for uid row
    using origin [OF that] g seq by (fastforce simp: guarded_def rowOk_def sameRow_def sameFactor_def)
  moreover have "usedOk d' S e" if "usedOk d S e" for e
    using that origin [of "fst e"] seq
    by (cases e) (fastforce simp: usedOk_def sameRow_def sameFactor_def)
  ultimately show ?thesis
    using g t by (auto simp: guarded_def list_all_iff calm_def)
qed

definition ahead :: "accounts \<Rightarrow> User \<Rightarrow> time \<Rightarrow> bool" where
  "ahead d u now \<longleftrightarrow> (\<forall>row. lookup (users d) (us_ID u) = Some row \<longrightarrow> us_UpdatedAt row < now)"

lemma ahead_calm: "ahead d u now \<Longrightarrow> readOk d u \<Longrightarrow> calm d d' \<Longrightarrow> ahead d' u now"
  by (fastforce simp: ahead_def readOk_def calm_def sameRow_def)

lemma clockAhead_ahead: "clockAhead rq s \<Longrightarrow> ahead (si_db s) u (rq_now rq)"
  by (auto simp: clockAhead_def ahead_def list_all_iff dest: map_of_SomeD)

text \<open>One write of a row that is still the one read.\<close>

lemma guarded_write:
  assumes g: "guarded d R U S" and u: "u \<in> set R"
    and old: "lookup (users d) (us_ID u) = Some old"
    and ids: "us_ID new = us_ID old" and newer: "us_UpdatedAt old < us_UpdatedAt new"
    and ver: "us_SecurityVersion old \<le> us_SecurityVersion new"
    and row: "us_TOTPEnabled new \<longrightarrow> us_TOTPSecret new \<noteq> []" "us_TOTPSecret new \<in> set ([] # S')"
    and S: "set S \<subseteq> set S'"
    and used: "\<And>step. (us_ID u, us_TOTPSecret new, step) \<in> set U \<Longrightarrow>
      us_TOTPEnabled new \<and> step \<le> us_TOTPLastStep new"
  shows "guarded (writeUser old new d) R U S'"
proof -
  have ok: "accounts_ok d" using g by (simp add: guarded_def)
  have id: "us_ID old = us_ID u" using accounts_okD(1) [OF ok old] .
  have "accounts_ok (writeUser old new d)"
    by (rule accounts_ok_writeUser [OF ok]) (use old id ids ver in simp_all)
  moreover have "readOk (writeUser old new d) v" if "readOk d v" for v
    using that old newer id by (auto simp: readOk_def)
  moreover have "rowOk (writeUser old new d) S' uid r"
    if "lookup (users (writeUser old new d)) uid = Some r" for uid r
  proof (cases "uid = us_ID u")
    case True
    with that row g u show ?thesis
      by (auto simp: id rowOk_def guarded_def list_all_iff readOk_def)
  next
    case False
    with that g S show ?thesis by (auto simp: id rowOk_def guarded_def)
  qed
  moreover have "usedOk (writeUser old new d) S' e" if e: "e \<in> set U" for e
  proof -
    have "usedOk d S e" using g e by (simp add: guarded_def list_all_iff)
    with S used e show ?thesis by (cases e) (auto simp: usedOk_def id split: if_splits)
  qed
  ultimately show ?thesis using g by (auto simp: guarded_def list_all_iff)
qed

lemma guarded_log:
  "guarded d R U S \<Longrightarrow> usedOk d S e \<Longrightarrow> e \<notin> set U \<Longrightarrow> guarded d R (e # U) S"
  by (simp add: guarded_def)

text \<open>A row the write conditions accept is the one that was read.\<close>

lemma secures_row:
  assumes g: "guarded d R U S" and u: "u \<in> set R" and w: "secures now u after d d'"
  obtains old where "lookup (users d) (us_ID u) = Some old"
    "d' = writeUser old (securedUser now u after old) d" "sameFactor u old"
proof (cases rule: UpdateUserSecurity_cases [of now u after d])
  case (written old)
  then have "sameFactor u old"
    using g u by (auto simp: guarded_def list_all_iff readOk_def unchangedSince_def)
  with written w that show ?thesis by (simp add: secures_def)
qed (use w in \<open>simp add: secures_def\<close>)

lemma updates_row:
  assumes g: "guarded d R U S" and u: "u \<in> set R" and w: "updates now v d d'"
    and v: "us_ID v = us_ID u" "us_UpdatedAt v = us_UpdatedAt u"
  obtains old where "lookup (users d) (us_ID u) = Some old"
    "d' = writeUser old (updatedUser now v old) d" "sameFactor u old"
proof (cases rule: UpdateUser_cases [of now v d])
  case (written old)
  then have "sameFactor u old"
    using g u v by (auto simp: guarded_def list_all_iff readOk_def)
  with written w v that show ?thesis by (simp add: updates_def)
qed (use w in \<open>simp add: updates_def\<close>)

lemma written_factor [simp]:
  "us_TOTPEnabled (securedUser now before after old) = us_TOTPEnabled after"
  "us_TOTPSecret (securedUser now before after old) = us_TOTPSecret after"
  "us_TOTPLastStep (securedUser now before after old) = us_TOTPLastStep after"
  "us_TOTPEnabled (updatedUser now u old) = us_TOTPEnabled u"
  "us_TOTPSecret (updatedUser now u old) = us_TOTPSecret u"
  "us_TOTPLastStep (updatedUser now u old) = us_TOTPLastStep u"
  by (simp_all add: securedUser_def updatedUser_def)


lemma used_bound:
  assumes "guarded d R U S" "lookup (users d) uid = Some row" "(uid, us_TOTPSecret row, step) \<in> set U"
  shows "us_TOTPEnabled row \<and> step \<le> us_TOTPLastStep row"
  using assms by (fastforce simp: guarded_def list_all_iff usedOk_def)

lemma guarded_row:
  assumes "guarded d R U S" "lookup (users d) uid = Some row"
  shows "uid \<le> users_seq d" "us_TOTPEnabled row \<Longrightarrow> us_TOTPSecret row \<noteq> []"
    "us_TOTPSecret row \<noteq> [] \<Longrightarrow> us_TOTPSecret row \<in> set S"
  using assms by (auto simp: guarded_def rowOk_def)

lemma ahead_newer:
  "ahead d u now \<Longrightarrow> lookup (users d) (us_ID u) = Some old \<Longrightarrow> us_UpdatedAt old < now"
  by (simp add: ahead_def)

text \<open>A code is taken: the guard moves to its step, or the second factor is switched off with it.\<close>

lemma guarded_accept:
  assumes g: "guarded d R U S" and u: "u \<in> set R" "us_TOTPEnabled u" and t: "ahead d u now"
    and w: "secures now u after d d'"
    and after: "us_TOTPEnabled after \<and> us_TOTPSecret after = us_TOTPSecret u \<and>
        us_TOTPLastStep u \<le> us_TOTPLastStep after \<or>
      \<not> us_TOTPEnabled after \<and> us_TOTPSecret after = []"
    and L: "L = [] \<or> L = [(us_ID u, us_TOTPSecret u, step)] \<and> us_TOTPLastStep u < step \<and>
      (us_TOTPEnabled after \<longrightarrow> step \<le> us_TOTPLastStep after)"
  shows "guarded d' R (L @ U) S"
proof -
  obtain old where old: "lookup (users d) (us_ID u) = Some old"
    "d' = writeUser old (securedUser now u after old) d" "sameFactor u old"
    using g u(1) w by (rule secures_row)
  have id: "us_ID old = us_ID u" using g old(1) by (auto simp: guarded_def intro: accounts_okD(1))
  have sec: "us_TOTPSecret u \<noteq> []" "us_TOTPSecret u \<in> set S"
    using guarded_row(2,3) [OF g old(1)] old(3) u(2) by (auto simp: sameFactor_def)
  have bound: "step' \<le> us_TOTPLastStep u" if "(us_ID u, us_TOTPSecret u, step') \<in> set U" for step'
    using used_bound [OF g old(1)] that old(3) by (simp add: sameFactor_def)
  have empty: "(us_ID u, [], step') \<notin> set U" for step'
    using g by (fastforce simp: guarded_def list_all_iff usedOk_def)
  have base: "guarded d' R U S"
    unfolding old(2)
    by (rule guarded_write [OF g u(1) old(1)])
      (use ahead_newer [OF t old(1)] sec after empty in \<open>auto dest!: bound\<close>)
  show ?thesis
  proof (cases "L = []")
    case False
    with L have L': "L = [(us_ID u, us_TOTPSecret u, step)]" "us_TOTPLastStep u < step" by auto
    have "usedOk d' S (us_ID u, us_TOTPSecret u, step)"
      using sec after L False guarded_row(1) [OF g old(1)] id by (auto simp: usedOk_def old(2))
    with base L' bound [of step] show ?thesis by (auto intro: guarded_log)
  qed (use base in simp)
qed

lemma guarded_enrol:
  assumes g: "guarded d R U S" and u: "u \<in> set R" "\<not> us_TOTPEnabled u" and t: "ahead d u now"
    and w: "secures now u (u\<lparr>us_TOTPSecret := sec, us_TOTPLastStep := 0\<rparr>) d d'"
    and fresh: "sec \<notin> set ([] # S)"
  shows "guarded d' R U (sec # S)"
proof -
  obtain old where old: "lookup (users d) (us_ID u) = Some old"
    "d' = writeUser old (securedUser now u (u\<lparr>us_TOTPSecret := sec, us_TOTPLastStep := 0\<rparr>) old) d"
    using g u(1) w by (rule secures_row)
  have "(us_ID u, sec, step) \<notin> set U" for step
    using g fresh by (fastforce simp: guarded_def list_all_iff usedOk_def)
  then show ?thesis
    unfolding old(2)
    by (intro guarded_write [OF g u(1) old(1)]) (use ahead_newer [OF t old(1)] u(2) in auto)
qed

lemma guarded_enable:
  assumes g: "guarded d R U S" and u: "u \<in> set R" "\<not> us_TOTPEnabled u" "us_TOTPSecret u \<noteq> []"
    and t: "ahead d u now"
    and w: "secures now u (u\<lparr>us_TOTPEnabled := True, us_TOTPLastStep := step, us_RecoveryCodes := codes\<rparr>) d d'"
    and L: "L = [] \<or> L = [(us_ID u, us_TOTPSecret u, step)]"
  shows "guarded d' R (L @ U) S"
proof -
  let ?after = "u\<lparr>us_TOTPEnabled := True, us_TOTPLastStep := step, us_RecoveryCodes := codes\<rparr>"
  obtain old where old: "lookup (users d) (us_ID u) = Some old"
    "d' = writeUser old (securedUser now u ?after old) d" "sameFactor u old"
    using g u(1) w by (rule secures_row)
  have id: "us_ID old = us_ID u" using g old(1) by (auto simp: guarded_def intro: accounts_okD(1))
  have new: "(us_ID u, us_TOTPSecret u, step') \<notin> set U" for step'
    using used_bound [OF g old(1), of step'] old(3) u(2) by (auto simp: sameFactor_def)
  have sec: "us_TOTPSecret u \<in> set S"
    using guarded_row(3) [OF g old(1)] old(3) u(3) by (simp add: sameFactor_def)
  have base: "guarded d' R U S"
    unfolding old(2)
    by (intro guarded_write [OF g u(1) old(1)]) (use ahead_newer [OF t old(1)] u(3) sec new in auto)
  have "usedOk d' S (us_ID u, us_TOTPSecret u, step)"
    using sec u(3) guarded_row(1) [OF g old(1)] id by (auto simp: usedOk_def old(2))
  with base L new [of step] show ?thesis by (auto intro: guarded_log)
qed

lemma guarded_profile:
  assumes g: "guarded d R U S" and u: "u \<in> set R" and t: "ahead d u now" and w: "profiles now u d d'"
  shows "guarded d' R U S"
proof -
  obtain v where v: "sameRow u v" "updates now v d d'" using w by (auto simp: profiles_def)
  obtain old where old: "lookup (users d) (us_ID u) = Some old"
    "d' = writeUser old (updatedUser now v old) d" "sameFactor u old"
    by (rule updates_row [OF g u v(2)]) (use v(1) in \<open>auto simp: sameRow_def\<close>)
  have same: "us_TOTPEnabled v = us_TOTPEnabled old" "us_TOTPSecret v = us_TOTPSecret old"
    "us_TOTPLastStep v = us_TOTPLastStep old"
    using v(1) old(3) by (auto simp: sameRow_def sameFactor_def)
  show ?thesis
    unfolding old(2)
    by (intro guarded_write [OF g u old(1)])
      (use ahead_newer [OF t old(1)] guarded_row [OF g old(1)] used_bound [OF g old(1)] same in auto)
qed

lemma guarded_reset:
  assumes g: "guarded d R U S" and u: "u \<in> set R" and t: "ahead d u now"
    and w: "updates now (clearTOTP u) d d'"
  shows "guarded d' R U S"
proof -
  obtain old where old: "lookup (users d) (us_ID u) = Some old"
    "d' = writeUser old (updatedUser now (clearTOTP u) old) d"
    by (rule updates_row [OF g u w]) (auto simp: clearTOTP_def)
  have "(us_ID u, [], step) \<notin> set U" for step
    using g by (fastforce simp: guarded_def list_all_iff usedOk_def)
  then show ?thesis
    unfolding old(2)
    by (intro guarded_write [OF g u old(1)]) (use ahead_newer [OF t old(1)] in \<open>auto simp: clearTOTP_def\<close>)
qed


lemma guarded_secrets:
  assumes g: "guarded d R U S" and S: "set S \<subseteq> set S'"
  shows "guarded d R U S'"
proof -
  have "rowOk d S' uid row" if "rowOk d S uid row" for uid row
    using that S by (auto simp: rowOk_def)
  moreover have "usedOk d S' e" if "usedOk d S e" for e
    using that S by (cases e) (auto simp: usedOk_def)
  ultimately show ?thesis using g by (simp add: guarded_def list_all_iff)
qed

text \<open>A handler run as a whole: harmless changes around at most one write.\<close>

lemma guarded_through:
  assumes g: "guarded (si_db s) R U S" and u: "u \<in> set R" and t: "ahead (si_db s) u now"
    and m: "through W m" "m s = (r, s')"
    and w: "\<And>d1 d2. guarded d1 R U S \<Longrightarrow> ahead d1 u now \<Longrightarrow> W d1 d2 \<Longrightarrow> guarded d2 R (L @ U) S'"
    and failed: "\<not> isOk r \<Longrightarrow> L = []" and S: "set S \<subseteq> set S'"
  shows "guarded (si_db s') R (L @ U) S'"
  using throughD [OF m]
proof (elim disjE exE conjE)
  assume "calm (si_db s) (si_db s')" "\<not> isOk r"
  then have "guarded (si_db s') R (L @ U) S" using guarded_calm [OF g] failed by simp
  then show ?thesis using S by (rule guarded_secrets)
next
  fix d1 d2
  assume d: "calm (si_db s) d1" "W d1 d2" "calm d2 (si_db s')"
  have "readOk (si_db s) u" using g u by (simp add: guarded_def list_all_iff)
  then have "guarded d2 R (L @ U) S'"
    using w [OF guarded_calm [OF g d(1)] ahead_calm [OF t _ d(1)] d(2)] by simp
  then show ?thesis using d(3) by (rule guarded_calm)
qed

lemma consumed:
  assumes "consumeSecondFactor rq u code = Some (u', used)"
  shows "us_TOTPEnabled u' = us_TOTPEnabled u" "us_TOTPSecret u' = us_TOTPSecret u"
    "us_TOTPLastStep u \<le> us_TOTPLastStep u'" "used = Totp \<Longrightarrow> us_TOTPLastStep u < us_TOTPLastStep u'"
  using assms
  by (auto simp: consumeSecondFactor_def Let_def split: prod.splits bool.splits dest: VerifyTOTP_sound)

lemma spent_entry:
  assumes "consumeSecondFactor rq u code = Some (u', used)"
  shows "spent rq u code r = [] \<or>
    spent rq u code r = [(us_ID u, us_TOTPSecret u, us_TOTPLastStep u')] \<and>
    us_TOTPLastStep u < us_TOTPLastStep u'"
  using assms consumed(4) [OF assms] by (cases used) (auto simp: spent_def)

lemma spent_none: "consumeSecondFactor rq u code = None \<Longrightarrow> spent rq u code r = []"
  "\<not> us_TOTPEnabled u \<Longrightarrow> spent rq u code r = []" "\<not> isOk r \<Longrightarrow> spent rq u code r = []"
  by (simp_all add: spent_def)

definition portal_ok :: "portal \<Rightarrow> bool" where
  "portal_ok p \<longleftrightarrow> guarded (si_db (po_site p)) (po_reads p) (po_used p) (po_secrets p)"

lemma guarded_load:
  assumes g: "guarded d R U S" and u: "GetUser uid d = Inr u"
  shows "guarded d (u # R) U S"
proof -
  have row: "lookup (users d) uid = Some u" using u by (simp add: GetUser_def split: option.splits)
  with g have "us_ID u = uid" by (auto simp: guarded_def intro: accounts_okD(1))
  with row guarded_row(1) [OF g row] have "readOk d u" by (simp add: readOk_def sameFactor_def)
  with g show ?thesis by (simp add: guarded_def)
qed

text \<open>The second factor of a login, of a new key and of new recovery codes.\<close>

lemma accept_handler:
  assumes g: "guarded (si_db s) R U S" and u: "u \<in> set R" "us_TOTPEnabled u"
    and t: "clockAhead rq s" and c: "consumeSecondFactor rq u code = Some (u', used)"
    and m: "through (secures (rq_now rq) u after) m" "m s = (r, s')"
    and after: "sameFactor u' after"
  shows "guarded (si_db s') R (spent rq u code r @ U) S"
proof (rule guarded_through [OF g u(1) clockAhead_ahead [OF t] m])
  fix d1 d2
  assume "guarded d1 R U S" "ahead d1 u (rq_now rq)" "secures (rq_now rq) u after d1 d2"
  then show "guarded d2 R (spent rq u code r @ U) S"
    by (rule guarded_accept [OF _ u, where step = "us_TOTPLastStep u'"])
      (use after u(2) consumed(1-3) [OF c] spent_entry [OF c] in \<open>auto simp: sameFactor_def\<close>)
qed (simp_all add: spent_none)


lemma bindS_fail [simp]: "bindS (fail e) f = fail e"
  by (simp add: fun_eq_iff bindS_def fail_def)

lemma bindS_ret [simp]: "bindS (ret x) f = f x"
  by (simp add: fun_eq_iff bindS_def ret_def)

lemma bindS_assoc: "bindS (bindS m f) g = bindS m (\<lambda>x. bindS (f x) g)"
  by (auto simp: fun_eq_iff bindS_def split: prod.split sum.split)

lemma harmless_createAPIKey:
  assumes "\<not> us_TOTPEnabled u \<or> consumeSecondFactor rq u (ki_Code kin) = None"
  shows "harmless (createAPIKey rq u kin)"
  using assms unfolding createAPIKey_def spendFactor_def
  by (auto simp: Let_def intro!: harmless_intros)

lemma through_createAPIKey:
  assumes "us_TOTPEnabled u" "consumeSecondFactor rq u (ki_Code kin) = Some (u', used)"
  shows "through (secures (rq_now rq) u u') (createAPIKey rq u kin)"
  using assms unfolding createAPIKey_def spendFactor_def
  by (auto simp: Let_def bindS_assoc intro!: through_harmless through_intros harmless_intros)

lemma twoFAEnable_refuses:
  assumes "us_TOTPEnabled u \<or> us_TOTPSecret u = [] \<or>
    \<not> snd (VerifyTOTP (rq_crypto rq) (us_TOTPSecret u) code (rq_now rq) 0)"
  shows "harmless (twoFAEnable rq u code) \<and> \<not> isOk (fst (twoFAEnable rq u code s))"
  using assms
  by (auto simp: twoFAEnable_def require_def harmless_basic fail_def [of _ s] split: prod.split bool.split)

lemma guarded_clear:
  assumes g: "guarded d R U S" and u: "u \<in> set R" and t: "ahead d u now"
    and w: "secures now u (clearTOTP u) d d'"
  shows "guarded d' R U S"
proof -
  obtain old where old: "lookup (users d) (us_ID u) = Some old"
    "d' = writeUser old (securedUser now u (clearTOTP u) old) d"
    using g u w by (rule secures_row)
  have "(us_ID u, [], step) \<notin> set U" for step
    using g by (fastforce simp: guarded_def list_all_iff usedOk_def)
  then show ?thesis
    unfolding old(2)
    by (intro guarded_write [OF g u old(1)]) (use ahead_newer [OF t old(1)] in \<open>auto simp: clearTOTP_def\<close>)
qed

lemma disable_handler:
  assumes g: "guarded (si_db s) R U S" and u: "u \<in> set R" and t: "clockAhead rq s"
    and m: "twoFADisable rq u pw code s = (r, s')"
  shows "guarded (si_db s') R (spent rq u code r @ U) S"
proof (rule guarded_through [OF g u clockAhead_ahead [OF t] through_twoFADisable m])
  fix d1 d2
  assume d: "guarded d1 R U S" "ahead d1 u (rq_now rq)" "secures (rq_now rq) u (clearTOTP u) d1 d2"
  show "guarded d2 R (spent rq u code r @ U) S"
  proof (cases "spent rq u code r = []")
    case False
    then obtain u' used where c: "us_TOTPEnabled u" "consumeSecondFactor rq u code = Some (u', used)"
      by (auto simp: spent_def split: if_splits option.splits)
    show ?thesis
      by (rule guarded_accept [OF d(1) u c(1) d(2,3), where step = "us_TOTPLastStep u'"])
        (use spent_entry [OF c(2)] in \<open>auto simp: clearTOTP_def\<close>)
  qed (use guarded_clear [OF d(1) u d(2,3)] in simp)
qed (simp_all add: spent_none)

lemma enable_handler:
  assumes g: "guarded (si_db s) R U S" and u: "u \<in> set R" and t: "clockAhead rq s"
    and m: "twoFAEnable rq u code s = (r, s')"
  shows "guarded (si_db s') R (enrolled rq u code r @ U) S"
proof -
  obtain step ok where v: "VerifyTOTP (rq_crypto rq) (us_TOTPSecret u) code (rq_now rq) 0 = (step, ok)"
    by fastforce
  show ?thesis
  proof (cases "us_TOTPEnabled u \<or> us_TOTPSecret u = [] \<or> \<not> ok")
    case True
    with twoFAEnable_refuses [of u rq code s] v m
    have q: "harmless (twoFAEnable rq u code)" and "enrolled rq u code r = []" by (auto simp: enrolled_def)
    with guarded_calm [OF g harmlessD [OF q m]] show ?thesis by simp
  next
    case False
    then have v': "VerifyTOTP (rq_crypto rq) (us_TOTPSecret u) code (rq_now rq) 0 = (step, True)"
      and u': "\<not> us_TOTPEnabled u" "us_TOTPSecret u \<noteq> []" using v by auto
    show ?thesis
      by (rule guarded_through [OF g u clockAhead_ahead [OF t] through_twoFAEnable [OF v' u'] m],
          rule guarded_enable [OF _ u u'])
        (auto simp: enrolled_def v)
  qed
qed

lemma harmless_step: "guarded (si_db s) R U S \<Longrightarrow> harmless m \<Longrightarrow> guarded (si_db (snd (m s))) R U S"
  by (metis guarded_calm harmless_def)

lemma profile_step:
  assumes g: "guarded (si_db s) R U S" and u: "u \<in> set R" and t: "clockAhead rq s"
    and m: "through (profiles (rq_now rq) u) m \<or> through (updates (rq_now rq) (clearTOTP u)) m"
  shows "guarded (si_db (snd (m s))) R U S"
  using m
proof
  assume "through (profiles (rq_now rq) u) m"
  from guarded_through [OF g u clockAhead_ahead [OF t] this surjective_pairing, where L = "[]" and S' = S]
  show ?thesis using guarded_profile [OF _ u] by simp
next
  assume "through (updates (rq_now rq) (clearTOTP u)) m"
  from guarded_through [OF g u clockAhead_ahead [OF t] this surjective_pairing, where L = "[]" and S' = S]
  show ?thesis using guarded_reset [OF _ u] by simp
qed


lemma harmless_twoFARecovery:
  assumes "\<not> us_TOTPEnabled u \<or> consumeSecondFactor rq u code = None"
  shows "harmless (twoFARecovery rq u pw code)"
  using assms unfolding twoFARecovery_def
  by (auto simp: require_def intro!: harmless_intros)

text \<open>A handler that, unless it takes a code, is harmless.\<close>

lemma optional_handler:
  assumes g: "guarded (si_db s) R U S" and u: "u \<in> set R" and t: "clockAhead rq s"
    and run: "m s = (r, s')"
    and q: "\<not> us_TOTPEnabled u \<or> consumeSecondFactor rq u code = None \<Longrightarrow> harmless m"
    and w: "\<And>u' used. us_TOTPEnabled u \<Longrightarrow> consumeSecondFactor rq u code = Some (u', used) \<Longrightarrow>
      \<exists>after. through (secures (rq_now rq) u after) m \<and> sameFactor u' after"
  shows "guarded (si_db s') R (spent rq u code r @ U) S"
proof (cases "\<not> us_TOTPEnabled u \<or> consumeSecondFactor rq u code = None")
  case True
  then have "spent rq u code r = []" by (auto simp: spent_none)
  with guarded_calm [OF g harmlessD [OF q [OF True] run]] show ?thesis by simp
next
  case False
  then obtain u' used where c: "us_TOTPEnabled u" "consumeSecondFactor rq u code = Some (u', used)"
    by auto
  from w [OF c] obtain after where "through (secures (rq_now rq) u after) m" "sameFactor u' after"
    by blast
  from accept_handler [OF g u c(1) t c(2) this(1) run this(2)] show ?thesis .
qed

lemma login2FA_handler:
  assumes g: "guarded (si_db s) R U S" and u: "u \<in> set R" "us_TOTPEnabled u" and t: "clockAhead rq s"
    and run: "login2FA_finish rq tok code u s = (r, s')"
  shows "guarded (si_db s') R (spent rq u code r @ U) S"
proof (rule optional_handler [OF g u(1) t, where m = "login2FA_finish rq tok code u"])
  show "login2FA_finish rq tok code u s = (r, s')" by (rule run)
next
  assume "\<not> us_TOTPEnabled u \<or> consumeSecondFactor rq u code = None"
  with u(2) show "harmless (login2FA_finish rq tok code u)"
    by (simp add: login2FA_finish_def harmless_basic)
next
  fix u' used
  assume "consumeSecondFactor rq u code = Some (u', used)"
  then show "\<exists>after. through (secures (rq_now rq) u after) (login2FA_finish rq tok code u) \<and> sameFactor u' after"
    using through_login2FA sameFactor_refl(1) by blast
qed

lemma key_handler:
  assumes g: "guarded (si_db s) R U S" and u: "u \<in> set R" and t: "clockAhead rq s"
    and run: "createAPIKey rq u kin s = (r, s')"
  shows "guarded (si_db s') R (spent rq u (ki_Code kin) r @ U) S"
proof (rule optional_handler [OF g u t, where m = "createAPIKey rq u kin"])
  fix u' used
  assume "us_TOTPEnabled u" "consumeSecondFactor rq u (ki_Code kin) = Some (u', used)"
  from through_createAPIKey [OF this]
  show "\<exists>after. through (secures (rq_now rq) u after) (createAPIKey rq u kin) \<and> sameFactor u' after"
    using sameFactor_refl(1) by blast
qed (use run harmless_createAPIKey in auto)

lemma recovery_handler:
  assumes g: "guarded (si_db s) R U S" and u: "u \<in> set R" and t: "clockAhead rq s"
    and run: "twoFARecovery rq u pw code s = (r, s')"
  shows "guarded (si_db s') R (spent rq u code r @ U) S"
proof (rule optional_handler [OF g u t, where m = "twoFARecovery rq u pw code"])
  fix u' used
  assume "consumeSecondFactor rq u code = Some (u', used)"
  from through_twoFARecovery [OF this]
  show "\<exists>after. through (secures (rq_now rq) u after) (twoFARecovery rq u pw code) \<and> sameFactor u' after"
    using sameFactor_refl(2) by blast
qed (use run harmless_twoFARecovery in auto)

lemma enrol_handler:
  assumes g: "guarded (si_db s) R U S" and u: "u \<in> set R" and t: "clockAhead rq s"
    and fresh: "rq_secret rq \<notin> set ([] # S)" and run: "twoFASetup rq u pw s = (r, s')"
  shows "guarded (si_db s') R U (rq_secret rq # S)"
proof -
  have "guarded (si_db s') R ([] @ U) (rq_secret rq # S)"
    by (rule guarded_through [OF g u clockAhead_ahead [OF t] through_twoFASetup run])
      (use u fresh in \<open>auto intro: guarded_enrol\<close>)
  then show ?thesis by simp
qed

lemma visit_keeps:
  assumes "visit p q" "portal_ok p"
  shows "portal_ok q"
  using assms
proof (cases rule: visit.cases)
  case (entry m rq a b c me inp uid policy k)
  with assms(2) show ?thesis
    by (auto simp: portal_ok_def intro!: harmless_step harmless_login harmless_login2FA_read harmless_setup
        harmless_createUser harmless_deleteUser harmless_revokeAPIKey harmless_logout harmless_gate)
next
  case (profile u rq m n a me inp k b)
  with assms(2) show ?thesis
    by (auto simp: portal_ok_def intro!: profile_step through_setMyProfile through_setMyAvatar
        through_updateUser through_twoFAReset through_changePassword)
qed (simp_all add: portal_ok_def guarded_load login2FA_handler key_handler disable_handler
    recovery_handler enrol_handler enable_handler)

lemma visits_keep: "visit\<^sup>*\<^sup>* p q \<Longrightarrow> portal_ok p \<Longrightarrow> portal_ok q"
  by (induction rule: rtranclp_induct) (auto intro: visit_keeps)

text \<open>A site whose users have no second factor yet, before any request.\<close>

definition portal_start :: "site \<Rightarrow> portal" where
  "portal_start s = \<lparr>po_site = s, po_reads = [], po_used = [], po_secrets = []\<rparr>"

definition noFactors :: "site \<Rightarrow> bool" where
  "noFactors s \<longleftrightarrow>
     accounts_ok (si_db s) \<and>
     list_all (\<lambda>(k, u). k \<le> users_seq (si_db s) \<and> \<not> us_TOTPEnabled u \<and> us_TOTPSecret u = [])
       (users (si_db s))"

lemma portal_start_ok: "noFactors s \<Longrightarrow> portal_ok (portal_start s)"
  by (auto simp: portal_ok_def portal_start_def noFactors_def guarded_def rowOk_def list_all_iff
      dest!: map_of_SomeD)

end
