(* ===== verification/UdpSession.thy ===== *)
theory UdpSession
  imports Calendar
begin

text \<open>
  Package \<^verbatim>\<open>internal/udpsession\<close>: the agent closes UDP sessions of fixed forwards whose kernel
  admission has expired. Reading the local JSON documents and the HTTP exchange are outside:
  a configuration and a snapshot arrive decoded, the connections of other nodes included; the
  answer of the local API to a DELETE, how far a cancelled batch got, and the parsers of
  durations and addresses are parameters. What is modelled is what is accepted from those
  documents, the two-observation rule of \<^verbatim>\<open>Reaper.Sweep\<close> and the bookkeeping around it.
\<close>

section \<open>Numbers in text\<close>

text \<open>\<^verbatim>\<open>strconv.ParseInt(s, 10, 64)\<close> with the value it reports, and \<^verbatim>\<open>strconv.ParseUint(s, 10, 16)\<close>.\<close>

definition ParseInt :: "string \<Rightarrow> i64 \<times> bool" where
  "ParseInt s =
     (let neg = HasPrefix s ''-'';
          ds = (if HasPrefix s ''-'' \<or> HasPrefix s ''+'' then tl s else s);
          v = int (digits_value 0 ds)
      in if ds = [] \<or> \<not> list_all is_digit ds then (0, False)
         else if neg then (if v > MaxInt64 + 1 then (- MaxInt64 - 1, False) else (- v, True))
         else (if v > MaxInt64 then (MaxInt64, False) else (v, True)))"

definition ParseUint16 :: "string \<Rightarrow> int option" where
  "ParseUint16 s =
     (if s = [] \<or> \<not> list_all is_digit s then None
      else let v = int (digits_value 0 s) in if v > 65535 then None else Some v)"

section \<open>Configuration\<close>

definition MaxSessions :: int where "MaxSessions = 8192"
definition MaxExpiryBatch :: int where "MaxExpiryBatch = 512"

record Policy =
  pl_ListenPort :: int
  pl_Idle :: int

record Config =
  cf_Secret :: string
  cf_Policies :: "i64 \<Rightarrow> Policy option"
  cf_ListenPorts :: "int list"

record CoreInbound =
  ib_Tag :: string
  ib_Network :: string
  ib_Port :: int
  ib_Timeout :: string

record CoreConfig =
  cc_ExternalController :: string
  cc_Secret :: string
  cc_Inbounds :: "CoreInbound list"

definition noConfig :: Config where
  "noConfig = \<lparr>cf_Secret = [], cf_Policies = Map.empty, cf_ListenPorts = []\<rparr>"

definition parseInbound :: "(string \<Rightarrow> int option) \<Rightarrow> Config \<Rightarrow> CoreInbound \<Rightarrow> Config res" where
  "parseInbound ParseDuration c0 b =
     (let c = (if ib_Network b \<noteq> ''\"udp\"'' then c0\<lparr>cf_ListenPorts := ib_Port b # cf_ListenPorts c0\<rparr> else c0)
      in if \<not> HasPrefix (ib_Tag b) ''forward-'' \<or> ib_Network b = ''\"tcp\"'' then Inr c
         else case (ParseInt (TrimPrefix (ib_Tag b) ''forward-''), ParseDuration (ib_Timeout b)) of
           ((i, True), Some idle) \<Rightarrow>
             (if i < 1 \<or> i > 16777215 \<or> ib_Port b < 1 \<or> ib_Port b > 65535
                \<or> idle < 2 * second_ns \<or> idle > 600 * second_ns
              then Inl (Err ''invalid local UDP policy'')
              else if cf_Policies c i \<noteq> None then Inl (Err ''duplicate local UDP policy'')
              else Inr (c\<lparr>cf_Policies := (cf_Policies c)(i \<mapsto> \<lparr>pl_ListenPort = ib_Port b, pl_Idle = idle\<rparr>)\<rparr>))
         | _ \<Rightarrow> Inl (Err ''invalid local UDP policy''))"

definition ParseConfig :: "(string \<Rightarrow> int option) \<Rightarrow> int \<Rightarrow> CoreConfig option \<Rightarrow> Config res" where
  "ParseConfig ParseDuration len doc =
     (case doc of
        None \<Rightarrow> Inl (Err ''invalid local UDP configuration'')
      | Some v \<Rightarrow>
          (if len > 2097152 then Inl (Err ''invalid local UDP configuration'')
           else bindR (foldE (parseInbound ParseDuration) noConfig (cc_Inbounds v)) (\<lambda>c.
             if list_all (\<lambda>b. \<not> HasPrefix (ib_Tag b) ''forward-'' \<or> ib_Network b = ''\"tcp\"'') (cc_Inbounds v)
             then Inr c
             else if cc_ExternalController v \<noteq> ''127.0.0.1:0'' \<or> length (cc_Secret v) \<noteq> 64
             then Inl (Err ''UDP connection manager missing local authentication'')
             else if \<not> list_all isHexLower (cc_Secret v)
             then Inl (Err ''invalid local UDP authentication'')
             else Inr (c\<lparr>cf_Secret := cc_Secret v\<rparr>))))"

section \<open>Connections\<close>

record Flow =
  fl_ForwardID :: i64
  fl_Source :: "string \<times> int"
  fl_ListenPort :: int

record Connection =
  cn_ID :: string
  cn_Network :: string
  cn_Type :: string
  cn_SourceIP :: string
  cn_SourcePort :: string
  cn_Upload :: i64
  cn_Download :: i64

definition validID :: "string \<Rightarrow> bool" where
  "validID i \<longleftrightarrow>
     length i = 36 \<and>
     list_all (\<lambda>(k, c). if k = 8 \<or> k = 13 \<or> k = 18 \<or> k = (23 :: nat) then c = CHR ''-'' else isHexLower c)
       (enumerate 0 i)"

text \<open>
  \<^verbatim>\<open>Connection.flow\<close>: \<open>Inr None\<close> for a connection that is not a known forward's.
  \<open>ParseAddr\<close> is \<^verbatim>\<open>netip.ParseAddr\<close> followed by \<^verbatim>\<open>Unmap\<close>.
\<close>

definition flow :: "(string \<Rightarrow> string option) \<Rightarrow> (i64 \<Rightarrow> Policy option) \<Rightarrow> Connection \<Rightarrow> Flow option res" where
  "flow ParseAddr policies c =
     (if cn_Network c \<noteq> ''udp'' \<or> \<not> HasPrefix (cn_Type c) ''direct/forward-'' then Inr None
      else case ParseInt (TrimPrefix (cn_Type c) ''direct/forward-'') of (i, parsed) \<Rightarrow>
        (case policies i of
           None \<Rightarrow> Inr None
         | Some policy \<Rightarrow>
             (case (ParseAddr (cn_SourceIP c), ParseUint16 (cn_SourcePort c)) of
                (Some ip, Some port) \<Rightarrow>
                  (if \<not> parsed \<or> \<not> validID (cn_ID c) \<or> cn_Upload c < 0 \<or> cn_Download c < 0
                   then Inl (Err ''invalid UDP connection observation'')
                   else Inr (Some \<lparr>fl_ForwardID = i, fl_Source = (ip, port),
                                   fl_ListenPort = pl_ListenPort policy\<rparr>))
              | _ \<Rightarrow> Inl (Err ''invalid UDP connection observation''))))"

text \<open>What \<^verbatim>\<open>API.Connections\<close> keeps of a decoded snapshot.\<close>

definition keepConnection :: "(string \<Rightarrow> string option) \<Rightarrow> (i64 \<Rightarrow> Policy option) \<Rightarrow>
    Connection list \<Rightarrow> Connection \<Rightarrow> Connection list res" where
  "keepConnection ParseAddr policies result c =
     bindR (flow ParseAddr policies c) (\<lambda>f.
       case f of
         None \<Rightarrow> Inr result
       | Some _ \<Rightarrow>
           (if int (length (result @ [c])) > MaxSessions
            then Inl (Err ''UDP session observation exceeds budget'')
            else Inr (result @ [c])))"

definition Connections :: "(string \<Rightarrow> string option) \<Rightarrow> (i64 \<Rightarrow> Policy option) \<Rightarrow>
    Connection list res \<Rightarrow> Connection list res" where
  "Connections ParseAddr policies snapshot =
     bindR snapshot (foldE (keepConnection ParseAddr policies) [])"

section \<open>Closing\<close>

text \<open>
  How a batch of DELETE requests ends: the ones the API accepts, and whether the context was
  cancelled after some of them had been handed to the workers.
\<close>

record closing =
  cl_accepts :: "string \<Rightarrow> bool"
  cl_cancelled :: "nat option"

definition closeConnections :: "closing \<Rightarrow> Connection list \<Rightarrow> Connection list \<times> unit res" where
  "closeConnections cl items =
     (let sent = (case cl_cancelled cl of None \<Rightarrow> items | Some n \<Rightarrow> take n items);
          closed = filter (\<lambda>c. validID (cn_ID c) \<and> cl_accepts cl (cn_ID c)) sent
      in (closed,
          if cl_cancelled cl \<noteq> None then Inl (Err ''context canceled'')
          else if length closed < length sent then Inl (Err ''local UDP manager unavailable'')
          else Inr ()))"

section \<open>The reaper\<close>

record absent =
  ab_since :: time
  ab_upload :: i64
  ab_download :: i64

record Reaper =
  re_flows :: "Flow list"
  re_Active :: "i64 \<Rightarrow> int"
  re_Reaped :: "64 word"
  re_missing :: "string \<Rightarrow> absent option"
  re_activity :: "string \<Rightarrow> absent option"

definition newReaper :: Reaper where
  "newReaper = \<lparr>re_flows = [], re_Active = (\<lambda>_. 0), re_Reaped = 0, re_missing = Map.empty,
     re_activity = Map.empty\<rparr>"

record sweeping =
  sw_next :: "string \<Rightarrow> absent option"
  sw_active :: "i64 \<Rightarrow> int"
  sw_flows :: "Flow list"
  sw_expired :: "Connection list"
  sw_activity :: "string \<Rightarrow> absent option"

definition sameCounters :: "absent \<Rightarrow> Connection \<Rightarrow> bool" where
  "sameCounters a c \<longleftrightarrow> ab_upload a = cn_Upload c \<and> ab_download a = cn_Download c"

definition seenNow :: "time \<Rightarrow> Connection \<Rightarrow> absent" where
  "seenNow now c = \<lparr>ab_since = now, ab_upload = cn_Upload c, ab_download = cn_Download c\<rparr>"

abbreviation half_second_ns :: int where
  "half_second_ns \<equiv> 500000000"

text \<open>When the counters last changed, as far as the sweeps have seen.\<close>

definition lastActive :: "Reaper \<Rightarrow> time \<Rightarrow> Connection \<Rightarrow> absent" where
  "lastActive r now c =
     (case re_activity r (cn_ID c) of
        Some a \<Rightarrow> if sameCounters a c then a else seenNow now c
      | None \<Rightarrow> seenNow now c)"

text \<open>The test that lets a connection expire.\<close>

definition expires :: "Reaper \<Rightarrow> time \<Rightarrow> int \<Rightarrow> Connection \<Rightarrow> absent option" where
  "expires r now idle c =
     (case re_missing r (cn_ID c) of
        Some old \<Rightarrow>
          if sameCounters old c \<and> now - ab_since old \<ge> half_second_ns
             \<and> now - ab_since (lastActive r now c) \<ge> idle
          then Some old else None
      | None \<Rightarrow> None)"

definition sweepOne :: "(string \<Rightarrow> string option) \<Rightarrow> Config \<Rightarrow> Reaper \<Rightarrow> (Flow \<Rightarrow> bool) \<Rightarrow> time \<Rightarrow>
    sweeping \<Rightarrow> Connection \<Rightarrow> sweeping res" where
  "sweepOne ParseAddr cfg r live now st c =
     bindR (flow ParseAddr (cf_Policies cfg) c) (\<lambda>f0.
       let f = (case f0 of Some f \<Rightarrow> f | None \<Rightarrow> \<lparr>fl_ForwardID = 0, fl_Source = ([], 0), fl_ListenPort = 0\<rparr>);
           idle = (case cf_Policies cfg (fl_ForwardID f) of Some p \<Rightarrow> pl_Idle p | None \<Rightarrow> 0);
           st1 = st\<lparr>sw_activity := (sw_activity st)(cn_ID c \<mapsto> lastActive r now c),
                    sw_active := (sw_active st)(fl_ForwardID f := sw_active st (fl_ForwardID f) + 1),
                    sw_flows := f # sw_flows st\<rparr>
       in Inr (if live f then st1
          else case expires r now idle c of
            Some old \<Rightarrow>
              (if int (length (sw_expired st1)) < MaxExpiryBatch
               then st1\<lparr>sw_expired := sw_expired st1 @ [c]\<rparr>
               else st1\<lparr>sw_next := (sw_next st1)(cn_ID c \<mapsto> old)\<rparr>)
          | None \<Rightarrow>
              st1\<lparr>sw_next := (sw_next st1)(cn_ID c \<mapsto>
                (case re_missing r (cn_ID c) of
                   Some old \<Rightarrow> if sameCounters old c then old else seenNow now c
                 | None \<Rightarrow> seenNow now c))\<rparr>))"

definition newSweep :: sweeping where
  "newSweep = \<lparr>sw_next = Map.empty, sw_active = (\<lambda>_. 0), sw_flows = [], sw_expired = [],
     sw_activity = Map.empty\<rparr>"

definition releaseActive :: "(string \<Rightarrow> string option) \<Rightarrow> Config \<Rightarrow> Connection list \<Rightarrow> (i64 \<Rightarrow> int) \<Rightarrow> i64 \<Rightarrow> int" where
  "releaseActive ParseAddr cfg closed active =
     fold (\<lambda>c a. let i = (case flow ParseAddr (cf_Policies cfg) c of Inr (Some f) \<Rightarrow> fl_ForwardID f | _ \<Rightarrow> 0)
                 in a(i := a i - 1)) closed active"

text \<open>\<^verbatim>\<open>Sweep\<close> up to the point where it starts closing.\<close>

definition sweepPlan :: "(string \<Rightarrow> string option) \<Rightarrow> Config \<Rightarrow> Connection list res \<Rightarrow> (Flow \<Rightarrow> bool) \<Rightarrow> time \<Rightarrow>
    Reaper \<Rightarrow> sweeping res" where
  "sweepPlan ParseAddr cfg snapshot live now r =
     bindR (Connections ParseAddr (cf_Policies cfg) snapshot) (\<lambda>connections.
       if \<not> distinct (map cn_ID connections) then Inl (Err ''duplicate UDP connection identity'')
       else foldE (sweepOne ParseAddr cfg r live now) newSweep connections)"

definition Sweep :: "(string \<Rightarrow> string option) \<Rightarrow> Config \<Rightarrow> Connection list res \<Rightarrow> (Flow \<Rightarrow> bool) \<Rightarrow> time \<Rightarrow>
    closing \<Rightarrow> Reaper \<Rightarrow> unit res \<times> Reaper" where
  "Sweep ParseAddr cfg snapshot live now cl r =
     (case sweepPlan ParseAddr cfg snapshot live now r of
        Inl e \<Rightarrow> (Inl e, r)
      | Inr st \<Rightarrow>
          (case closeConnections cl (sw_expired st) of
             (closed, res) \<Rightarrow>
               let r1 = r\<lparr>re_Reaped := re_Reaped r + of_nat (length closed),
                          re_Active := releaseActive ParseAddr cfg closed (sw_active st),
                          re_flows := sw_flows st\<rparr>
               in case res of
                    Inl e \<Rightarrow> (Inl e, r1)
                  | Inr _ \<Rightarrow> (Inr (), r1\<lparr>re_missing := sw_next st, re_activity := sw_activity st\<rparr>)))"

definition Reset :: "(string \<Rightarrow> string option) \<Rightarrow> Config \<Rightarrow> Connection list res \<Rightarrow> closing \<Rightarrow> Reaper \<Rightarrow>
    unit res \<times> Reaper" where
  "Reset ParseAddr cfg snapshot cl r =
     (case Connections ParseAddr (cf_Policies cfg) snapshot of
        Inl e \<Rightarrow> (Inl e, r)
      | Inr items \<Rightarrow>
          (if \<not> distinct (map cn_ID items)
           then (Inl (Err ''duplicate UDP connection identity''), r)
           else case closeConnections cl items of
             (closed, res) \<Rightarrow>
               let r1 = r\<lparr>re_Reaped := re_Reaped r + of_nat (length closed)\<rparr>
               in case res of
                    Inl e \<Rightarrow> (Inl e, r1)
                  | Inr _ \<Rightarrow>
                      (Inr (), newReaper\<lparr>re_Reaped := re_Reaped r1\<rparr>)))"


section \<open>What the reaper remembers\<close>

text \<open>
  A sighting is one completed sweep: its time, the forward connections it saw and the flows
  the kernel still admitted. \<open>since P sws t\<close>: the most recent sightings satisfy \<open>P\<close>, back to one
  made at \<open>t\<close>.
\<close>

record sighting =
  sg_now :: time
  sg_connections :: "Connection list"
  sg_live :: "Flow \<Rightarrow> bool"

fun since :: "(sighting \<Rightarrow> bool) \<Rightarrow> sighting list \<Rightarrow> time \<Rightarrow> bool" where
  "since P [] t = False"
| "since P (s # sws) t = (P s \<and> (sg_now s = t \<or> since P sws t))"

definition shows_counters :: "string \<Rightarrow> absent \<Rightarrow> sighting \<Rightarrow> bool" where
  "shows_counters i a s = list_ex (\<lambda>c. cn_ID c = i \<and> sameCounters a c) (sg_connections s)"

definition shows_absent :: "(string \<Rightarrow> string option) \<Rightarrow> Config \<Rightarrow> string \<Rightarrow> absent \<Rightarrow> sighting \<Rightarrow> bool" where
  "shows_absent ParseAddr cfg i a s =
     list_ex (\<lambda>c. cn_ID c = i \<and> sameCounters a c \<and>
         (case flow ParseAddr (cf_Policies cfg) c of Inr (Some f) \<Rightarrow> \<not> sg_live s f | _ \<Rightarrow> False))
       (sg_connections s)"

definition knows :: "(string \<Rightarrow> string option) \<Rightarrow> Config \<Rightarrow> sighting list \<Rightarrow>
    (string \<Rightarrow> absent option) \<Rightarrow> (string \<Rightarrow> absent option) \<Rightarrow> bool" where
  "knows ParseAddr cfg sws missing activity \<longleftrightarrow>
     (\<forall>i a. missing i = Some a \<longrightarrow> since (shows_absent ParseAddr cfg i a) sws (ab_since a)) \<and>
     (\<forall>i a. activity i = Some a \<longrightarrow> since (shows_counters i a) sws (ab_since a))"

lemma knowsD:
  assumes "knows ParseAddr cfg sws missing activity"
  shows "missing i = Some a \<Longrightarrow> since (shows_absent ParseAddr cfg i a) sws (ab_since a)"
    and "activity i = Some a \<Longrightarrow> since (shows_counters i a) sws (ab_since a)"
  using assms by (simp_all add: knows_def)

text \<open>The history of a reaper: completed sweeps are remembered, a failed one is not, a reset forgets.\<close>

inductive watched :: "(string \<Rightarrow> string option) \<Rightarrow> Config \<Rightarrow> sighting list \<Rightarrow> Reaper \<Rightarrow> bool"
  for ParseAddr cfg where
  begin_watch: "watched ParseAddr cfg [] newReaper"
| swept: "watched ParseAddr cfg sws r \<Longrightarrow>
    Connections ParseAddr (cf_Policies cfg) snapshot = Inr connections \<Longrightarrow>
    Sweep ParseAddr cfg snapshot live now cl r = (Inr (), r') \<Longrightarrow>
    watched ParseAddr cfg (\<lparr>sg_now = now, sg_connections = connections, sg_live = live\<rparr> # sws) r'"
| missed: "watched ParseAddr cfg sws r \<Longrightarrow>
    Sweep ParseAddr cfg snapshot live now cl r = (Inl e, r') \<Longrightarrow> watched ParseAddr cfg sws r'"
| reset: "watched ParseAddr cfg sws r \<Longrightarrow>
    Reset ParseAddr cfg snapshot cl r = (Inr (), r') \<Longrightarrow> watched ParseAddr cfg [] r'"
| unreset: "watched ParseAddr cfg sws r \<Longrightarrow>
    Reset ParseAddr cfg snapshot cl r = (Inl e, r') \<Longrightarrow> watched ParseAddr cfg sws r'"

lemma foldE_within:
  assumes "foldE step s xs = Inr s'" "I s"
    and "\<And>s x s'. x \<in> set xs \<Longrightarrow> step s x = Inr s' \<Longrightarrow> I s \<Longrightarrow> I s'"
  shows "I s'"
  using assms
proof (induction xs arbitrary: s)
  case Nil
  then show ?case by simp
next
  case (Cons x xs)
  then obtain t where t: "step s x = Inr t" "foldE step t xs = Inr s'" by (auto simp: bindR_eq_Inr)
  have "I t" using Cons.prems(2,3) t(1) by auto
  then show ?case by (rule Cons.IH [OF t(2)]) (use Cons.prems(3) in auto)
qed

lemma sameCounters_seenNow [simp]: "sameCounters (seenNow now c) c" "ab_since (seenNow now c) = now"
  by (simp_all add: sameCounters_def seenNow_def)

text \<open>The connections a snapshot delivers belong to forwards.\<close>

lemma Connections_flow:
  assumes "Connections ParseAddr policies snapshot = Inr cs" "c \<in> set cs"
  shows "\<exists>f. flow ParseAddr policies c = Inr (Some f)"
proof -
  obtain all where all: "foldE (keepConnection ParseAddr policies) [] all = Inr cs"
    using assms(1) by (auto simp: Connections_def bindR_eq_Inr)
  have "\<forall>c \<in> set cs. \<exists>f. flow ParseAddr policies c = Inr (Some f)"
    by (rule foldE_within [OF all])
      (auto simp: keepConnection_def bindR_eq_Inr split: option.splits if_splits)
  with assms(2) show ?thesis by blast
qed

lemma Connections_bounded:
  assumes "Connections ParseAddr policies snapshot = Inr cs"
  shows "int (length cs) \<le> MaxSessions"
proof -
  obtain all where all: "foldE (keepConnection ParseAddr policies) [] all = Inr cs"
    using assms by (auto simp: Connections_def bindR_eq_Inr)
  show ?thesis
    by (rule foldE_within [OF all])
      (auto simp: keepConnection_def bindR_eq_Inr MaxSessions_def split: option.splits if_splits)
qed


lemma flow_policy:
  "flow ParseAddr policies c = Inr (Some f) \<Longrightarrow> \<exists>p. policies (fl_ForwardID f) = Some p"
  by (auto simp: flow_def split: if_splits prod.splits option.splits)

section \<open>When a connection is closed\<close>

text \<open>A connection that is to be closed, as a sweep over \<open>cs\<close> sees it.\<close>

definition mayClose :: "(string \<Rightarrow> string option) \<Rightarrow> Config \<Rightarrow> Reaper \<Rightarrow> (Flow \<Rightarrow> bool) \<Rightarrow> time \<Rightarrow>
    Connection list \<Rightarrow> Connection \<Rightarrow> bool" where
  "mayClose ParseAddr cfg r live now cs c \<longleftrightarrow>
     c \<in> set cs \<and>
     (\<exists>f p. flow ParseAddr (cf_Policies cfg) c = Inr (Some f) \<and> \<not> live f \<and>
        cf_Policies cfg (fl_ForwardID f) = Some p \<and> expires r now (pl_Idle p) c \<noteq> None)"

definition sweepInv :: "(string \<Rightarrow> string option) \<Rightarrow> Config \<Rightarrow> Reaper \<Rightarrow> (Flow \<Rightarrow> bool) \<Rightarrow> time \<Rightarrow>
    Connection list \<Rightarrow> sighting list \<Rightarrow> sweeping \<Rightarrow> bool" where
  "sweepInv ParseAddr cfg r live now cs sws st \<longleftrightarrow>
     knows ParseAddr cfg (\<lparr>sg_now = now, sg_connections = cs, sg_live = live\<rparr> # sws)
       (sw_next st) (sw_activity st) \<and>
     int (length (sw_expired st)) \<le> MaxExpiryBatch \<and>
     list_all (mayClose ParseAddr cfg r live now cs) (sw_expired st)"

lemma lastActive_known:
  assumes k: "knows ParseAddr cfg sws missing (re_activity r)" and c: "c \<in> set cs"
  shows "since (shows_counters (cn_ID c) (lastActive r now c))
    (\<lparr>sg_now = now, sg_connections = cs, sg_live = live\<rparr> # sws) (ab_since (lastActive r now c))"
proof -
  have same: "sameCounters (lastActive r now c) c"
    by (simp add: lastActive_def split: option.split)
  with c have "shows_counters (cn_ID c) (lastActive r now c) \<lparr>sg_now = now, sg_connections = cs, sg_live = live\<rparr>"
    by (auto simp: shows_counters_def list_ex_iff)
  with knowsD(2) [OF k] show ?thesis
    by (auto simp: lastActive_def split: option.split)
qed

lemma missing_known:
  assumes k: "knows ParseAddr cfg sws (re_missing r) activity" and c: "c \<in> set cs"
    and f: "flow ParseAddr (cf_Policies cfg) c = Inr (Some f)" "\<not> live f"
    and old: "re_missing r (cn_ID c) = Some old \<and> sameCounters old c \<or> old = seenNow now c"
  shows "since (shows_absent ParseAddr cfg (cn_ID c) old)
    (\<lparr>sg_now = now, sg_connections = cs, sg_live = live\<rparr> # sws) (ab_since old)"
proof -
  have "sameCounters old c" using old by auto
  with c f have "shows_absent ParseAddr cfg (cn_ID c) old \<lparr>sg_now = now, sg_connections = cs, sg_live = live\<rparr>"
    by (auto simp: shows_absent_def list_ex_iff intro!: bexI [of _ c])
  with knowsD(1) [OF k] old show ?thesis by auto
qed

lemma sweepOne_keeps:
  assumes k: "knows ParseAddr cfg sws (re_missing r) (re_activity r)" and c: "c \<in> set cs"
    and f: "flow ParseAddr (cf_Policies cfg) c = Inr (Some f)"
    and step: "sweepOne ParseAddr cfg r live now st c = Inr st'"
    and inv: "sweepInv ParseAddr cfg r live now cs sws st"
  shows "sweepInv ParseAddr cfg r live now cs sws st'"
proof -
  let ?s = "\<lparr>sg_now = now, sg_connections = cs, sg_live = live\<rparr> # sws"
  obtain p where p: "cf_Policies cfg (fl_ForwardID f) = Some p" using flow_policy [OF f] by blast
  have act: "since (shows_counters (cn_ID c) (lastActive r now c)) ?s (ab_since (lastActive r now c))"
    using k c by (rule lastActive_known)
  have known: "knows ParseAddr cfg ?s (sw_next st) ((sw_activity st)(cn_ID c \<mapsto> lastActive r now c))"
    using inv act by (auto simp: sweepInv_def knows_def)
  have next_known: "knows ParseAddr cfg ?s ((sw_next st)(cn_ID c \<mapsto> old))
      ((sw_activity st)(cn_ID c \<mapsto> lastActive r now c))"
    if "\<not> live f" "re_missing r (cn_ID c) = Some old \<and> sameCounters old c \<or> old = seenNow now c" for old
    using known missing_known [OF k c f, where live = live and old = old and now = now] that
    by (auto simp: knows_def)
  have exp: "re_missing r (cn_ID c) = Some old \<and> sameCounters old c" if "expires r now idle c = Some old" for old idle
    using that by (auto simp: expires_def split: option.splits if_splits)
  show ?thesis
    using step inv f p c known
    by (auto simp: sweepOne_def Let_def sweepInv_def mayClose_def MaxExpiryBatch_def
        split: if_splits option.splits intro!: next_known dest: exp)
qed


lemma sweepPlan_keeps:
  assumes k: "knows ParseAddr cfg sws (re_missing r) (re_activity r)"
    and cs: "Connections ParseAddr (cf_Policies cfg) snapshot = Inr cs"
    and plan: "sweepPlan ParseAddr cfg snapshot live now r = Inr st"
  shows "sweepInv ParseAddr cfg r live now cs sws st"
proof -
  have fold: "foldE (sweepOne ParseAddr cfg r live now) newSweep cs = Inr st"
    using plan cs by (simp add: sweepPlan_def split: if_splits)
  show ?thesis
  proof (rule foldE_within [OF fold])
    show "sweepInv ParseAddr cfg r live now cs sws newSweep"
      by (simp add: sweepInv_def newSweep_def knows_def MaxExpiryBatch_def)
    fix st c st'
    assume c: "c \<in> set cs" and step: "sweepOne ParseAddr cfg r live now st c = Inr st'"
      and inv: "sweepInv ParseAddr cfg r live now cs sws st"
    obtain f where f: "flow ParseAddr (cf_Policies cfg) c = Inr (Some f)"
      using Connections_flow [OF cs c] by blast
    show "sweepInv ParseAddr cfg r live now cs sws st'"
      by (rule sweepOne_keeps [OF k c f step inv])
  qed
qed

lemma Sweep_done:
  assumes "Sweep ParseAddr cfg snapshot live now cl r = (Inr (), r')"
  obtains st where "sweepPlan ParseAddr cfg snapshot live now r = Inr st"
    "re_missing r' = sw_next st" "re_activity r' = sw_activity st"
  using assms by (auto simp: Sweep_def Let_def split: sum.splits prod.splits)

lemma Sweep_failed:
  assumes "Sweep ParseAddr cfg snapshot live now cl r = (Inl e, r')"
  shows "re_missing r' = re_missing r" "re_activity r' = re_activity r"
  using assms by (auto simp: Sweep_def Let_def split: sum.splits prod.splits)

lemma Reset_memory:
  assumes "Reset ParseAddr cfg snapshot cl r = (res, r')"
  shows "if isOk res then re_missing r' = Map.empty \<and> re_activity r' = Map.empty
    else re_missing r' = re_missing r \<and> re_activity r' = re_activity r"
  using assms by (auto simp: Reset_def Let_def newReaper_def split: sum.splits prod.splits if_splits)

lemma watched_knows: "watched ParseAddr cfg sws r \<Longrightarrow> knows ParseAddr cfg sws (re_missing r) (re_activity r)"
proof (induction rule: watched.induct)
  case begin_watch
  then show ?case by (simp add: knows_def newReaper_def)
next
  case (swept sws r snapshot connections live now cl r')
  obtain st where st: "sweepPlan ParseAddr cfg snapshot live now r = Inr st"
    "re_missing r' = sw_next st" "re_activity r' = sw_activity st"
    using swept.hyps(3) by (rule Sweep_done)
  from sweepPlan_keeps [OF swept.IH swept.hyps(2) st(1)] show ?case
    by (simp add: sweepInv_def st(2,3))
next
  case (missed sws r snapshot live now cl e r')
  then show ?case by (simp add: Sweep_failed [OF missed.hyps(2)])
next
  case (reset sws r snapshot cl r')
  then show ?case using Reset_memory [OF reset.hyps(2)] by (simp add: knows_def)
next
  case (unreset sws r snapshot cl e r')
  then show ?case using Reset_memory [OF unreset.hyps(2)] by simp
qed

text \<open>An accepted configuration gives every forward an idle time of two seconds to ten minutes.\<close>

definition idle_ok :: "Config \<Rightarrow> bool" where
  "idle_ok c \<longleftrightarrow>
     (\<forall>i p. cf_Policies c i = Some p \<longrightarrow>
        1 \<le> i \<and> i \<le> 16777215 \<and> 2 * second_ns \<le> pl_Idle p \<and> pl_Idle p \<le> 600 * second_ns)"

lemma parseInbound_idle: "parseInbound pd c b = Inr c' \<Longrightarrow> idle_ok c \<Longrightarrow> idle_ok c'"
  by (auto simp: parseInbound_def Let_def idle_ok_def
      split: if_splits option.splits prod.splits bool.splits)

interpretation policies: loop_invariant "parseInbound pd" idle_ok for pd
  by unfold_locales (rule parseInbound_idle)

lemma ParseConfig_idle:
  assumes "ParseConfig pd len doc = Inr cfg"
  shows "idle_ok cfg"
proof (cases doc)
  case (Some v)
  obtain c where c: "foldE (parseInbound pd) noConfig (cc_Inbounds v) = Inr c"
    using assms by (auto simp: ParseConfig_def Some bindR_eq_Inr split: if_splits)
  then have "cf_Policies cfg = cf_Policies c"
    using assms by (auto simp: ParseConfig_def Some split: if_splits)
  moreover have "idle_ok noConfig" by (simp add: idle_ok_def noConfig_def)
  ultimately show ?thesis using policies.loop_inv [OF c] by (simp add: idle_ok_def)
qed (use assms in \<open>simp add: ParseConfig_def\<close>)

text \<open>Every connection a sweep closes has been absent and idle for long enough.\<close>

lemma closes_only_idle:
  assumes w: "watched ParseAddr cfg sws r" and idle: "idle_ok cfg"
    and plan: "sweepPlan ParseAddr cfg snapshot live now r = Inr st" and c: "c \<in> set (sw_expired st)"
  shows "\<exists>f p a t t'. flow ParseAddr (cf_Policies cfg) c = Inr (Some f) \<and> \<not> live f \<and>
    cf_Policies cfg (fl_ForwardID f) = Some p \<and> sameCounters a c \<and>
    since (shows_absent ParseAddr cfg (cn_ID c) a) sws t \<and> t \<le> now - half_second_ns \<and>
    since (shows_counters (cn_ID c) a) sws t' \<and> t' \<le> now - pl_Idle p"
proof -
  note k = watched_knows [OF w]
  obtain cs where cs: "Connections ParseAddr (cf_Policies cfg) snapshot = Inr cs"
    using plan by (auto simp: sweepPlan_def bindR_eq_Inr)
  obtain f p old where f: "flow ParseAddr (cf_Policies cfg) c = Inr (Some f)" "\<not> live f"
    "cf_Policies cfg (fl_ForwardID f) = Some p" and old: "expires r now (pl_Idle p) c = Some old"
    using sweepPlan_keeps [OF k cs plan] c by (auto simp: sweepInv_def list_all_iff mayClose_def)
  then have m: "re_missing r (cn_ID c) = Some old" "sameCounters old c" "ab_since old \<le> now - half_second_ns"
    and l: "ab_since (lastActive r now c) \<le> now - pl_Idle p"
    by (auto simp: expires_def split: option.splits if_splits)
  have "0 < pl_Idle p" using idle f(3) by (fastforce simp: idle_ok_def)
  with l obtain a where a: "re_activity r (cn_ID c) = Some a" "sameCounters a c" "lastActive r now c = a"
    by (auto simp: lastActive_def split: option.splits if_splits)
  have eq: "shows_counters (cn_ID c) a = shows_counters (cn_ID c) old"
    using a(2) m(2) by (simp add: shows_counters_def sameCounters_def fun_eq_iff)
  show ?thesis
    using f m l a knowsD(1) [OF k m(1)] knowsD(2) [OF k a(1)] eq by auto
qed

lemma expiry_batch:
  assumes "watched ParseAddr cfg sws r" "sweepPlan ParseAddr cfg snapshot live now r = Inr st"
  shows "int (length (sw_expired st)) \<le> MaxExpiryBatch"
proof -
  obtain cs where "Connections ParseAddr (cf_Policies cfg) snapshot = Inr cs"
    using assms(2) by (auto simp: sweepPlan_def bindR_eq_Inr)
  from sweepPlan_keeps [OF watched_knows [OF assms(1)] this assms(2)] show ?thesis
    by (simp add: sweepInv_def)
qed

end
