(* ===== verification/AccessExamples.thy ===== *)
theory AccessExamples
  imports SecondFactor UdpSession
begin

text \<open>
  A small panel and a small agent, used to apply the theorems on accounts and UDP sessions at
  concrete inputs: one administrator who enrols a second factor and signs in with it, a
  password change, and a forward whose only connection falls silent.
\<close>

section \<open>Accounts\<close>

definition ex_crypto :: crypto where
  "ex_crypto = \<lparr>cr_b32 = (\<lambda>_. Some [1]), cr_hmac_sha1 = (\<lambda>k m. [0, 0, 0, last m, 0]),
     cr_sha256 = (\<lambda>s. s), cr_sscanf = (\<lambda>_. Some (64, 1, 1)), cr_b64 = (\<lambda>_. Some (replicate 32 0)),
     cr_b64url = (\<lambda>_. None), cr_argon2 = (\<lambda>_ _ _ _ _ _. replicate 32 0)\<rparr>"

definition ex_admin :: User where
  "ex_admin = noUser\<lparr>us_ID := 1, us_Username := ''admin'', us_PasswordHash := ''$argon2id$v=19$p$s$w'',
     us_Role := RoleAdmin, us_Enabled := True\<rparr>"

definition ex_session :: Session where
  "ex_session = \<lparr>sn_ID = ''cookie'', sn_UserID = 1, sn_CreatedAt = 0, sn_ExpiresAt = 2 * unix_epoch,
     sn_UserAgent = [], sn_IP = [], sn_SecurityVersion = 0\<rparr>"

definition ex_key :: APIKey where
  "ex_key = \<lparr>ak_SecurityVersion = 0, ak_ID = 1, ak_UserID = 1, ak_Name = ''ci'', ak_TokenHash = ''key'',
     ak_TokenHint = [], ak_Scopes = [''read''], ak_CreatedAt = 0, ak_ExpiresAt = None,
     ak_LastUsedAt = None, ak_RevokedAt = None\<rparr>"

definition ex_accounts :: accounts where
  "ex_accounts = \<lparr>users = [(1, ex_admin)], users_seq = 1, sessions = [(''cookie'', ex_session)],
     api_keys = [(1, ex_key)], api_keys_seq = 1\<rparr>"

definition ex_site :: site where
  "ex_site = \<lparr>si_db = ex_accounts,
     si_challenges = [(''ch'', \<lparr>ch_credentials = [], ch_userID = 1, ch_expires = 2 * unix_epoch, ch_attempts = 1\<rparr>)],
     si_login = newRateLimiter 10 minute_ns, si_factor = newRateLimiter 30 minute_ns, si_audit = []\<rparr>"

text \<open>A request at \<open>n\<close> seconds after the epoch; its random token is \<open>token\<close>.\<close>

definition ex_request :: "int \<Rightarrow> string \<Rightarrow> request" where
  "ex_request n token = \<lparr>rq_crypto = ex_crypto, rq_now = unix_epoch + n * second_ns, rq_ip = ''192.0.2.1'',
     rq_userAgent = [], rq_sessionTTL = day_ns, rq_setupToken = [], rq_token = token, rq_challenge = ''ch'',
     rq_secret = ''SECRET'', rq_recovery = [], rq_salted = (\<lambda>p. p), rq_avatar = Inr,
     rq_authorization = [], rq_cookie = None, rq_csrf = [], rq_csrfToken = (\<lambda>c. c)\<rparr>"

definition ex_row :: "site \<Rightarrow> User" where
  "ex_row s = (case lookup (users (si_db s)) 1 of None \<Rightarrow> noUser | Some u \<Rightarrow> u)"

definition ex_load :: "portal \<Rightarrow> portal" where
  "ex_load p = p\<lparr>po_reads := ex_row (po_site p) # po_reads p\<rparr>"

definition ex_enrol :: "portal \<Rightarrow> portal" where
  "ex_enrol p =
     (let rq = ex_request 2990 []; (r, s) = twoFASetup rq (hd (po_reads p)) [] (po_site p)
      in p\<lparr>po_site := s, po_secrets := rq_secret rq # po_secrets p\<rparr>)"

definition ex_enable :: "portal \<Rightarrow> portal" where
  "ex_enable p =
     (let rq = ex_request 3000 ''t1''; u = hd (po_reads p);
          (r, s) = twoFAEnable rq u ''000100'' (po_site p)
      in p\<lparr>po_site := s, po_used := enrolled rq u ''000100'' r @ po_used p\<rparr>)"

definition ex_signin :: "portal \<Rightarrow> portal" where
  "ex_signin p =
     (let rq = ex_request 3030 ''t2''; u = hd (po_reads p);
          (r, s) = login2FA_finish rq ''ch'' ''000101'' u (po_site p)
      in p\<lparr>po_site := s, po_used := spent rq u ''000101'' r @ po_used p\<rparr>)"

definition ex_portal :: portal where
  "ex_portal = ex_signin (ex_load (ex_enable (ex_load (ex_enrol (ex_load (portal_start ex_site))))))"

lemma ex_noFactors: "noFactors ex_site"
  by code_simp

lemma ex_portal_used: "po_used ex_portal = [(1, ''SECRET'', 101), (1, ''SECRET'', 100)]"
  by code_simp

lemma ex_load_visit:
  assumes "isOk (GetUser 1 (si_db (po_site p)))"
  shows "visit p (ex_load p)"
proof -
  have "GetUser 1 (si_db (po_site p)) = Inr (ex_row (po_site p))"
    using assms by (auto simp: GetUser_def ex_row_def split: option.splits)
  then show ?thesis unfolding ex_load_def by (rule visit.load)
qed

lemma ex_enrol_visit:
  assumes "po_reads p \<noteq> []" "clockAhead (ex_request 2990 []) (po_site p)" "po_secrets p = []"
  shows "visit p (ex_enrol p)"
proof -
  obtain r s where run: "twoFASetup (ex_request 2990 []) (hd (po_reads p)) [] (po_site p) = (r, s)" by fastforce
  have "visit p (p\<lparr>po_site := s, po_secrets := rq_secret (ex_request 2990 []) # po_secrets p\<rparr>)"
    by (rule visit.enrol [OF _ assms(2) _ run]) (use assms in \<open>auto simp: ex_request_def\<close>)
  then show ?thesis by (simp add: ex_enrol_def run Let_def)
qed

lemma ex_enable_visit:
  assumes "po_reads p \<noteq> []" "clockAhead (ex_request 3000 ''t1'') (po_site p)"
  shows "visit p (ex_enable p)"
proof -
  obtain r s where run: "twoFAEnable (ex_request 3000 ''t1'') (hd (po_reads p)) ''000100'' (po_site p) = (r, s)"
    by fastforce
  show ?thesis
    unfolding ex_enable_def Let_def run prod.case
    by (rule visit.enable [OF _ assms(2) run]) (use assms(1) in auto)
qed

lemma ex_signin_visit:
  assumes "po_reads p \<noteq> []" "us_TOTPEnabled (hd (po_reads p))" "clockAhead (ex_request 3030 ''t2'') (po_site p)"
  shows "visit p (ex_signin p)"
proof -
  obtain r s where run: "login2FA_finish (ex_request 3030 ''t2'') ''ch'' ''000101'' (hd (po_reads p)) (po_site p) = (r, s)"
    by fastforce
  show ?thesis
    unfolding ex_signin_def Let_def run prod.case
    by (rule visit.login2fa [OF _ assms(2,3) run]) (use assms(1) in auto)
qed

lemma ex_portal_visits: "visit\<^sup>*\<^sup>* (portal_start ex_site) ex_portal"
proof -
  let ?p0 = "portal_start ex_site"
  let ?p1 = "ex_load ?p0" let ?p2 = "ex_enrol ?p1" let ?p3 = "ex_load ?p2"
  let ?p4 = "ex_enable ?p3" let ?p5 = "ex_load ?p4"
  have "visit ?p0 ?p1" by (rule ex_load_visit) code_simp
  moreover have "visit ?p1 ?p2" by (rule ex_enrol_visit) code_simp+
  moreover have "visit ?p2 ?p3" by (rule ex_load_visit) code_simp
  moreover have "visit ?p3 ?p4" by (rule ex_enable_visit) code_simp+
  moreover have "visit ?p4 ?p5" by (rule ex_load_visit) code_simp
  moreover have "visit ?p5 (ex_signin ?p5)" by (rule ex_signin_visit) code_simp+
  ultimately show ?thesis unfolding ex_portal_def by (meson rtranclp.rtrancl_into_rtrancl rtranclp.rtrancl_refl)
qed


text \<open>The administrator's new password, and what an intruder with the old cookie or key then tries.\<close>

definition ex_newpass :: User where
  "ex_newpass = ex_admin\<lparr>us_PasswordHash := ''new''\<rparr>"

definition ex_intruder :: "account_op list" where
  "ex_intruder = [TouchKey 2000 1, ReadSession 2000 ''cookie'', Touch 2000 1, RevokeKey 2100 1 1]"

lemma ex_accounts_ok: "accounts_ok ex_accounts"
  by code_simp

section \<open>UDP sessions\<close>

definition ex_core :: CoreConfig where
  "ex_core = \<lparr>cc_ExternalController = ''127.0.0.1:0'', cc_Secret = replicate 64 CHR ''a'',
     cc_Inbounds = [\<lparr>ib_Tag = ''forward-1'', ib_Network = ''\"udp\"'', ib_Port = 25001, ib_Timeout = ''2s''\<rparr>]\<rparr>"

definition ex_duration :: "string \<Rightarrow> int option" where
  "ex_duration s = (if s = ''2s'' then Some (2 * second_ns) else None)"

definition ex_udp :: Config where
  "ex_udp = (case ParseConfig ex_duration 300 (Some ex_core) of Inr c \<Rightarrow> c | Inl _ \<Rightarrow> noConfig)"

definition ex_conn :: Connection where
  "ex_conn = \<lparr>cn_ID = ''11111111-1111-1111-1111-111111111111'', cn_Network = ''udp'', cn_Type = ''direct/forward-1'',
     cn_SourceIP = ''192.0.2.2'', cn_SourcePort = ''7'', cn_Upload = 10, cn_Download = 20\<rparr>"

definition ex_close :: closing where
  "ex_close = \<lparr>cl_accepts = (\<lambda>_. True), cl_cancelled = None\<rparr>"

text \<open>Two sweeps, at the start and a second later; the third, at three seconds, closes the connection.\<close>

definition ex_sweep :: "int \<Rightarrow> Reaper \<Rightarrow> unit res \<times> Reaper" where
  "ex_sweep n r = Sweep Some ex_udp (Inr [ex_conn]) (\<lambda>_. False) (n * second_ns) ex_close r"

definition ex_reaper :: Reaper where
  "ex_reaper = snd (ex_sweep 1 (snd (ex_sweep 0 newReaper)))"

definition ex_sighting :: "int \<Rightarrow> sighting" where
  "ex_sighting n = \<lparr>sg_now = n * second_ns, sg_connections = [ex_conn], sg_live = (\<lambda>_. False)\<rparr>"

lemma ex_udp_parsed: "ParseConfig ex_duration 300 (Some ex_core) = Inr ex_udp"
proof -
  have "isOk (ParseConfig ex_duration 300 (Some ex_core))" by code_simp
  then show ?thesis by (auto simp: ex_udp_def isOk_iff)
qed

lemma ex_conn_seen: "Connections Some (cf_Policies ex_udp) (Inr [ex_conn]) = Inr [ex_conn]"
  by code_simp

lemma ex_sweep_watched:
  assumes "watched Some ex_udp sws r" "isOk (fst (ex_sweep n r))"
  shows "watched Some ex_udp (ex_sighting n # sws) (snd (ex_sweep n r))"
proof -
  have "ex_sweep n r = (Inr (), snd (ex_sweep n r))"
    using assms(2) by (cases "ex_sweep n r") (auto simp: isOk_iff)
  then show ?thesis
    unfolding ex_sighting_def
    by (intro watched.swept [OF assms(1) ex_conn_seen, where cl = ex_close]) (simp add: ex_sweep_def)
qed

lemma ex_watched: "watched Some ex_udp [ex_sighting 1, ex_sighting 0] ex_reaper"
proof -
  have "watched Some ex_udp [ex_sighting 0] (snd (ex_sweep 0 newReaper))"
    by (rule ex_sweep_watched [OF watched.begin_watch]) code_simp
  then show ?thesis unfolding ex_reaper_def by (rule ex_sweep_watched) code_simp
qed

lemma ex_plan: "case sweepPlan Some ex_udp (Inr [ex_conn]) (\<lambda>_. False) (3 * second_ns) ex_reaper of
    Inr st \<Rightarrow> map cn_ID (sw_expired st) = [cn_ID ex_conn] \<and> sw_expired st = [ex_conn] | Inl _ \<Rightarrow> False"
  by code_simp

end
