(* ===== verification/Spec2Isabelle.thy ===== *)
theory Spec2Isabelle
  imports AgentExamples AccessExamples
begin

text \<open>
  A verification development for the controller of VpsCT (\<^verbatim>\<open>ctlvps\<close>): the Go program that runs a
  fleet of VPS, meters what flows through them, bills it against quotas, shares capacity with
  customers and tells each server's agent what to run. The controller keeps everything in one
  SQLite database; heartbeats of the agents, administrators' requests and periodic jobs are
  transactions on it.

  \<^bold>\<open>The model.\<close> The database is the record \<open>db\<close> of theory \<open>Tables\<close>, one field per table, a
  table an association list from its primary key; a transaction is a function from databases to
  a result and a database (\<open>Tx\<close>: commit or roll back). Errors are values of \<open>error + 'a\<close>, with
  the Chinese messages of the code glossed in English. Go's \<^verbatim>\<open>int64\<close> is \<open>int\<close> with wrap-around
  written out (\<open>add64\<close>, \<open>sub64\<close>), packet marks are 32-bit words, a time is the number of
  nanoseconds since the year 1, whose zero is Go's zero time. Triggers of the schema are
  functions applied by the writes that fire them, in SQLite's order. Hashes, address parsers
  and the parts of the builder that are not modelled are parameters (\<open>env\<close>, \<open>BuildEnv\<close>), about
  which nothing is assumed. Where requests interleave, what others commit between two queries
  is a parameter too (\<open>pe_others\<close>, \<open>mg_others\<close>).

  \<^bold>\<open>Parts and theories.\<close>
  \<^item> \<open>Prelude\<close>: 64-bit arithmetic, results, loops with errors, strings; the interfaces
    \<open>loop_invariant\<close>, \<open>loop_accumulates\<close> and \<open>cas_register\<close>.
  \<^item> \<open>Calendar\<close>, \<open>Period\<close> (\<^verbatim>\<open>traffic/ingest.go\<close>): dates of Go's \<^verbatim>\<open>time\<close>, monthly reset periods.
  \<^item> \<open>Domain\<close> (\<^verbatim>\<open>domain/models.go\<close>): rows, billing modes, node quotas.
  \<^item> \<open>Proto\<close>, \<open>Topology\<close>, \<open>NatConfig\<close> (\<^verbatim>\<open>agentproto\<close>, \<^verbatim>\<open>natconfig\<close>): what agents report and its
    validation, packet marks, the hierarchy of interfaces, NAT port maps.
  \<^item> \<open>Tables\<close>, \<open>Ledger\<close> (\<^verbatim>\<open>store/traffic.go\<close>): the database and the traffic buckets.
  \<^item> \<open>Meter\<close>, \<open>Heartbeat\<close>, \<open>Billing\<close>, \<open>Cutover\<close>, \<open>Receipts\<close>, \<open>Ingest\<close>, \<open>Accounting\<close>
    (\<^verbatim>\<open>traffic\<close>, \<^verbatim>\<open>store/forward_receipt.go\<close>): the transaction of one heartbeat, from counter
    deltas to shares, interface billing, forward receipts and final settlements.
  \<^item> \<open>Usage\<close> (\<^verbatim>\<open>store/server_usage_calibration.go\<close>, \<^verbatim>\<open>server_quota.go\<close>): what a server has used,
    provider readings, the automatic stop, daily series.
  \<^item> \<open>Generations\<close> (triggers of \<^verbatim>\<open>store/schema.go\<close> and its companions), \<open>Publish\<close>
    (\<^verbatim>\<open>store/misc.go\<close>, \<^verbatim>\<open>network_operations.go\<close>), \<open>Operations\<close>: network generations, numbered desired
    states, the outbox and the status machine of network operations.
  \<^item> \<open>Barrier\<close>, \<open>Desired\<close> (\<^verbatim>\<open>desired/desired.go\<close>): building and publishing a server's state while
    other requests commit.
  \<^item> \<open>Shares\<close>, \<open>Enforcement\<close> (\<^verbatim>\<open>store/shares.go\<close>, \<^verbatim>\<open>share/share.go\<close>): customer shares and the manager
    that runs their state machine.
  \<^item> \<open>Credentials\<close>, \<open>Accounts\<close>, \<open>Admission\<close>, \<open>Login\<close>, \<open>SecondFactor\<close> (\<^verbatim>\<open>auth\<close>,
    \<^verbatim>\<open>store/users.go\<close>, \<^verbatim>\<open>store/api_keys.go\<close>, \<^verbatim>\<open>api/account.go\<close>, \<^verbatim>\<open>api/auth.go\<close>, \<^verbatim>\<open>api/api_keys.go\<close>):
    one-time codes and passwords, the account tables, rate limits and login challenges, the
    account handlers, and their interleavings. They have a state of their own, the record
    \<open>accounts\<close>, inside the record \<open>site\<close> of one controller process.
  \<^item> \<open>UdpSession\<close> (\<^verbatim>\<open>udpsession/session.go\<close>): the agent's reaper of idle UDP sessions.
  \<^item> \<open>NodeMeters\<close>, \<open>AgentState\<close>, \<open>MeterRetirement\<close>, \<open>Settlement\<close> (\<^verbatim>\<open>nft/nodes.go\<close>,
    \<^verbatim>\<open>core/systemd.go\<close>, \<^verbatim>\<open>agent/state.go\<close>, \<^verbatim>\<open>agent/retirement.go\<close>, \<^verbatim>\<open>api/agent.go\<close>): the meters on an
    agent's host, the state file with its failing saves, the end of a meter and its settlement
    with the panel, and their joint runs. Agent, panel and host are the record \<open>world\<close>; what the
    network, the disk, nft and systemd do to a call is its argument \<open>outcome\<close>; the runs, with
    crashes and power losses, are the relation \<open>life\<close>.
  \<^item> \<open>Examples\<close>, \<open>AccessExamples\<close>, \<open>AgentExamples\<close>: a small installation at which the theorems
    are applied.

  \<^bold>\<open>Interfaces.\<close> \<open>loop_invariant\<close> is interpreted for every loop of the heartbeat transaction,
  \<open>bucket_ledger\<close> for the traffic buckets, \<open>cas_register\<close> for publication, \<open>trigger_invariant\<close>
  for what survives every trigger, \<open>barrier\<close> for the generation as a barrier between reading and
  publishing, \<open>manager_invariant\<close> for what survives every loop of the share manager,
  \<open>account_history\<close> for what survives every operation on the account tables.

  \<^bold>\<open>What is shown.\<close> The properties of this theory, numbered C1 onwards: enforcement reaches the
  servers and no publication undoes it (C1 to C3); a heartbeat is atomic, settles once and keeps
  the books (C4 to C10); revisions never fork and operations follow their machine (C11 to C16);
  shares settle on the right status (C17 to C19); network billing, receipts and marks
  (C20 to C26); periods, ledger, usage and NAT (C27 to C34); a one-time code works once, changed
  credentials revoke, guessing is bounded, only idle UDP sessions are closed (C35 to C38); an
  agent deletes no meter before its last value is settled, and a retirement completes
  (C39, C40).

  \<^bold>\<open>Bounds.\<close> Loops of the code that retry are functions of the number of attempts left, with the
  code's own bounds: eight for a publication, three for an evaluation. Enough is shown of them:
  a publication that is left alone needs one (C3), an evaluation at most two (C17). All other
  recursion is over lists or has a termination proof.

  \<^bold>\<open>Not modelled.\<close> Failures of the panel's disk and of SQLite itself; rendering of core configurations and
  subscriptions for third-party clients; the agent's core drivers, network bindings, forward
  meters and self-update, and of nftables and systemd all but the meters of nodes; the
  HTTP layer in front of the handlers, and all handlers but those of accounts and the durable
  part of the heartbeat; notifications; provisioning of nodes and certificates; the egress
  transports, access routes and transits of a server. Of the tables that are modelled, the
  administrator's edits of nodes, forwards and billing policies.
\<close>

section \<open>Enforcement\<close>





text \<open>
  C3. Left alone, a publication succeeds at the first attempt: if the server exists, is not
  under maintenance and its state can be built, \<^verbatim>\<open>publish\<close> returns a revision and the
  server's generation is published.
\<close>

theorem publication_succeeds:
  assumes "\<And>i d. pe_others P 0 i d = d" "lookup (servers d) sid = Some server"
    and "Build ((pe_build P)\<lparr>be_now := pe_now P 0\<rparr>) (server\<lparr>sv_ID := sid\<rparr>) (\<lambda>_. d) = Inr ds"
    and "tracked sid d" "sid \<notin> set (maintenance_active d)"
  shows "\<exists>r d'. publish P sid force d = (Inr r, d') \<and> publicationCurrent sid d'"
  using assms by (rule publish_alone)

theorem publication_succeeds_witness:
  "\<exists>r d'. publish ex_publisher 1 False ex_over = (Inr r, d') \<and> publicationCurrent 1 d'"
proof -
  have "isOk (Build (ex_builder\<lparr>be_now := ex_now\<rparr>) (ex_server\<lparr>sv_ID := 1\<rparr>) (\<lambda>_. ex_over))" by code_simp
  then obtain ds where "Build (ex_builder\<lparr>be_now := ex_now\<rparr>) (ex_server\<lparr>sv_ID := 1\<rparr>) (\<lambda>_. ex_over) = Inr ds"
    by (auto simp: isOk_iff)
  then show ?thesis
    using publication_succeeds [of ex_publisher ex_over 1 ex_server ds False]
    by (simp add: ex_publisher_def ex_over_def ex_db_def empty_db_def tracked_def)
qed

section \<open>Accounting\<close>


text \<open>
  C5. A batch of final meter readings is settled exactly once: after a heartbeat carrying
  the batch has been ingested, its batch ID is acknowledged, and the same heartbeat sent
  again at any later time is acknowledged again, reports no traffic and changes nothing.
\<close>

theorem final_settlement_once:
  assumes "Ingest E order now server hb d = (Inr res, d')" and "hb_FinalMeters hb = Some fm"
  shows "rs_FinalMeterAck res = ms_ID fm \<and>
    Ingest E order now' server hb d' = (Inr (no_result\<lparr>rs_FinalMeterAck := ms_ID fm\<rparr>), d')"
  using assms by (rule Ingest_final_once)

theorem final_settlement_once_witness:
  "\<exists>res d'. Ingest ex_env (\<lambda>x. x) ex_now ex_server ex_final_heartbeat ex_db = (Inr res, d') \<and>
     Ingest ex_env (\<lambda>x. x) (ex_now + 1) ex_server ex_final_heartbeat d' =
       (Inr (no_result\<lparr>rs_FinalMeterAck := ms_ID ex_final\<rparr>), d')"
proof -
  obtain res d' where r: "Ingest ex_env (\<lambda>x. x) ex_now ex_server ex_final_heartbeat ex_db = (Inr res, d')"
    using ex_final_ok by (auto simp: isOk_iff prod_eq_iff)
  have "hb_FinalMeters ex_final_heartbeat = Some ex_final" by (simp add: ex_final_heartbeat_def)
  from final_settlement_once [OF r this, of "ex_now + 1"] r show ?thesis by blast
qed

text \<open>
  C6. Ingestion keeps the books in range: if every hourly and daily bucket holds a
  non-negative pair whose sum is a 64-bit integer, every counter baseline and every
  interface baseline is a counter in range and every stored policy is valid, the same holds
  after any heartbeat.
\<close>

theorem ingest_keeps_books:
  assumes "billing_ok d"
  shows "billing_ok (snd (Ingest E order now server hb d))"
  using Ingest_keeps_books [OF _ assms] by (metis prod.collapse)

theorem ingest_keeps_books_witness:
  "billing_ok ex_db \<and> billing_ok (snd (Ingest ex_env (\<lambda>x. x) ex_now ex_server ex_final_heartbeat ex_db))"
  using ingest_keeps_books [OF ex_books] ex_books by blast



text \<open>
  C8. A meter reading that is reported again, after any delay, moves nothing: once a reading
  has been processed, processing it again reports no traffic and leaves every table and the
  set of accepted meters unchanged.
\<close>

theorem meter_replay:
  assumes "delta c key ep rx tx fz m = Inr (r, m')" "key \<noteq> ''''"
  shows "\<exists>ok. delta c key ep rx tx fz m' = Inr ((0, 0, ok), m')"
  using assms by (rule delta_repeat)

theorem meter_replay_witness:
  "\<exists>r m' ok. delta (ic_meter (ex_ctx ex_now)) ''node:7:v1'' ''e1'' 40 60 True ex_run = Inr (r, m') \<and>
     delta (ic_meter (ex_ctx ex_now)) ''node:7:v1'' ''e1'' 40 60 True m' = Inr ((0, 0, ok), m')"
proof -
  have "isOk (delta (ic_meter (ex_ctx ex_now)) ''node:7:v1'' ''e1'' 40 60 True ex_run)" by code_simp
  then obtain r m' where r: "delta (ic_meter (ex_ctx ex_now)) ''node:7:v1'' ''e1'' 40 60 True ex_run = Inr (r, m')"
    by (auto simp: isOk_iff)
  have "''node:7:v1'' \<noteq> ''''" by simp
  from meter_replay [OF r this] r show ?thesis by blast
qed

text \<open>
  C9. A meter that counts from zero under its own key is billed exactly what it moves: what
  \<^verbatim>\<open>delta\<close> reports in each direction is what the stored baseline gains, for every reading,
  in order or late.
\<close>

theorem meter_conserves:
  assumes "delta c key ep rx tx True m = Inr ((dr, dt, ok), m')" "keyed_epoch c key ep m" "key \<noteq> ''''"
    and "\<not> settlesOnlyBaseline c key"
  shows "dr = row_rx (row_of c key m') - row_rx (row_of c key m) \<and>
    dt = row_tx (row_of c key m') - row_tx (row_of c key m)"
  using delta_conserves [OF assms] by blast

theorem meter_conserves_witness:
  "\<exists>dr dt ok m'. delta (ic_meter (ex_ctx ex_now)) ''node:7:v1'' ''e1'' 40 60 True ex_run = Inr ((dr, dt, ok), m') \<and>
     dr = row_rx (row_of (ic_meter (ex_ctx ex_now)) ''node:7:v1'' m') - row_rx (row_of (ic_meter (ex_ctx ex_now)) ''node:7:v1'' ex_run)"
proof -
  have "isOk (delta (ic_meter (ex_ctx ex_now)) ''node:7:v1'' ''e1'' 40 60 True ex_run)" by code_simp
  then obtain dr dt ok m' where r: "delta (ic_meter (ex_ctx ex_now)) ''node:7:v1'' ''e1'' 40 60 True ex_run = Inr ((dr, dt, ok), m')"
    by (auto simp: isOk_iff)
  moreover have "keyed_epoch (ic_meter (ex_ctx ex_now)) ''node:7:v1'' ''e1'' ex_run"
    by (simp add: keyed_epoch_def row_of_def valid_counter_table_def keys_ok_def ex_run_def ex_db_def empty_db_def)
  moreover have "\<not> settlesOnlyBaseline (ic_meter (ex_ctx ex_now)) ''node:7:v1''" by code_simp
  ultimately show ?thesis using meter_conserves [OF r] by auto
qed



section \<open>Publication\<close>

text \<open>
  C11. The revisions of a server form one line: under any sequence of publications, by any
  number of publishers and with any mixture of stale and current expectations, each revision
  is followed by exactly one winner, so the expectations that won are the consecutive numbers
  from the revision before the first to the one before the last.
\<close>

theorem revisions_never_fork:
  "casHistory (publishCas sid) d ws = (es, d') \<Longrightarrow>
   latestRevision sid d \<le> latestRevision sid d' \<and> es = [latestRevision sid d .. latestRevision sid d' - 1]"
  by (rule desired.history_versions)

theorem revisions_never_fork_witness:
  "\<exists>d'. casHistory (publishCas 1) ex_over ex_race = ([0, 1], d') \<and> latestRevision 1 d' = 2"
proof -
  obtain es d' where h: "casHistory (publishCas 1) ex_over ex_race = (es, d')" by fastforce
  have "latestRevision 1 ex_over = 0" by code_simp
  moreover have "latestRevision 1 (snd (casHistory (publishCas 1) ex_over ex_race)) = 2" by code_simp
  then have "latestRevision 1 d' = 2" by (simp add: h)
  moreover have "[0 .. 1] = [0, 1 :: int]" by code_simp
  ultimately show ?thesis using revisions_never_fork [OF h] h by simp
qed

text \<open>
  C12. Publication is idempotent: publishing the same content again, after the revision it
  created, returns that revision, creates nothing and leaves the database unchanged.
\<close>

theorem publication_idempotent:
  assumes "PublishDesired now expected c force d = (Inr (r, True), d')"
    and "lookup (server_network_generations d) (ds_ServerID c) \<noteq> None" "0 \<le> expected"
  shows "PublishDesired now' (expected + 1) c False d' = (Inr (r, False), d')"
  using assms by (rule PublishDesired_idem)

theorem publication_idempotent_witness:
  "\<exists>r d'. PublishDesired ex_now 0 ex_candidate False ex_over = (Inr (r, True), d') \<and>
     PublishDesired (ex_now + 5) 1 ex_candidate False d' = (Inr (r, False), d')"
proof -
  have "ex_created (PublishDesired ex_now 0 ex_candidate False ex_over)" by code_simp
  then obtain r d' where p: "PublishDesired ex_now 0 ex_candidate False ex_over = (Inr (r, True), d')"
    by (auto simp: ex_created_def split: prod.splits sum.splits)
  have "lookup (server_network_generations ex_over) (ds_ServerID ex_candidate) \<noteq> None"
    by (simp add: ex_over_def ex_candidate_def)
  from publication_idempotent [OF p this, of "ex_now + 5"] p show ?thesis by simp
qed

text \<open>
  C13. A new revision is the only one its agent is asked to apply: after a publication exactly
  the new revision of the server is pending, and the pending revisions of every other server
  are as before.
\<close>

theorem one_pending_revision:
  assumes "PublishDesired now expected c force d = (Inr (r, True), d')"
  shows "pendingOf (ds_ServerID c) d' = [expected + 1] \<and> (sid \<noteq> ds_ServerID c \<longrightarrow> pendingOf sid d' = pendingOf sid d)"
  using pendingOf_created [OF assms] by blast

theorem one_pending_revision_witness:
  "\<exists>r d'. PublishDesired ex_now 0 ex_candidate False ex_over = (Inr (r, True), d') \<and> pendingOf 1 d' = [1]"
proof -
  have "ex_created (PublishDesired ex_now 0 ex_candidate False ex_over)" by code_simp
  then obtain r d' where p: "PublishDesired ex_now 0 ex_candidate False ex_over = (Inr (r, True), d')"
    by (auto simp: ex_created_def split: prod.splits sum.splits)
  from one_pending_revision [OF p, of 2] p show ?thesis by (simp add: ex_candidate_def)
qed

section \<open>Network operations\<close>

text \<open>
  C14. Every reachable table of network operations is consistent: whatever sequence of
  publications, receipts, retries, failures, new requests and edits of shares and servers is
  committed, statuses stay in their machine, no generation is published before it exists, an
  operation that still waits belongs to the current generation of its server, and every
  operation is found again further along its machine, under the same identity.
\<close>

theorem operations_consistent:
  assumes "net_step\<^sup>*\<^sup>* d d'" "net_ok d"
  shows "net_ok d' \<and> (\<forall>op \<in> set (network_operations d). \<exists>op' \<in> set (network_operations d'). op_step\<^sup>*\<^sup>* op op' \<and> same_op op op')"
  using net_steps_ok [OF assms] op_steps_same unfolding evolves_def by blast

theorem operations_consistent_witness:
  "net_ok ex_over \<and> net_ok (SetShareStatus ex_now 5 SharePaused ex_over)"
proof -
  have ok: "net_ok ex_over"
    by (simp add: net_ok_def ex_over_def ex_op_def firstGeneration_def keys_ok_def gen_ok_def current_op_def op_valid_def)
  have "net_step ex_over (SetShareStatus ex_now 5 SharePaused ex_over)"
    by (simp add: SetShareStatus_def ex_over_def net_share)
  then have "net_step\<^sup>*\<^sup>* ex_over (SetShareStatus ex_now 5 SharePaused ex_over)" by blast
  from operations_consistent [OF this ok] ok show ?thesis by blast
qed

text \<open>
  C15. A finished operation is never touched again: once saved, applied or superseded, the
  row of an operation stays as it is through every later sequence of steps.
\<close>

theorem finished_operations_stay:
  assumes "net_step\<^sup>*\<^sup>* d d'" "net_ok d" "op \<in> set (network_operations d)" "\<not> live op"
  shows "op \<in> set (network_operations d')"
  using assms by (rule final_forever)

theorem finished_operations_stay_witness:
  "ex_op\<lparr>no_Status := ''applied''\<rparr> \<in> set (network_operations (SetShareStatus ex_now 5 SharePaused ex_done))"
proof -
  have ok: "net_ok ex_done"
    by (simp add: net_ok_def ex_done_def ex_over_def ex_op_def firstGeneration_def keys_ok_def gen_ok_def current_op_def op_valid_def live_def)
  have "net_step ex_done (SetShareStatus ex_now 5 SharePaused ex_done)"
    by (simp add: SetShareStatus_def ex_done_def ex_over_def net_share)
  then have "net_step\<^sup>*\<^sup>* ex_done (SetShareStatus ex_now 5 SharePaused ex_done)" by blast
  from finished_operations_stay [OF this ok, of "ex_op\<lparr>no_Status := ''applied''\<rparr>"]
  show ?thesis by (simp add: ex_done_def live_def)
qed

text \<open>
  C16. Only an exact report completes an operation: if a waiting operation is applied after an
  agent's report, the report said applied, named the operation's server, its revision and its
  hash, the operation belongs to the current generation, and it is not one of the forward
  operations, which need a settled receipt.
\<close>

theorem apply_report_exact:
  assumes "op \<in> set (network_operations d)" "live op"
    and "op' \<in> set (network_operations (RecordNetworkApply now sid v hash status d))" "no_ID op' = no_ID op"
    and "no_Status op' = ''applied''" "distinct (map no_ID (network_operations d))"
  shows "status = ''applied'' \<and> no_ServerID op = sid \<and> no_DesiredRevision op = v \<and> no_DesiredHash op = hash \<and>
    length hash = 64 \<and> no_Generation op = networkGeneration sid d \<and> no_Kind op \<notin> set forwardKinds"
  using assms by (rule RecordNetworkApply_exact)

theorem apply_report_exact_witness:
  "no_DesiredHash ex_sent = replicate 64 CHR ''b'' \<and> no_Generation ex_sent = networkGeneration 1 ex_waiting"
proof -
  let ?d = "RecordNetworkApply ex_now 1 4 (replicate 64 CHR ''b'') ''applied'' ex_waiting"
  have "map no_Status (network_operations ?d) = [''applied''] \<and> map no_ID (network_operations ?d) = [''op1'']" by code_simp
  then obtain op' where op': "network_operations ?d = [op']" "no_Status op' = ''applied''" "no_ID op' = ''op1''" by auto
  have "ex_sent \<in> set (network_operations ex_waiting)" "live ex_sent" "distinct (map no_ID (network_operations ex_waiting))"
    "no_ID op' = no_ID ex_sent"
    using op' by (simp_all add: ex_waiting_def ex_sent_def ex_op_def live_def)
  with apply_report_exact [of ex_sent ex_waiting op' ex_now 1 4 "replicate 64 CHR ''b''" "''applied''"] op'
  show ?thesis by simp
qed

section \<open>Shares\<close>



text \<open>
  C18. What an administrator sets by hand stays: a share that is paused or revoked when the
  periodic check starts is still so when it ends, for every share the check visits, as long as
  no other request changes it meanwhile.
\<close>

theorem manual_status_sticky:
  assumes "manual st" "statusIs i st d" "others_keep (\<lambda>d. manual st \<longrightarrow> statusIs i st d) M"
  shows "statusIs i st (snd (Tick M d))"
  using sticky.Tick_inv [OF assms(3)] assms(1,2) by blast

theorem manual_status_sticky_witness:
  "statusIs 5 SharePaused (snd (Tick ex_manager (SetShareStatus ex_now 5 SharePaused ex_over)))"
proof -
  have "statusIs 5 SharePaused (SetShareStatus ex_now 5 SharePaused ex_over)"
    by (simp add: statusIs_def SetShareStatus_def ex_over_def)
  moreover have "others_keep (\<lambda>d. manual SharePaused \<longrightarrow> statusIs 5 SharePaused d) ex_manager"
    by (simp add: others_keep_def ex_manager_def ex_publisher_def)
  ultimately show ?thesis using manual_status_sticky [of SharePaused] by (simp add: manual_def)
qed



section \<open>Network billing\<close>

text \<open>
  C20. A billing cutover happens once: a heartbeat that carries a cutover and is accepted
  acknowledges it, and processing the same cutover again changes neither the tables nor the
  result.
\<close>

theorem cutover_once:
  assumes "ingestNetworkBilling c s = Inr s'" "ic_switch c = Some sw" "billed_ok s"
  shows "rs_NetworkBillingAck (r_res s') = sw_ID sw \<and> ingestNetworkBilling c s' = Inr s'"
  using assms by (rule cutover_replay)

theorem cutover_once_witness:
  "\<exists>s'. ingestNetworkBilling ex_billing_ctx ex_billing = Inr s' \<and> rs_NetworkBillingAck (r_res s') = sw_ID ex_switch \<and>
     ingestNetworkBilling ex_billing_ctx s' = Inr s'"
proof -
  obtain s' where s: "ingestNetworkBilling ex_billing_ctx ex_billing = Inr s'" using ex_cutover by (auto simp: isOk_iff)
  have "ic_switch ex_billing_ctx = Some ex_switch" by (simp add: ex_billing_ctx_def)
  from cutover_once [OF s this ex_billing_ok] s show ?thesis by blast
qed

text \<open>
  C21. Interface billing is exact: the bytes billed for a snapshot are, in each direction, the
  sum over the policy's interfaces of what a continuous counter has moved since its baseline,
  nothing for an interface that was restarted, replaced, already sampled or unreadable, and
  the number of gaps reported is the number of interfaces without a continuous sample; the
  loop with its overflow checks equals this reference.
\<close>

theorem interface_billing_exact:
  assumes "billingInterfaceDelta E sid policy (Some sn) False d = Inr ((rx, out, missing), d')"
    and "sampled (Some sn) = Some sn" "baselines_ok (network_billing_baselines d)" "distinct (bp_InterfaceIDs policy)"
  shows "rx = (\<Sum>i \<leftarrow> bp_InterfaceIDs policy. fst (moved sid sn (network_billing_baselines d) i)) \<and>
    out = (\<Sum>i \<leftarrow> bp_InterfaceIDs policy. snd (moved sid sn (network_billing_baselines d) i)) \<and>
    missing = length (filter (gap sid sn (network_billing_baselines d)) (bp_InterfaceIDs policy)) \<and>
    0 \<le> rx \<and> rx \<le> MaxInt64 \<and> 0 \<le> out \<and> out \<le> MaxInt64"
  using billingInterfaceDelta_spec [OF assms] by blast

theorem interface_billing_exact_witness:
  "\<exists>missing d'. billingInterfaceDelta ex_env 1 ex_policy (Some ex_snapshot) False ex_baselined = Inr ((400, 400, missing), d') \<and>
     (\<Sum>i \<leftarrow> bp_InterfaceIDs ex_policy. fst (moved 1 ex_snapshot (network_billing_baselines ex_baselined) i)) = 400"
proof -
  have "map_sum id fst (billingInterfaceDelta ex_env 1 ex_policy (Some ex_snapshot) False ex_baselined) = Inr (400, 400, 0)"
    by code_simp
  then obtain d' where r: "billingInterfaceDelta ex_env 1 ex_policy (Some ex_snapshot) False ex_baselined = Inr ((400, 400, 0), d')"
    by (cases "billingInterfaceDelta ex_env 1 ex_policy (Some ex_snapshot) False ex_baselined") auto
  have "sampled (Some ex_snapshot) = Some ex_snapshot" by (simp add: sampled_def ex_snapshot_def)
  moreover have "baselines_ok (network_billing_baselines ex_baselined)" "distinct (bp_InterfaceIDs ex_policy)" by code_simp+
  ultimately show ?thesis using interface_billing_exact [OF r] r by auto
qed

text \<open>
  C22. A selection of billing interfaces is accepted exactly when it counts no byte twice: no
  selected interface is a loopback, a tunnel only if it is alone, and no selected interface
  lies above another one in the hierarchy of parents and masters.
\<close>

theorem billing_selection_exact:
  assumes "bp_Mode p = ''interfaces''"
  shows "ValidateBillingTopology (Some s) p = Inr () \<longleftrightarrow>
    (\<forall>n \<in> chosen (ns_Interfaces s) (bp_InterfaceIDs p).
       ni_Kind n \<noteq> ''loopback'' \<and> \<not> (length (bp_InterfaceIDs p) > 1 \<and> ni_Kind n \<in> set tunnelKinds)) \<and>
    (\<forall>i \<in> ni_Index ` chosen (ns_Interfaces s) (bp_InterfaceIDs p).
       \<forall>j \<in> ni_Index ` chosen (ns_Interfaces s) (bp_InterfaceIDs p). j \<noteq> i \<longrightarrow> \<not> (above (ns_Interfaces s))\<^sup>+\<^sup>+ i j)"
  using assms by (rule ValidateBillingTopology_iff)

theorem billing_selection_exact_witness:
  "ValidateBillingTopology (Some ex_snapshot) ex_policy = Inr () \<and> ex_if \<in> chosen (ns_Interfaces ex_snapshot) (bp_InterfaceIDs ex_policy) \<and>
   ni_Kind ex_if \<noteq> ''loopback''"
proof -
  have "ValidateBillingTopology (Some ex_snapshot) ex_policy = Inr ()" by code_simp
  moreover have "ex_if \<in> chosen (ns_Interfaces ex_snapshot) (bp_InterfaceIDs ex_policy)"
  proof -
    have "lastBy ni_ID (ns_Interfaces ex_snapshot) (ni_ID ex_if) = Some ex_if"
      by (rule lastBy_distinct) (simp_all add: ex_snapshot_def)
    then show ?thesis by (simp add: chosen_def ex_policy_def ex_if_def)
  qed
  ultimately show ?thesis using billing_selection_exact [of ex_policy ex_snapshot] by (simp add: ex_policy_def)
qed

text \<open>
  C23. The walk up the hierarchy ends and finds every ancestor: started at the links of an
  interface, on any hierarchy, cyclic or not, the work-list search returns true exactly when
  another selected interface is reachable.
\<close>

theorem ancestor_walk_complete:
  "ancestorSelected ifs selected [i] (uplinks ifs i) \<longleftrightarrow> (\<exists>j \<in> set selected. j \<noteq> i \<and> (above ifs)\<^sup>+\<^sup>+ i j)"
  by (rule ancestorSelected_iff)

section \<open>Marks and receipts\<close>

text \<open>
  C24. A packet mark identifies its owner: over the four families of marks and all identities
  that are accepted, no two owners share a mark, and the mask of the firewall rules reads the
  family back.
\<close>

theorem marks_identify:
  assumes "markOf f i = Inr m" "markOf g j = Inr m"
  shows "f = g \<and> i = j \<and> drop_bit 24 (m AND NodeMarkMask) = familyByte f"
  using markOf_inject [OF assms] markOf_mask [OF assms(1)] by blast

theorem marks_identify_witness:
  "\<exists>m. markOf FamForward 9 = Inr m \<and> drop_bit 24 (m AND NodeMarkMask) = familyByte FamForward"
proof -
  have "isOk (markOf FamForward 9)" by (simp add: ResourceMark_def)
  then obtain m where m: "markOf FamForward 9 = Inr m" by (auto simp: isOk_iff)
  from marks_identify [OF m m] m show ?thesis by blast
qed

text \<open>
  C25. A forward receipt is settled once and completes what it names: after a valid receipt is
  committed, checking the same receipt again reports a replay with nothing left to do, and
  every operation of the server that waited for the receipt's revision and hash is applied.
\<close>

theorem forward_receipt_settles:
  assumes "CommitForwardReceipt E sid r applied now d = Inr d'" "ForwardReceipt_Validate r = Inr ()"
  shows "CheckForwardReceipt E sid r d' = Inr (True, []) \<and>
    (\<forall>op \<in> set (network_operations d). no_ServerID op = sid \<and> no_DesiredRevision op = fr_Revision r \<and>
       no_DesiredHash op = fr_Hash r \<and> (no_Status op = ''waiting_agent'' \<or> no_Status op = ''apply_failed'') \<longrightarrow>
       (\<exists>op' \<in> set (network_operations d'). no_ID op' = no_ID op \<and> no_Status op' = ''applied''))"
  using CommitForwardReceipt_replays [OF assms] CommitForwardReceipt_completes [OF assms(1)] by metis

theorem forward_receipt_settles_witness:
  "\<exists>d'. CommitForwardReceipt ex_env 1 ex_receipt [] ex_now ex_waiting = Inr d' \<and>
     CheckForwardReceipt ex_env 1 ex_receipt d' = Inr (True, []) \<and>
     (\<exists>op' \<in> set (network_operations d'). no_ID op' = ''op1'' \<and> no_Status op' = ''applied'')"
proof -
  obtain d' where c: "CommitForwardReceipt ex_env 1 ex_receipt [] ex_now ex_waiting = Inr d'"
    by (simp add: CommitForwardReceipt_def)
  have "ForwardReceipt_Validate ex_receipt = Inr ()" by code_simp
  from forward_receipt_settles [OF c this] c show ?thesis
    by (force simp: ex_waiting_def ex_sent_def ex_op_def ex_receipt_def)
qed

text \<open>
  C26. A late receipt cannot free a port in use: while a forward keeps a listening port
  reserved for a revision, applying any list of forwards of which none retires that forward
  or names a newer revision of it leaves the port reserved.
\<close>

theorem receipt_keeps_port:
  assumes "foldE (retireForward sid now) d fs = Inr d'" "port_in_use sid fid port rv d"
    and "\<And>f. f \<in> set fs \<Longrightarrow> ff_ForwardID f = fid \<Longrightarrow> ff_Revision f \<le> rv \<and> \<not> ff_Retired f"
  shows "port_in_use sid fid port rv d'"
  using assms by (rule retire_loop_keeps_port)

theorem receipt_keeps_port_witness:
  "\<exists>d'. foldE (retireForward 1 ex_now) ex_listening [\<lparr>ff_ForwardID = 3, ff_Revision = 1, ff_Retired = False\<rparr>] = Inr d' \<and>
     port_in_use 1 3 8080 2 d'"
proof -
  obtain d' where f: "foldE (retireForward 1 ex_now) ex_listening [\<lparr>ff_ForwardID = 3, ff_Revision = 1, ff_Retired = False\<rparr>] = Inr d'"
    by (simp add: retireForward_def)
  have "port_in_use 1 3 8080 2 ex_listening" by (auto simp: port_in_use_def held_def ex_listening_def)
  from receipt_keeps_port [OF f this] f show ?thesis by simp
qed

section \<open>Periods, ledger and usage\<close>

text \<open>
  C27. Traffic periods partition time: every moment from the start of the current period up to
  the next reset has the same period start, the next reset lies strictly later, and it starts
  the period after.
\<close>

theorem periods_partition:
  assumes "0 < NormalizeResetDay rd" "unix_epoch \<le> t"
  shows "PeriodStart t rd \<le> t \<and> t < NextReset t rd \<and> PeriodStart (NextReset t rd) rd = NextReset t rd \<and>
    (\<forall>u. PeriodStart t rd \<le> u \<and> u < NextReset t rd \<longrightarrow> PeriodStart u rd = PeriodStart t rd)"
  using PeriodStart_eq [OF assms(1), of t] NextReset_eq [OF assms] period_month_bounds [of t rd]
    NextReset_succ [OF assms] PeriodStart_same [OF assms] by auto

theorem periods_partition_witness:
  "PeriodStart ex_now 31 \<le> ex_now \<and> ex_now < NextReset ex_now 31"
proof -
  have "0 < NormalizeResetDay 31" "unix_epoch \<le> ex_now" by (simp_all add: NormalizeResetDay_def ex_now_def)
  from periods_partition [OF this] show ?thesis by blast
qed

text \<open>
  C28. The ledger refines exact addition: under any sequence of postings that is accepted, each
  bucket gains in each direction precisely the sum of what was posted to it, other buckets are
  unchanged, and all buckets stay pairs of non-negative totals that fit 64 bits.
\<close>

theorem ledger_exact:
  assumes "valid_buckets t" "\<forall>(k, a, b) \<in> set es. in64 a \<and> in64 b"
    and "foldE (\<lambda>t (k, a, b). bucket_add k a b t) t es = Inr t'"
  shows "valid_buckets t' \<and>
    fst (bucket_get t' k) = fst (bucket_get t k) + (\<Sum>(k', a, b) \<leftarrow> es. if k' = k then a else 0) \<and>
    snd (bucket_get t' k) = snd (bucket_get t k) + (\<Sum>(k', a, b) \<leftarrow> es. if k' = k then b else 0)"
proof -
  have "bucket.post = (\<lambda>t (k, a, b). bucket_add k a b t)" by (intro ext) (simp add: bucket.post_def)
  with assms(3) have "foldE bucket.post t es = Inr t'" by simp
  from bucket.conservation [OF assms(1,2) this] show ?thesis by (simp add: bucket.posted_def)
qed

theorem ledger_exact_witness:
  "\<exists>t'. foldE (\<lambda>t (k, a, b). bucket_add k a b t) [] [((1, ''node'', 7), 5, 6), ((1, ''node'', 7), 10, 20)] = Inr t' \<and>
     fst (bucket_get t' (1, ''node'', 7)) = 15"
proof -
  let ?es = "[((1 :: int, ''node'', 7 :: i64), 5 :: int, 6 :: int), ((1, ''node'', 7), 10, 20)]"
  have "isOk (foldE (\<lambda>t (k, a, b). bucket_add k a b t) [] ?es)" by code_simp
  then obtain t' where t: "foldE (\<lambda>t (k, a, b). bucket_add k a b t) [] ?es = Inr t'" by (auto simp: isOk_iff)
  have "valid_buckets ([] :: bucket_table)" "\<forall>(k, a, b) \<in> set ?es. in64 a \<and> in64 b" by code_simp+
  from ledger_exact [OF this t, of "(1, ''node'', 7)"] t show ?thesis by (simp add: bucket_get_def)
qed

text \<open>
  C29. What is billed is bounded and never shrinks: for valid totals every billing mode bills
  between zero and the sum of both directions, more traffic never bills less, and the two
  directions shown to subscribers add up to exactly what is billed.
\<close>

theorem billing_bounded:
  assumes "0 \<le> a" "a \<le> a'" "0 \<le> b" "b \<le> b'" "a' + b' \<le> MaxInt64"
  shows "0 \<le> QuotaBilled mode a b \<and> QuotaBilled mode a b \<le> a + b \<and> QuotaBilled mode a b \<le> QuotaBilled mode a' b' \<and>
    fst (QuotaUserinfoDirections mode a b) + snd (QuotaUserinfoDirections mode a b) = QuotaBilled mode a b"
proof -
  have s: "a + b \<le> MaxInt64" using assms by linarith
  obtain u v where uv: "QuotaUserinfoDirections mode a b = (u, v)" by fastforce
  show ?thesis
    using QuotaBilled_bounds [OF assms(1,3) s, of mode] QuotaBilled_mono [OF assms, of mode]
      QuotaUserinfo_total [OF assms(1,3) s uv] uv by simp
qed

theorem billing_bounded_witness: "QuotaBilled ''max'' 3 5 \<le> QuotaBilled ''max'' 4 5"
  using billing_bounded [of 3 4 5 5 "''max''"] by simp

text \<open>
  C30. A provider's reading is shown back exactly: right after an administrator stores the
  usage the provider reports, the usage computed for the server in that period is that number.
\<close>

theorem calibration_reads_back:
  assumes "saveServerUsageCalibrationTx (sv_ID s) (sv_QuotaBilling s) (Some cal)
      (PeriodStart now (sv_QuotaResetDay s)) now dirs d = Inr d'"
    and "in64 cal" "\<forall>p \<in> set dirs. in64 (fst p) \<and> in64 (snd p)"
  shows "\<exists>u. ServerUsageOf now s d' = Inr u \<and> us_Billed u = cal"
  using assms by (rule calibration_roundtrip)

theorem calibration_reads_back_witness:
  "\<exists>d' u. saveServerUsageCalibrationTx 1 ''dual'' (Some 777) (PeriodStart ex_now 1) ex_now [] ex_db = Inr d' \<and>
     ServerUsageOf ex_now ex_server d' = Inr u \<and> us_Billed u = 777"
proof -
  have "isOk (saveServerUsageCalibrationTx 1 ''dual'' (Some 777) (PeriodStart ex_now 1) ex_now [] ex_db)" by code_simp
  then obtain d' where d: "saveServerUsageCalibrationTx 1 ''dual'' (Some 777) (PeriodStart ex_now 1) ex_now [] ex_db = Inr d'"
    by (auto simp: isOk_iff)
  have "sv_ID ex_server = 1" "sv_QuotaBilling ex_server = ''dual''" "sv_QuotaResetDay ex_server = 1" by (simp_all add: ex_server_def)
  then show ?thesis using calibration_reads_back [of ex_server 777 ex_now "[]" ex_db d'] d by (simp add: in64_def)
qed



text \<open>
  C32. A daily series adds up to the sum of its range: the points of a series are the days of the
  range, each once and in order, and their totals are what summing the ledger over the same
  range returns.
\<close>

theorem series_adds_up:
  assumes "dailyRange sub sid (a * day_ns) now d = Inr se" "sid \<noteq> 0" "valid_buckets (traffic_daily d)"
    and "SumTraffic sub sid (a * day_ns) now d = Inr (up, down)"
  shows "sr_TotalUp se = up \<and> sr_TotalDown se = down \<and>
    map fst (sr_Points se) = map (\<lambda>k. k * day_ns) [a .. day_of now] \<and>
    (\<Sum>p \<leftarrow> sr_Points se. fst (snd p)) = up \<and> (\<Sum>p \<leftarrow> sr_Points se. snd (snd p)) = down"
  using assms by (rule dailyRange_total)

theorem series_adds_up_witness:
  "\<exists>se. dailyRange ''node'' 7 (729165 * day_ns) ex_now ex_ledger = Inr se \<and> sr_TotalUp se = 12 \<and>
     (\<Sum>p \<leftarrow> sr_Points se. fst (snd p)) = 12"
proof -
  have "isOk (dailyRange ''node'' 7 (729165 * day_ns) ex_now ex_ledger)" by code_simp
  then obtain se where se: "dailyRange ''node'' 7 (729165 * day_ns) ex_now ex_ledger = Inr se" by (auto simp: isOk_iff)
  have "SumTraffic ''node'' 7 (729165 * day_ns) ex_now ex_ledger = Inr (12, 8)" by code_simp
  moreover have "valid_buckets (traffic_daily ex_ledger)" by code_simp
  ultimately show ?thesis using series_adds_up [OF se] se by simp
qed

section \<open>Provider NAT\<close>

text \<open>
  C33. An expanded port map is safe to install: every pair has both ports in range and a
  transport of tcp or udp, no public and no local port is used twice within a transport, no
  translated pair takes a privileged local port, and there are at most twice the permitted
  number of pairs. Normalising a configuration does not change its expansion.
\<close>

theorem nat_expansion_safe:
  assumes "Expand c = Inr ps"
  shows "distinct (map (\<lambda>p. (pm_PublicPort p, pm_Network p)) ps) \<and> distinct (map (\<lambda>p. (pm_LocalPort p, pm_Network p)) ps) \<and>
    (\<forall>p \<in> set ps. 1 \<le> pm_PublicPort p \<and> pm_PublicPort p \<le> 65535 \<and> 1 \<le> pm_LocalPort p \<and> pm_LocalPort p \<le> 65535 \<and>
       pm_Network p \<in> {''tcp'', ''udp''} \<and> (pm_PublicPort p \<noteq> pm_LocalPort p \<longrightarrow> 1024 \<le> pm_LocalPort p)) \<and>
    int (length ps) \<le> 2 * MaxPortPairs \<and> Expand (Normalized c) = Inr ps"
  using Expand_ok [OF assms] Expand_Normalized [of c] assms
  by (auto simp: pairs_ok_def pair_ok_def list_all_iff)

theorem nat_expansion_safe_witness: "\<exists>ps. Expand ex_nat = Inr ps \<and> Expand (Normalized ex_nat) = Inr ps"
proof -
  have "isOk (Expand ex_nat)" by code_simp
  then obtain ps where ps: "Expand ex_nat = Inr ps" by (auto simp: isOk_iff)
  from nat_expansion_safe [OF ps] ps show ?thesis by blast
qed

text \<open>
  C34. A port is admitted exactly when the provider forwards it on every transport asked for:
  the binary search over the sorted pools, whose termination is part of its definition, agrees
  with membership in the expansion, and the call fails exactly for a port out of range, no or
  unknown transports, or a configuration that does not expand.
\<close>

theorem nat_port_admission:
  "case SupportsPort c port ts of
     Inl _ \<Rightarrow> port < 1 \<or> port > 65535 \<or> ts = [] \<or> \<not> set ts \<subseteq> {''tcp'', ''udp''} \<or> (\<exists>e. Expand c = Inl e)
   | Inr b \<Rightarrow> 1 \<le> port \<and> port \<le> 65535 \<and> ts \<noteq> [] \<and> set ts \<subseteq> {''tcp'', ''udp''} \<and>
       (\<exists>ps. Expand c = Inr ps \<and> (b \<longleftrightarrow> (\<forall>t \<in> set ts. \<exists>p \<in> set ps. pm_PublicPort p = port \<and> pm_Network p = t)))"
proof (cases "SupportsPort c port ts")
  case (Inl e)
  then show ?thesis using SupportsPort_error_iff [of c port ts] by auto
next
  case (Inr b)
  then have ok: "1 \<le> port" "port \<le> 65535" "ts \<noteq> []" "set ts \<subseteq> {''tcp'', ''udp''}" and "\<nexists>e. Expand c = Inl e"
    using SupportsPort_error_iff [of c port ts] by auto
  then obtain ps where ps: "Expand c = Inr ps" by (cases "Expand c") auto
  from SupportsPort_iff [OF ps ok] show ?thesis using ok ps Inr by simp
qed

theorem nat_port_admission_witness:
  "\<exists>ps. Expand ex_nat = Inr ps \<and> SupportsPort ex_nat 40022 [''tcp''] = Inr True \<and>
     (\<exists>p \<in> set ps. pm_PublicPort p = 40022 \<and> pm_Network p = ''tcp'')"
proof -
  have "isOk (Expand ex_nat)" by code_simp
  then obtain ps where ps: "Expand ex_nat = Inr ps" by (auto simp: isOk_iff)
  have "SupportsPort ex_nat 40022 [''tcp''] = Inr True" by code_simp
  with nat_port_admission [where c = ex_nat and port = 40022 and ts = "[''tcp'']"] ps show ?thesis by simp
qed

section \<open>Accounts and UDP sessions\<close>

text \<open>
  C35. A one-time code is accepted at most once. Take a site whose users have no second factor
  yet and let any number of requests run in any interleaving: logins with both factors, new API
  keys, enrolment, switching the second factor on and off, new recovery codes, administrative
  resets, profile, role and password changes, deletions. Each may act on a row it read long
  before. If the clock moves between two writes and generated secrets are new, then no step of
  no user's secret is accepted twice, neither by the same nor by another kind of request.
\<close>

theorem second_factor_once:
  assumes "noFactors s" "visit\<^sup>*\<^sup>* (portal_start s) q"
  shows "distinct (po_used q)"
  using visits_keep [OF assms(2) portal_start_ok [OF assms(1)]]
  by (simp add: portal_ok_def guarded_def)

theorem second_factor_once_witness:
  "po_used ex_portal = [(1, ''SECRET'', 101), (1, ''SECRET'', 100)] \<and> distinct (po_used ex_portal)"
  using second_factor_once [OF ex_noFactors ex_portal_visits] ex_portal_used by simp



text \<open>
  C37. A login challenge admits five guesses. However many attempts with it, other challenges,
  expiries and new logins are interleaved, a challenge that is not issued again lets at most
  \<open>challengeAttempts\<close> codes be tried; and after it has been dropped by a successful login, none.
\<close>

theorem guesses_bounded:
  assumes "attempts_ok m" "list_all (\<lambda>op. \<not> issuesChallenge tok op) ops"
  shows "int (count_list (fst (challengeRun ops (snd (issue now tok uid cred m)))) tok) \<le> challengeAttempts \<and>
    count_list (fst (challengeRun ops (snd (drop_challenge tok m)))) tok = 0"
proof
  have "attemptsLeft tok (snd (issue now tok uid cred m)) \<le> challengeAttempts"
    using attempts_ok_lookup [OF attempts_ok_ops(1) [OF assms(1), of now tok uid cred], of tok]
    by (auto simp: attemptsLeft_def challengeAttempts_def split: option.split)
  with attempts_bounded [OF attempts_ok_ops(1) [OF assms(1)] assms(2)]
  show "int (count_list (fst (challengeRun ops (snd (issue now tok uid cred m)))) tok) \<le> challengeAttempts"
    by (rule order_trans)
  have "attemptsLeft tok (snd (drop_challenge tok m)) = 0"
    by (simp add: attemptsLeft_def drop_challenge_def lookup_deleted)
  with attempts_bounded [OF attempts_ok_ops(3) [OF assms(1)] assms(2), of tok]
  show "count_list (fst (challengeRun ops (snd (drop_challenge tok m)))) tok = 0" by simp
qed

theorem guesses_bounded_witness:
  "count_list (fst (challengeRun (replicate 8 (Attempt 1 ''ch'')) (snd (issue 0 ''ch'' 1 [] [])))) ''ch'' = 5 \<and>
   count_list (fst (challengeRun (replicate 8 (Attempt 1 ''ch'')) (snd (drop_challenge ''ch'' [])))) ''ch'' = 0"
proof -
  have "attempts_ok []" by (simp add: attempts_ok_def keys_ok_def)
  moreover have "list_all (\<lambda>op. \<not> issuesChallenge ''ch'' op) (replicate 8 (Attempt 1 ''ch''))" by code_simp
  moreover have "count_list (fst (challengeRun (replicate 8 (Attempt 1 ''ch'')) (snd (issue 0 ''ch'' 1 [] [])))) ''ch'' = 5"
    by code_simp
  ultimately show ?thesis using guesses_bounded by blast
qed

text \<open>
  C38. The agent closes only idle UDP sessions, and few at a time. Under a configuration that
  was accepted, whatever sweeps, failed sweeps and resets came before: every connection a sweep
  hands to the closing batch is without kernel admission now and was so, with the same byte
  counters, in every completed sweep since one at least half a second ago; and its counters
  have not changed in any completed sweep since one made at least its forward's idle time ago.
  A batch holds at most 512 connections, and the counter of reaped sessions grows by exactly
  those of the batch that were closed.
\<close>

theorem reaped_sessions_idle:
  assumes "ParseConfig pd len doc = Inr cfg" "watched ParseAddr cfg sws r"
    and "sweepPlan ParseAddr cfg snapshot admitted now r = Inr st"
  shows "int (length (sw_expired st)) \<le> 512 \<and>
    re_Reaped (snd (Sweep ParseAddr cfg snapshot admitted now cl r)) =
      re_Reaped r + of_nat (length (fst (closeConnections cl (sw_expired st)))) \<and>
    (\<forall>c \<in> set (sw_expired st). \<exists>f p a t t'.
       flow ParseAddr (cf_Policies cfg) c = Inr (Some f) \<and> \<not> admitted f \<and>
       cf_Policies cfg (fl_ForwardID f) = Some p \<and> sameCounters a c \<and>
       since (shows_absent ParseAddr cfg (cn_ID c) a) sws t \<and> t \<le> now - half_second_ns \<and>
       since (shows_counters (cn_ID c) a) sws t' \<and> t' \<le> now - pl_Idle p)"
  using expiry_batch [OF assms(2,3)] closes_only_idle [OF assms(2) ParseConfig_idle [OF assms(1)] assms(3)]
  by (auto simp: MaxExpiryBatch_def Sweep_def assms(3) Let_def split: prod.split sum.split)

theorem reaped_sessions_idle_witness:
  "\<exists>st a t. sweepPlan Some ex_udp (Inr [ex_conn]) (\<lambda>_. False) (3 * second_ns) ex_reaper = Inr st \<and>
     sw_expired st = [ex_conn] \<and> sameCounters a ex_conn \<and>
     since (shows_counters (cn_ID ex_conn) a) [ex_sighting 1, ex_sighting 0] t"
proof -
  obtain st where st: "sweepPlan Some ex_udp (Inr [ex_conn]) (\<lambda>_. False) (3 * second_ns) ex_reaper = Inr st"
    "sw_expired st = [ex_conn]"
    using ex_plan by (auto split: sum.splits)
  from reaped_sessions_idle [OF ex_udp_parsed ex_watched st(1)] st show ?thesis by auto
qed

section \<open>The agent's meters\<close>

text \<open>
  C39. No meter is deleted unread. In every run of an agent and its panel, with messages and
  answers lost, saves failing before or after the file is replaced, nft and systemd failing at
  any point, crashes, restarts, power losses and other work in between: whenever a call of
  \<^verbatim>\<open>retirementPending\<close> deletes the meter of a node, the panel has recorded a valid batch of final
  readings that contains the very value the meter showed before it was deleted.
\<close>

theorem meters_settled_first:
  assumes "life S w" "retirementPending S oc w = (r, w')"
    and "reading (wd_host w) core i = Some v" "reading (wd_host w') core i = None"
  shows "\<exists>fm. MeterSettlement_Validate (se_env S) fm = Inr () \<and>
    lookup (meter_settlements (wd_panel w')) (sv_ID (se_server S), ms_ID fm) \<noteq> None \<and>
    (\<exists>c \<in> set (ms_Counters fm). pc_NodeID c = i \<and> v = (pc_Rx c, pc_Tx c))"
  using pending_accounts [OF assms] by (simp add: accounted_def recorded_def)

theorem meters_settled_first_witness:
  "reading (wd_host ex_frozen) ''singbox'' 7 = Some (40, 60) \<and> reading (wd_host ex_settled) ''singbox'' 7 = None \<and>
   (\<exists>fm :: MeterSettlement. lookup (meter_settlements (wd_panel ex_settled)) (1, ms_ID fm) \<noteq> None \<and>
      (\<exists>c \<in> set (ms_Counters fm). pc_NodeID c = 7 \<and> pc_Rx c = 40 \<and> pc_Tx c = 60))"
proof -
  obtain r where r: "retirementPending ex_setting ex_calm ex_frozen = (r, ex_settled)"
    unfolding ex_settled_def by (metis prod.collapse)
  have sid: "sv_ID (se_server ex_setting) = 1" by (simp add: ex_setting_def ex_server_def)
  obtain fm :: MeterSettlement and c where "lookup (meter_settlements (wd_panel ex_settled)) (1, ms_ID fm) \<noteq> None"
    "c \<in> set (ms_Counters fm)" "pc_NodeID c = 7" "(40, 60) = (pc_Rx c, pc_Tx c)"
    using meters_settled_first [OF ex_frozen_life r ex_frozen_meter ex_settled_meter] unfolding sid by blast
  then show ?thesis using ex_frozen_meter ex_settled_meter by (intro conjI exI [of _ fm] bexI [of _ c]) auto
qed

text \<open>
  C40. A retirement completes: if a frozen plan is valid, no task runs in the slices it names,
  the host's tables can be read and nothing fails during the call, and the panel has
  acknowledged the batch before or accepts it now, then one flush ends with the plan gone from
  memory and disk and exactly its identities forgotten.
\<close>

theorem retirement_completes:
  assumes "undisturbed oc" "as_Retirement (memory w) = Some p" "Retirement_validate (se_env S) p = Inr ()"
    and "cleanable (wd_host w) p"
    and "rt_Acked p \<or> isOk (fst (Ingest (se_env S) (se_order S) (oc_clock oc) (se_server S)
           (finalHeartbeat (rt_Batch p)) (wd_panel w)))"
  shows "\<exists>w'. flushRetirement S oc w = (Inr (), w') \<and> as_Retirement (memory w') = None \<and> disk w' = [memory w'] \<and>
    as_MeterNodes (memory w') = filter (\<lambda>n. am_NodeID n \<notin> am_NodeID ` set (rt_Nodes p)) (as_MeterNodes (memory w))"
  using flush_completes [OF assms] by blast

theorem retirement_completes_witness:
  "\<exists>p w'. as_Retirement (memory ex_frozen) = Some p \<and> flushRetirement ex_setting ex_calm ex_frozen = (Inr (), w') \<and>
     as_Retirement (memory w') = None"
proof (rule ex_ready)
  fix p
  assume p: "as_Retirement (memory ex_frozen) = Some p" "Retirement_validate (se_env ex_setting) p = Inr ()"
    "cleanable (wd_host ex_frozen) p"
    and ok: "isOk (fst (Ingest (se_env ex_setting) (se_order ex_setting) (oc_clock ex_calm) (se_server ex_setting)
       (finalHeartbeat (rt_Batch p)) (wd_panel ex_frozen)))"
  from retirement_completes [OF ex_undisturbed p] ok p(1) show ?thesis by blast
qed

end
